(* ===== verification/Prelude.thy ===== *)
theory Prelude
  imports Main "HOL-Library.Multiset" "HOL-Library.Word"
begin

section \<open>Prelude\<close>

text \<open>
  Shared vocabulary of the development: the error type of PostgreSQL's
  \<^verbatim>\<open>ereport\<close>/\<^verbatim>\<open>elog\<close>, sequencing of operations that can raise, C array accesses
  with their range made explicit, and the generic facts on lists and multisets that the
  component theories use.
\<close>

subsection \<open>Errors\<close>

text \<open>
  \<open>Elog msg\<close> is an \<^verbatim>\<open>elog(ERROR, msg)\<close> or \<^verbatim>\<open>ereport(ERROR, \<dots>)\<close>: it unwinds to the
  caller of the access method. \<open>BadAccess what\<close> marks an access for which C gives no meaning
  (a read outside an array or page, a \<^verbatim>\<open>NULL\<close> dereference, a violated \<^verbatim>\<open>Assert\<close>).
  Theorems that an operation returns \<open>Inr\<close> therefore also exclude such accesses.
\<close>

datatype pg_error = Elog string | BadAccess string

text \<open>\<^verbatim>\<open>palloc\<close> raises this when no memory is left.\<close>

definition out_of_memory :: pg_error where
  "out_of_memory = Elog ''out of memory''"

type_synonym 'a result = "pg_error + 'a"

definition bindE :: "'a result \<Rightarrow> ('a \<Rightarrow> 'b result) \<Rightarrow> 'b result" where
  "bindE r f = (case r of Inl e \<Rightarrow> Inl e | Inr x \<Rightarrow> f x)"

lemma bindE_simps [simp]:
  "bindE (Inl e) f = Inl e"
  "bindE (Inr x) f = f x"
  by (simp_all add: bindE_def)

lemma bindE_Inr_iff: "bindE r f = Inr y \<longleftrightarrow> (\<exists>x. r = Inr x \<and> f x = Inr y)"
  by (cases r) auto

lemma bindE_Inl_iff:
  "bindE r f = Inl e \<longleftrightarrow> r = Inl e \<or> (\<exists>x. r = Inr x \<and> f x = Inl e)"
  by (cases r) auto

lemma bindE_InrE [elim!]:
  assumes "bindE r f = Inr y"
  obtains x where "r = Inr x" "f x = Inr y"
  using assms by (auto simp: bindE_Inr_iff)

lemma bindE_cong [fundef_cong]:
  assumes "r = r'" and "\<And>x. r' = Inr x \<Longrightarrow> f x = g x"
  shows "bindE r f = bindE r' g"
  using assms by (cases r') auto

definition guardE :: "bool \<Rightarrow> pg_error \<Rightarrow> unit result" where
  "guardE b e = (if b then Inr () else Inl e)"

lemma guardE_Inr_iff [simp]: "guardE b e = Inr u \<longleftrightarrow> b"
  by (simp add: guardE_def)

definition ofOption :: "pg_error \<Rightarrow> 'a option \<Rightarrow> 'a result" where
  "ofOption e r = (case r of None \<Rightarrow> Inl e | Some x \<Rightarrow> Inr x)"

lemma ofOption_simps [simp]:
  "ofOption e None = Inl e"
  "ofOption e (Some x) = Inr x"
  by (simp_all add: ofOption_def)

lemma ofOption_Inr_iff [simp]: "ofOption e r = Inr x \<longleftrightarrow> r = Some x"
  by (cases r) auto

text \<open>Running a fallible operation over a list from left to right, threading a state.\<close>

fun foldE :: "('a \<Rightarrow> 's \<Rightarrow> 's result) \<Rightarrow> 'a list \<Rightarrow> 's \<Rightarrow> 's result" where
  "foldE f [] s = Inr s"
| "foldE f (x # xs) s = bindE (f x s) (foldE f xs)"

lemma foldE_append: "foldE f (xs @ ys) s = bindE (foldE f xs s) (foldE f ys)"
proof (induction xs arbitrary: s)
  case (Cons x xs)
  then show ?case by (cases "f x s") auto
qed simp

lemma foldE_cong [fundef_cong]:
  assumes "xs = ys" "s = t" and "\<And>x u. x \<in> set ys \<Longrightarrow> f x u = g x u"
  shows "foldE f xs s = foldE g ys t"
proof -
  have "foldE f ys u = foldE g ys u" for u
    using assms(3)
  proof (induction ys arbitrary: u)
    case (Cons y ys)
    then have "f y u = g y u" by simp
    moreover have "foldE f ys v = foldE g ys v" for v
      using Cons by simp
    ultimately show ?case by (cases "g y u") auto
  qed simp
  then show ?thesis using assms(1,2) by simp
qed

text \<open>The invariant rule of such a loop.\<close>

lemma foldE_inv:
  assumes "foldE f xs s = Inr t" and "P s"
    and "\<And>x u v. x \<in> set xs \<Longrightarrow> P u \<Longrightarrow> f x u = Inr v \<Longrightarrow> P v"
  shows "P t"
  using assms
proof (induction xs arbitrary: s)
  case Nil
  then show ?case by simp
next
  case (Cons x xs)
  from Cons.prems(1) obtain u where u: "f x s = Inr u" and rest: "foldE f xs u = Inr t"
    by auto
  have "P u" using Cons.prems(2,3) u by (metis list.set_intros(1))
  with rest show ?case
    using Cons.IH Cons.prems(3) by (metis list.set_intros(2))
qed

text \<open>And the rule that it does not raise.\<close>

lemma foldE_total:
  assumes "P s" and "\<And>x u. x \<in> set xs \<Longrightarrow> P u \<Longrightarrow> \<exists>v. f x u = Inr v \<and> P v"
  shows "\<exists>t. foldE f xs s = Inr t \<and> P t"
  using assms
proof (induction xs arbitrary: s)
  case (Cons x xs)
  then obtain v where "f x s = Inr v" "P v" by fastforce
  then show ?case using Cons by fastforce
qed simp

text \<open>Collecting the results of a fallible operation over a list.\<close>

fun mapE :: "('a \<Rightarrow> 'b result) \<Rightarrow> 'a list \<Rightarrow> 'b list result" where
  "mapE f [] = Inr []"
| "mapE f (x # xs) = bindE (f x) (\<lambda>y. bindE (mapE f xs) (\<lambda>ys. Inr (y # ys)))"

lemma mapE_Inr_iff: "mapE f xs = Inr ys \<longleftrightarrow> list_all2 (\<lambda>x y. f x = Inr y) xs ys"
proof (induction xs arbitrary: ys)
  case (Cons x xs)
  then show ?case by (cases ys) (auto simp: bindE_Inr_iff)
qed auto

lemma mapE_length: "mapE f xs = Inr ys \<Longrightarrow> length ys = length xs"
  by (simp add: mapE_Inr_iff list_all2_lengthD)

lemma mapE_nth: "mapE f xs = Inr ys \<Longrightarrow> i < length xs \<Longrightarrow> f (xs ! i) = Inr (ys ! i)"
  by (auto simp: mapE_Inr_iff dest: list_all2_nthD)

lemma mapE_total: "(\<And>x. x \<in> set xs \<Longrightarrow> f x = Inr (g x)) \<Longrightarrow> mapE f xs = Inr (map g xs)"
  by (induction xs) auto

lemma mapE_cong [fundef_cong]:
  assumes "xs = ys" and "\<And>x. x \<in> set ys \<Longrightarrow> f x = g x"
  shows "mapE f xs = mapE g ys"
proof -
  have "mapE f ys = mapE g ys" using assms(2) by (induction ys) auto
  then show ?thesis using assms(1) by simp
qed

subsection \<open>C arrays\<close>

text \<open>Reading and writing \<^verbatim>\<open>a[i]\<close>; outside the array the access is \<open>BadAccess\<close>.\<close>

definition array_get :: "string \<Rightarrow> 'a list \<Rightarrow> nat \<Rightarrow> 'a result" where
  "array_get what xs i = (if i < length xs then Inr (xs ! i) else Inl (BadAccess what))"

definition array_set :: "string \<Rightarrow> 'a list \<Rightarrow> nat \<Rightarrow> 'a \<Rightarrow> 'a list result" where
  "array_set what xs i x = (if i < length xs then Inr (xs[i := x]) else Inl (BadAccess what))"

lemma array_get_Inr_iff [simp]: "array_get w xs i = Inr x \<longleftrightarrow> i < length xs \<and> x = xs ! i"
  by (auto simp: array_get_def)

lemma array_set_Inr_iff [simp]:
  "array_set w xs i x = Inr ys \<longleftrightarrow> i < length xs \<and> ys = xs[i := x]"
  by (auto simp: array_set_def)

subsection \<open>Lists\<close>

lemma butlast_last_id: "xs \<noteq> [] \<Longrightarrow> butlast xs @ [last xs] = xs"
  by simp

lemma sorted_wrt_rev_iff: "sorted_wrt P (rev xs) \<longleftrightarrow> sorted_wrt (\<lambda>x y. P y x) xs"
  by (induction xs) (auto simp: sorted_wrt_append)

lemma mset_sum_list_map_append:
  "sum_list (map f (xs @ ys)) = (sum_list (map f xs) + sum_list (map f ys) :: 'a multiset)"
  by simp

lemma length_concat_take:
  "i \<le> length xss \<Longrightarrow> (\<And>j. j < i \<Longrightarrow> length (xss ! j) = n) \<Longrightarrow> length (concat (take i xss)) = i * n"
  by (induction i) (auto simp: take_Suc_conv_app_nth)

lemma concat_slice:
  assumes "i < length xss" and "\<And>j. j < i \<Longrightarrow> length (xss ! j) = n"
  shows "take (length (xss ! i)) (drop (i * n) (concat xss)) = xss ! i"
proof -
  have "concat xss = concat (take i xss) @ xss ! i @ concat (drop (Suc i) xss)"
    using id_take_nth_drop [OF assms(1)] by (metis concat.simps(2) concat_append)
  moreover have "length (concat (take i xss)) = i * n"
    using assms by (intro length_concat_take) simp_all
  ultimately show ?thesis by simp
qed

end
