(* ===== verification/Pg_Base.thy ===== *)
theory Pg_Base
  imports Prelude
begin

unbundle bit_operations_syntax

section \<open>Block numbers, offset numbers and item pointers (src/include/storage)\<close>

text \<open>
  The addresses of tuples: \<^verbatim>\<open>block.h\<close>, \<^verbatim>\<open>off.h\<close>, \<^verbatim>\<open>itemptr.h\<close>, with the widths of the source.
  A block identifier is stored as two halves, so that the round trip through
  \<^verbatim>\<open>BlockIdSet\<close> and \<^verbatim>\<open>BlockIdGetBlockNumber\<close> is a statement about bits. Alignment is
  \<^verbatim>\<open>MAXALIGN\<close> for \<^verbatim>\<open>MAXIMUM_ALIGNOF\<close> 8 and the block size \<^verbatim>\<open>BLCKSZ\<close> is the default 8192.
\<close>

type_synonym BlockNumber = "32 word"
type_synonym OffsetNumber = "16 word"

definition InvalidBlockNumber :: BlockNumber where
  "InvalidBlockNumber = 0xFFFFFFFF"

definition BlockNumberIsValid :: "BlockNumber \<Rightarrow> bool" where
  "BlockNumberIsValid b \<longleftrightarrow> b \<noteq> InvalidBlockNumber"

definition BLCKSZ :: nat where
  "BLCKSZ = 8192"

definition MAXALIGN :: "nat \<Rightarrow> nat" where
  "MAXALIGN len = (len + 7) div 8 * 8"

definition InvalidOffsetNumber :: OffsetNumber where
  "InvalidOffsetNumber = 0"

definition FirstOffsetNumber :: OffsetNumber where
  "FirstOffsetNumber = 1"

definition MaxOffsetNumber :: OffsetNumber where
  "MaxOffsetNumber = word_of_nat (BLCKSZ div 4)"

definition OffsetNumberIsValid :: "OffsetNumber \<Rightarrow> bool" where
  "OffsetNumberIsValid off \<longleftrightarrow> off \<noteq> InvalidOffsetNumber \<and> off \<le> MaxOffsetNumber"

definition OffsetNumberNext :: "OffsetNumber \<Rightarrow> OffsetNumber" where
  "OffsetNumberNext off = 1 + off"

datatype BlockIdData = BlockIdData (bi_hi: "16 word") (bi_lo: "16 word")

definition BlockIdSet :: "BlockNumber \<Rightarrow> BlockIdData" where
  "BlockIdSet b = BlockIdData (ucast (drop_bit 16 b)) (ucast (b AND 0xffff))"

definition BlockIdGetBlockNumber :: "BlockIdData \<Rightarrow> BlockNumber" where
  "BlockIdGetBlockNumber i = push_bit 16 (ucast (bi_hi i)) OR ucast (bi_lo i)"

datatype ItemPointerData = ItemPointerData (ip_blkid: BlockIdData) (ip_posid: OffsetNumber)

definition ItemPointerIsValid :: "ItemPointerData \<Rightarrow> bool" where
  "ItemPointerIsValid ip \<longleftrightarrow> ip_posid ip \<noteq> 0"

definition ItemPointerGetBlockNumberNoCheck :: "ItemPointerData \<Rightarrow> BlockNumber" where
  "ItemPointerGetBlockNumberNoCheck ip = BlockIdGetBlockNumber (ip_blkid ip)"

definition ItemPointerGetOffsetNumberNoCheck :: "ItemPointerData \<Rightarrow> OffsetNumber" where
  "ItemPointerGetOffsetNumberNoCheck ip = ip_posid ip"

text \<open>
  \<^verbatim>\<open>ItemPointerGetBlockNumber\<close> and \<^verbatim>\<open>ItemPointerGetOffsetNumber\<close> add only an \<^verbatim>\<open>Assert\<close>,
  which a production build compiles away.
\<close>

definition ItemPointerGetBlockNumber :: "ItemPointerData \<Rightarrow> BlockNumber" where
  "ItemPointerGetBlockNumber ip = ItemPointerGetBlockNumberNoCheck ip"

definition ItemPointerGetOffsetNumber :: "ItemPointerData \<Rightarrow> OffsetNumber" where
  "ItemPointerGetOffsetNumber ip = ItemPointerGetOffsetNumberNoCheck ip"

definition ItemPointerSet :: "BlockNumber \<Rightarrow> OffsetNumber \<Rightarrow> ItemPointerData" where
  "ItemPointerSet b off = ItemPointerData (BlockIdSet b) off"

definition ItemPointerSetInvalid :: ItemPointerData where
  "ItemPointerSetInvalid = ItemPointerData (BlockIdSet InvalidBlockNumber) InvalidOffsetNumber"

definition ItemPointerEquals :: "ItemPointerData \<Rightarrow> ItemPointerData \<Rightarrow> bool" where
  "ItemPointerEquals p q \<longleftrightarrow>
     ItemPointerGetBlockNumber p = ItemPointerGetBlockNumber q \<and>
     ItemPointerGetOffsetNumber p = ItemPointerGetOffsetNumber q"

subsection \<open>Facts\<close>

lemma low_half_mask: "(0xffff :: 32 word) = mask 16"
  by (simp add: mask_eq_exp_minus_1)

lemma BlockIdGetBlockNumber_Set [simp]: "BlockIdGetBlockNumber (BlockIdSet b) = b"
  unfolding BlockIdGetBlockNumber_def BlockIdSet_def low_half_mask
  by (rule bit_word_eqI) (auto simp: bit_simps)

lemma BlockIdSet_GetBlockNumber [simp]: "BlockIdSet (BlockIdGetBlockNumber i) = i"
proof (cases i)
  case (BlockIdData hi lo)
  have "ucast (drop_bit 16 (push_bit 16 (ucast hi) OR ucast lo :: 32 word)) = hi"
    by (rule bit_word_eqI) (auto simp: bit_simps dest: bit_imp_le_length)
  moreover have "ucast ((push_bit 16 (ucast hi) OR ucast lo :: 32 word) AND 0xffff) = lo"
    unfolding low_half_mask by (rule bit_word_eqI) (auto simp: bit_simps dest: bit_imp_le_length)
  ultimately show ?thesis
    by (simp add: BlockIdData BlockIdSet_def BlockIdGetBlockNumber_def)
qed

lemma ItemPointerSet_fields [simp]:
  "ItemPointerGetBlockNumber (ItemPointerSet b off) = b"
  "ItemPointerGetOffsetNumber (ItemPointerSet b off) = off"
  "ItemPointerIsValid (ItemPointerSet b off) \<longleftrightarrow> off \<noteq> 0"
  by (simp_all add: ItemPointerSet_def ItemPointerGetBlockNumber_def
      ItemPointerGetOffsetNumber_def ItemPointerGetBlockNumberNoCheck_def
      ItemPointerGetOffsetNumberNoCheck_def ItemPointerIsValid_def)

lemma ItemPointerSet_Get [simp]:
  "ItemPointerSet (ItemPointerGetBlockNumber ip) (ItemPointerGetOffsetNumber ip) = ip"
  by (cases ip) (simp add: ItemPointerSet_def ItemPointerGetBlockNumber_def
      ItemPointerGetOffsetNumber_def ItemPointerGetBlockNumberNoCheck_def
      ItemPointerGetOffsetNumberNoCheck_def)

lemma ItemPointerSet_inject [simp]:
  "ItemPointerSet b off = ItemPointerSet b' off' \<longleftrightarrow> b = b' \<and> off = off'"
  using ItemPointerSet_fields by metis

lemma ItemPointerEquals_iff [simp]: "ItemPointerEquals p q \<longleftrightarrow> p = q"
  unfolding ItemPointerEquals_def using ItemPointerSet_Get by metis

lemma ItemPointerIsValid_Set [simp]: "ItemPointerIsValid (ItemPointerSet b off) \<longleftrightarrow> off \<noteq> 0"
  by (simp add: ItemPointerIsValid_def ItemPointerSet_def)

lemma ItemPointerSetInvalid_invalid [simp]: "\<not> ItemPointerIsValid ItemPointerSetInvalid"
  by (simp add: ItemPointerSetInvalid_def ItemPointerIsValid_def InvalidOffsetNumber_def)

text \<open>There are finitely many item pointers: a search that never visits one twice ends.\<close>

instantiation BlockIdData :: finite
begin

instance
proof
  have "(UNIV :: BlockIdData set) = (\<lambda>(h, l). BlockIdData h l) ` UNIV"
    by (auto simp: image_iff split: prod.splits) (metis BlockIdData.exhaust)
  then show "finite (UNIV :: BlockIdData set)"
    by (metis finite finite_imageI)
qed

end

instantiation ItemPointerData :: finite
begin

instance
proof
  have "(UNIV :: ItemPointerData set) = (\<lambda>(i, p). ItemPointerData i p) ` UNIV"
    by (auto simp: image_iff split: prod.splits) (metis ItemPointerData.exhaust)
  then show "finite (UNIV :: ItemPointerData set)"
    by (metis finite finite_imageI)
qed

end

lemma MAXALIGN_ge: "n \<le> MAXALIGN n"
  unfolding MAXALIGN_def by presburger

lemma MAXALIGN_lt: "MAXALIGN n < n + 8"
  unfolding MAXALIGN_def by presburger

lemma MAXALIGN_dvd [simp]: "8 dvd MAXALIGN n"
  by (simp add: MAXALIGN_def)

lemma MAXALIGN_dvd_int [simp]: "(8::int) dvd int (MAXALIGN n)"
  by (simp add: MAXALIGN_def)

lemma MAXALIGN_eq_iff: "MAXALIGN n = n \<longleftrightarrow> 8 dvd n"
  unfolding MAXALIGN_def by presburger

lemma MAXALIGN_MAXALIGN [simp]: "MAXALIGN (MAXALIGN n) = MAXALIGN n"
  by (simp add: MAXALIGN_eq_iff)

lemma MAXALIGN_pos_iff [simp]: "0 < MAXALIGN n \<longleftrightarrow> 0 < n"
  unfolding MAXALIGN_def by presburger

lemma MAXALIGN_mono: "m \<le> n \<Longrightarrow> MAXALIGN m \<le> MAXALIGN n"
  unfolding MAXALIGN_def by (intro mult_le_mono1 div_le_mono) simp

end
