(* ===== verification/Page.thy ===== *)
theory Page
  imports Pg_Base
begin

section \<open>Slotted pages (src/backend/storage/page/bufpage.c)\<close>

text \<open>
  A page is its header (\<^verbatim>\<open>pd_lower\<close>, \<^verbatim>\<open>pd_upper\<close>, \<^verbatim>\<open>pd_special\<close>, the free-line-pointer hint),
  its line pointers, the tuples stored at byte offsets, and the special space. Tuples are kept
  as typed values at the offset where their first byte lies; \<^verbatim>\<open>memmove\<close> of a tuple area moves the
  values with it. Locations are natural numbers (\<^verbatim>\<open>LocationIndex\<close> is 16 bits wide and the page
  invariant keeps every location below \<^verbatim>\<open>BLCKSZ\<close>); the signed arithmetic of the source is written
  with \<open>int\<close>.
\<close>

record ItemIdData =
  lp_off :: nat
  lp_flags :: nat
  lp_len :: nat

record ('i, 'o) page =
  pd_has_free_lines :: bool
  pd_lower :: nat
  pd_upper :: nat
  pd_special :: nat
  pd_linp :: "ItemIdData list"
  pd_data :: "nat \<rightharpoonup> 'i"
  pd_opaque :: 'o

abbreviation (input) "LP_UNUSED \<equiv> (0::nat)"
abbreviation (input) "LP_NORMAL \<equiv> (1::nat)"

definition SizeOfPageHeaderData :: nat where
  "SizeOfPageHeaderData = 24"

definition sizeof_ItemIdData :: nat where
  "sizeof_ItemIdData = 4"

text \<open>\<^verbatim>\<open>(BLCKSZ - 24) / (MAXALIGN(23) + 4)\<close>\<close>

definition MaxHeapTuplesPerPage :: nat where
  "MaxHeapTuplesPerPage = (BLCKSZ - SizeOfPageHeaderData) div (MAXALIGN 23 + sizeof_ItemIdData)"

definition ItemIdIsUsed :: "ItemIdData \<Rightarrow> bool" where
  "ItemIdIsUsed lp \<longleftrightarrow> lp_flags lp \<noteq> LP_UNUSED"

definition ItemIdHasStorage :: "ItemIdData \<Rightarrow> bool" where
  "ItemIdHasStorage lp \<longleftrightarrow> lp_len lp \<noteq> 0"

definition PageInit :: "nat \<Rightarrow> nat \<Rightarrow> 'o \<Rightarrow> ('i, 'o) page" where
  "PageInit pageSize specialSize opaque =
     \<lparr>pd_has_free_lines = False,
      pd_lower = SizeOfPageHeaderData,
      pd_upper = pageSize - MAXALIGN specialSize,
      pd_special = pageSize - MAXALIGN specialSize,
      pd_linp = [],
      pd_data = Map.empty,
      pd_opaque = opaque\<rparr>"

definition PageGetMaxOffsetNumber :: "('i, 'o) page \<Rightarrow> OffsetNumber" where
  "PageGetMaxOffsetNumber p =
     (if pd_lower p \<le> SizeOfPageHeaderData then 0
      else word_of_nat ((pd_lower p - SizeOfPageHeaderData) div sizeof_ItemIdData))"

definition PageGetItemId :: "('i, 'o) page \<Rightarrow> OffsetNumber \<Rightarrow> ItemIdData result" where
  "PageGetItemId p off =
     (if off = 0 then Inl (BadAccess ''PageGetItemId'')
      else array_get ''PageGetItemId'' (pd_linp p) (unat off - 1))"

definition PageGetItem :: "('i, 'o) page \<Rightarrow> ItemIdData \<Rightarrow> 'i result" where
  "PageGetItem p lp = ofOption (BadAccess ''PageGetItem'') (pd_data p (lp_off lp))"

text \<open>The tuple at an offset number, and writing through the pointer to it.\<close>

definition PageGetTuple :: "('i, 'o) page \<Rightarrow> OffsetNumber \<Rightarrow> 'i result" where
  "PageGetTuple p off = bindE (PageGetItemId p off) (PageGetItem p)"

definition PageSetTuple :: "('i, 'o) page \<Rightarrow> OffsetNumber \<Rightarrow> 'i \<Rightarrow> ('i, 'o) page result" where
  "PageSetTuple p off x =
     bindE (PageGetItemId p off) (\<lambda>lp. Inr (p\<lparr>pd_data := (pd_data p)(lp_off lp \<mapsto> x)\<rparr>))"

definition PageGetFreeSpace :: "('i, 'o) page \<Rightarrow> nat" where
  "PageGetFreeSpace p =
     (let space = int (pd_upper p) - int (pd_lower p)
      in if space < int sizeof_ItemIdData then 0 else nat (space - int sizeof_ItemIdData))"

definition PageGetExactFreeSpace :: "('i, 'o) page \<Rightarrow> nat" where
  "PageGetExactFreeSpace p =
     (let space = int (pd_upper p) - int (pd_lower p)
      in if space < 0 then 0 else nat space)"

text \<open>
  The search for an unused line pointer below \<open>limit\<close>, the first free slot, starting at
  \<open>off\<close>; \<open>limit\<close> when there is none.
\<close>

fun first_unused :: "ItemIdData list \<Rightarrow> nat \<Rightarrow> nat" where
  "first_unused [] off = off"
| "first_unused (lp # lps) off =
     (if \<not> ItemIdIsUsed lp \<and> \<not> ItemIdHasStorage lp then off else first_unused lps (Suc off))"

definition page_pointers_ok :: "('i, 'o) page \<Rightarrow> bool" where
  "page_pointers_ok p \<longleftrightarrow>
     SizeOfPageHeaderData \<le> pd_lower p \<and> pd_lower p \<le> pd_upper p \<and>
     pd_upper p \<le> pd_special p \<and> pd_special p \<le> BLCKSZ"

definition corrupted_page :: pg_error where
  "corrupted_page = Elog ''corrupted page pointers''"

text \<open>
  \<^verbatim>\<open>PageAddItemExtended\<close>: \<open>overwrite\<close> and \<open>is_heap\<close> are the two flag bits. The result is
  \<^verbatim>\<open>InvalidOffsetNumber\<close> with the page (up to the hint bit) unchanged when the item is refused. The new
  \<^verbatim>\<open>upper\<close> is computed in 32-bit \<^verbatim>\<open>int\<close>, to which the size is cut, so that a size of \<open>2 ^ 31\<close> or more may
  pass the check; copying the item then leaves the page.
\<close>

definition place_item ::
  "('i, 'o) page \<Rightarrow> 'i \<Rightarrow> nat \<Rightarrow> nat \<Rightarrow> nat \<Rightarrow> bool \<Rightarrow> (OffsetNumber \<times> ('i, 'o) page) result" where
  "place_item p item sz off limit needshuffle =
     (let lower = (if off = limit \<or> needshuffle then pd_lower p + sizeof_ItemIdData else pd_lower p);
          upper = sint (word_of_nat (pd_upper p) - word_of_nat (MAXALIGN sz) :: 32 word);
          lp = \<lparr>lp_off = nat upper, lp_flags = LP_NORMAL, lp_len = sz\<rparr>;
          linp = (if off = limit then pd_linp p @ [lp]
                  else if needshuffle then take (off - 1) (pd_linp p) @ lp # drop (off - 1) (pd_linp p)
                  else (pd_linp p)[off - 1 := lp])
      in if int lower > upper then Inr (InvalidOffsetNumber, p)
         else if nat upper + sz > BLCKSZ then Inl (BadAccess ''page'')
         else Inr (word_of_nat off,
               p\<lparr>pd_linp := linp,
                 pd_data := (pd_data p)(nat upper \<mapsto> item),
                 pd_lower := lower,
                 pd_upper := nat upper\<rparr>))"

definition PageAddItemExtended ::
  "('i, 'o) page \<Rightarrow> 'i \<Rightarrow> nat \<Rightarrow> OffsetNumber \<Rightarrow> bool \<Rightarrow> bool
    \<Rightarrow> (OffsetNumber \<times> ('i, 'o) page) result" where
  "PageAddItemExtended p item sz offsetNumber overwrite is_heap =
     (if \<not> page_pointers_ok p then Inl corrupted_page
      else
        let limit = unat (OffsetNumberNext (PageGetMaxOffsetNumber p)) in
        if OffsetNumberIsValid offsetNumber
        then
          let off = unat offsetNumber;
              inuse = (case PageGetItemId p offsetNumber of
                         Inl _ \<Rightarrow> False | Inr lp \<Rightarrow> ItemIdIsUsed lp \<or> ItemIdHasStorage lp)
          in if overwrite \<and> off < limit \<and> inuse then Inr (InvalidOffsetNumber, p)
             else if off > limit then Inr (InvalidOffsetNumber, p)
             else if is_heap \<and> off > MaxHeapTuplesPerPage then Inr (InvalidOffsetNumber, p)
             else place_item p item sz off limit (\<not> overwrite \<and> off < limit)
        else
          let off = (if pd_has_free_lines p then first_unused (pd_linp p) 1 else limit);
              p' = (if pd_has_free_lines p \<and> off \<ge> limit then p\<lparr>pd_has_free_lines := False\<rparr> else p)
          in if is_heap \<and> off > MaxHeapTuplesPerPage then Inr (InvalidOffsetNumber, p')
             else place_item p' item sz off limit False)"

definition PageAddItem ::
  "('i, 'o) page \<Rightarrow> 'i \<Rightarrow> nat \<Rightarrow> OffsetNumber \<Rightarrow> bool \<Rightarrow> bool
    \<Rightarrow> (OffsetNumber \<times> ('i, 'o) page) result" where
  "PageAddItem p item sz offsetNumber overwrite is_heap =
     PageAddItemExtended p item sz offsetNumber overwrite is_heap"

text \<open>
  \<^verbatim>\<open>PageIndexTupleOverwrite\<close>. The tuples stored before the target (at lower addresses) move by
  \<open>size_diff\<close>, the amount by which the target shrinks; what their old places held is not kept
  unless it lies above the target.
\<close>

definition move_data :: "(nat \<rightharpoonup> 'i) \<Rightarrow> nat \<Rightarrow> nat \<Rightarrow> int \<Rightarrow> (nat \<rightharpoonup> 'i)" where
  "move_data m upper offset size_diff =
     (\<lambda>k. if int upper + size_diff \<le> int k \<and> int k < int offset + size_diff
          then m (nat (int k - size_diff))
          else if k \<le> offset then None
          else m k)"

definition move_linp :: "nat \<Rightarrow> int \<Rightarrow> ItemIdData \<Rightarrow> ItemIdData" where
  "move_linp offset size_diff lp =
     (if ItemIdHasStorage lp \<and> lp_off lp \<le> offset
      then lp\<lparr>lp_off := nat (int (lp_off lp) + size_diff)\<rparr> else lp)"

definition PageIndexTupleOverwrite ::
  "('i, 'o) page \<Rightarrow> OffsetNumber \<Rightarrow> 'i \<Rightarrow> nat \<Rightarrow> (bool \<times> ('i, 'o) page) result" where
  "PageIndexTupleOverwrite p offnum newtup newsize =
     (if \<not> page_pointers_ok p \<or> pd_special p \<noteq> MAXALIGN (pd_special p) then Inl corrupted_page
      else if offnum = 0 \<or> offnum > PageGetMaxOffsetNumber p then Inl (Elog ''invalid index offnum'')
      else bindE (PageGetItemId p offnum) (\<lambda>tupid.
        let offset = lp_off tupid in
        if offset < pd_upper p \<or> offset + lp_len tupid > pd_special p \<or> offset \<noteq> MAXALIGN offset
        then Inl (Elog ''corrupted line pointer'')
        else
          let oldsize = MAXALIGN (lp_len tupid);
              alignednewsize = MAXALIGN newsize;
              size_diff = int oldsize - int alignednewsize;
              data = (if size_diff = 0 then pd_data p
                      else move_data (pd_data p) (pd_upper p) offset size_diff);
              linp = (if size_diff = 0 then pd_linp p
                      else map (move_linp offset size_diff) (pd_linp p));
              newoff = nat (int offset + size_diff)
          in if alignednewsize > oldsize + (pd_upper p - pd_lower p) then Inr (False, p)
             else Inr (True,
                p\<lparr>pd_upper := nat (int (pd_upper p) + size_diff),
                  pd_linp := linp[unat offnum - 1 := tupid\<lparr>lp_off := newoff, lp_len := newsize\<rparr>],
                  pd_data := data(newoff \<mapsto> newtup)\<rparr>)))"

subsection \<open>The page invariant\<close>

text \<open>
  Line pointers are in use and point to disjoint, aligned tuples between \<^verbatim>\<open>pd_upper\<close> and
  \<^verbatim>\<open>pd_special\<close>, and the tuples fill that area. \<open>page_tuples\<close> is what the page means to an
  access method: the tuples with their lengths, by offset number.
\<close>

definition lp_disjoint :: "ItemIdData \<Rightarrow> ItemIdData \<Rightarrow> bool" where
  "lp_disjoint a b \<longleftrightarrow>
     lp_off a + MAXALIGN (lp_len a) \<le> lp_off b \<or> lp_off b + MAXALIGN (lp_len b) \<le> lp_off a"

definition lp_ok :: "('i, 'o) page \<Rightarrow> ItemIdData \<Rightarrow> bool" where
  "lp_ok p lp \<longleftrightarrow>
     lp_flags lp = LP_NORMAL \<and> 0 < lp_len lp \<and> 8 dvd lp_off lp \<and> pd_upper p \<le> lp_off lp \<and>
     lp_off lp + MAXALIGN (lp_len lp) \<le> pd_special p \<and> pd_data p (lp_off lp) \<noteq> None"

definition page_inv :: "('i, 'o) page \<Rightarrow> bool" where
  "page_inv p \<longleftrightarrow>
     page_pointers_ok p \<and> 8 dvd pd_special p \<and> \<not> pd_has_free_lines p \<and>
     pd_lower p = SizeOfPageHeaderData + sizeof_ItemIdData * length (pd_linp p) \<and>
     pd_upper p + sum_list (map (\<lambda>lp. MAXALIGN (lp_len lp)) (pd_linp p)) = pd_special p \<and>
     (\<forall>lp \<in> set (pd_linp p). lp_ok p lp) \<and>
     (\<forall>i < length (pd_linp p). \<forall>j < length (pd_linp p).
        i \<noteq> j \<longrightarrow> lp_disjoint (pd_linp p ! i) (pd_linp p ! j))"

definition page_tuples :: "('i, 'o) page \<Rightarrow> ('i \<times> nat) list" where
  "page_tuples p = map (\<lambda>lp. (the (pd_data p (lp_off lp)), lp_len lp)) (pd_linp p)"

lemma length_page_tuples [simp]: "length (page_tuples p) = length (pd_linp p)"
  by (simp add: page_tuples_def)

lemma page_inv_PageInit:
  assumes "MAXALIGN sp + SizeOfPageHeaderData \<le> BLCKSZ"
  shows "page_inv (PageInit BLCKSZ sp opq)" "page_tuples (PageInit BLCKSZ sp opq) = []"
proof -
  have "8 dvd BLCKSZ - MAXALIGN sp" by (simp add: BLCKSZ_def)
  then show "page_inv (PageInit BLCKSZ sp opq)"
    using assms
    by (auto simp: page_inv_def PageInit_def page_pointers_ok_def)
qed (simp add: page_tuples_def PageInit_def)

lemma page_inv_linp_bound:
  assumes "page_inv p"
  shows "4 * length (pd_linp p) + 24 \<le> BLCKSZ"
  using assms by (auto simp: page_inv_def page_pointers_ok_def SizeOfPageHeaderData_def sizeof_ItemIdData_def)

lemma PageGetMaxOffsetNumber_inv:
  assumes "page_inv p"
  shows "unat (PageGetMaxOffsetNumber p) = length (pd_linp p)"
proof -
  have "length (pd_linp p) < 2 ^ 16"
    using page_inv_linp_bound [OF assms] by (simp add: BLCKSZ_def)
  moreover have "pd_lower p = 24 + 4 * length (pd_linp p)"
    using assms by (simp add: page_inv_def SizeOfPageHeaderData_def sizeof_ItemIdData_def)
  ultimately show ?thesis
    by (simp add: PageGetMaxOffsetNumber_def SizeOfPageHeaderData_def sizeof_ItemIdData_def
        unsigned_of_nat take_bit_nat_eq_self)
qed

lemma PageGetTuple_inv:
  assumes "page_inv p" "off \<noteq> 0" "unat off \<le> length (pd_linp p)"
  shows "PageGetTuple p off = Inr (fst (page_tuples p ! (unat off - 1)))"
proof -
  from assms(2) have "0 < unat off" by (simp add: unat_gt_0)
  with assms(3) have i: "unat off - 1 < length (pd_linp p)" by linarith
  then have "lp_ok p (pd_linp p ! (unat off - 1))"
    using assms(1) by (simp add: page_inv_def)
  then show ?thesis
    using assms(2) i
    by (auto simp: PageGetTuple_def PageGetItemId_def PageGetItem_def array_get_def
        page_tuples_def lp_ok_def)
qed

lemma PageGetTuple_Inr_iff:
  assumes "page_inv p"
  shows "PageGetTuple p off = Inr x \<longleftrightarrow>
    off \<noteq> 0 \<and> unat off \<le> length (pd_linp p) \<and> x = fst (page_tuples p ! (unat off - 1))"
proof (cases "off \<noteq> 0 \<and> unat off \<le> length (pd_linp p)")
  case True
  then show ?thesis using PageGetTuple_inv [OF assms] by auto
next
  case False
  then have "off = 0 \<or> length (pd_linp p) \<le> unat off - 1" by auto
  then show ?thesis
    using False by (auto simp: PageGetTuple_def PageGetItemId_def array_get_def)
qed

lemma page_inv_order: "page_inv p \<Longrightarrow> pd_lower p \<le> pd_upper p \<and> pd_upper p \<le> pd_special p"
  by (simp add: page_inv_def page_pointers_ok_def)

lemma PageGetFreeSpace_inv:
  "page_inv p \<Longrightarrow> PageGetFreeSpace p = pd_upper p - pd_lower p - 4"
  using page_inv_order [of p] by (simp add: PageGetFreeSpace_def sizeof_ItemIdData_def Let_def) linarith

lemma PageGetExactFreeSpace_inv:
  "page_inv p \<Longrightarrow> PageGetExactFreeSpace p = pd_upper p - pd_lower p"
  using page_inv_order [of p] by (simp add: PageGetExactFreeSpace_def Let_def)

text \<open>The free space is what the tuples and their line pointers leave of the page.\<close>

lemma page_inv_space:
  assumes "page_inv p"
  shows "pd_upper p - pd_lower p + sum_list (map (\<lambda>t. MAXALIGN (snd t) + 4) (page_tuples p)) + 24
    = pd_special p"
proof -
  have "sum_list (map (\<lambda>t. MAXALIGN (snd t) + 4) (page_tuples p)) =
      sum_list (map (\<lambda>lp. MAXALIGN (lp_len lp)) (pd_linp p)) + 4 * length (pd_linp p)"
    by (simp add: page_tuples_def comp_def sum_list_addf sum_list_triv)
  then show ?thesis
    using assms
    by (auto simp: page_inv_def page_pointers_ok_def SizeOfPageHeaderData_def sizeof_ItemIdData_def)
qed

subsection \<open>Adding a tuple\<close>

lemma page_tuples_data_cong:
  assumes "\<And>lp. lp \<in> set (pd_linp p) \<Longrightarrow> pd_data q (lp_off lp) = pd_data p (lp_off lp)"
    and "pd_linp q = pd_linp p"
  shows "page_tuples q = page_tuples p"
  using assms by (auto simp: page_tuples_def)

text \<open>The page after \<^verbatim>\<open>PageAddItem\<close> accepted a tuple.\<close>

definition added_page :: "('i, 'o) page \<Rightarrow> 'i \<Rightarrow> nat \<Rightarrow> ('i, 'o) page" where
  "added_page p x sz =
     p\<lparr>pd_linp := pd_linp p @ [\<lparr>lp_off = pd_upper p - MAXALIGN sz, lp_flags = LP_NORMAL, lp_len = sz\<rparr>],
       pd_data := (pd_data p)(pd_upper p - MAXALIGN sz \<mapsto> x),
       pd_lower := pd_lower p + 4,
       pd_upper := pd_upper p - MAXALIGN sz\<rparr>"

lemma page_inv_upper_aligned:
  assumes "page_inv p"
  shows "8 dvd pd_upper p"
proof -
  have "8 dvd sum_list (map (\<lambda>lp. MAXALIGN (lp_len lp)) lps)" for lps
    by (induction lps) simp_all
  moreover have "pd_special p = pd_upper p + sum_list (map (\<lambda>lp. MAXALIGN (lp_len lp)) (pd_linp p))"
    and "8 dvd pd_special p"
    using assms by (simp_all add: page_inv_def)
  ultimately show ?thesis by (metis dvd_add_left_iff)
qed

lemma added_page_inv:
  assumes inv: "page_inv p" and sz: "0 < sz" and fit: "MAXALIGN sz + 4 \<le> pd_upper p - pd_lower p"
  shows "page_inv (added_page p x sz)"
    and "page_tuples (added_page p x sz) = page_tuples p @ [(x, sz)]"
proof -
  let ?u = "pd_upper p - MAXALIGN sz"
  let ?lp = "\<lparr>lp_off = ?u, lp_flags = LP_NORMAL, lp_len = sz\<rparr>"
  let ?q = "added_page p x sz"
  have ord: "pd_lower p \<le> pd_upper p" "pd_upper p \<le> pd_special p" "pd_special p \<le> BLCKSZ"
    "SizeOfPageHeaderData \<le> pd_lower p"
    using inv by (simp_all add: page_inv_def page_pointers_ok_def)
  have ok: "lp_ok p lp" if "lp \<in> set (pd_linp p)" for lp
    using inv that by (simp add: page_inv_def)
  have pos: "0 < MAXALIGN sz" using sz by simp
  have "?u < pd_upper p" using pos fit by linarith
  then have disj: "lp_off lp \<noteq> ?u" "pd_upper p \<le> lp_off lp" if "lp \<in> set (pd_linp p)" for lp
    using ok [OF that] by (auto simp: lp_ok_def)
  have al: "8 dvd ?u" using page_inv_upper_aligned [OF inv] by (simp add: dvd_diff_nat)
  have ok_old: "lp_ok ?q lp" if "lp \<in> set (pd_linp p)" for lp
    using ok [OF that] disj [OF that] by (auto simp: lp_ok_def added_page_def)
  moreover have ok_new: "lp_ok ?q ?lp"
    using sz al ord fit by (simp add: lp_ok_def added_page_def)
  moreover have "lp_disjoint (pd_linp ?q ! i) (pd_linp ?q ! j)"
    if ij: "i < length (pd_linp ?q)" "j < length (pd_linp ?q)" "i \<noteq> j" for i j
  proof -
    have new: "lp_disjoint ?lp (pd_linp p ! k) \<and> lp_disjoint (pd_linp p ! k) ?lp"
      if "k < length (pd_linp p)" for k
      using disj(2) [OF nth_mem [OF that]] fit by (simp add: lp_disjoint_def)
    consider "i < length (pd_linp p)" "j < length (pd_linp p)"
      | "i = length (pd_linp p)" "j < length (pd_linp p)"
      | "j = length (pd_linp p)" "i < length (pd_linp p)"
      using ij by (fastforce simp: added_page_def)
    then show ?thesis
    proof cases
      case 1
      then show ?thesis using inv ij by (simp add: page_inv_def added_page_def nth_append)
    qed (use new in \<open>simp_all add: added_page_def nth_append\<close>)
  qed
  ultimately show "page_inv ?q"
    using inv ord fit
    by (auto simp: page_inv_def page_pointers_ok_def added_page_def sizeof_ItemIdData_def)
  show "page_tuples ?q = page_tuples p @ [(x, sz)]"
    using disj(1) by (auto simp: page_tuples_def added_page_def)
qed

lemma int_upper:
  assumes "u \<le> BLCKSZ" "n < 2 ^ 31"
  shows "sint (word_of_nat u - word_of_nat n :: 32 word) = int u - int n"
proof -
  have "word_of_nat u - word_of_nat n = (word_of_int (int u - int n) :: 32 word)" by simp
  then show ?thesis using assms by (simp only: sint_sbintrunc') (simp add: signed_take_bit_int_eq_self BLCKSZ_def)
qed

lemma PageAddItem_inv:
  assumes "page_inv p" "MAXALIGN sz < 2 ^ 31"
  shows "PageAddItem p x sz InvalidOffsetNumber False False =
    (if MAXALIGN sz + 4 \<le> pd_upper p - pd_lower p
     then Inr (word_of_nat (Suc (length (pd_linp p))), added_page p x sz)
     else Inr (InvalidOffsetNumber, p))"
proof -
  have len: "length (pd_linp p) < 2047"
    using page_inv_linp_bound [OF assms(1)] by (simp add: BLCKSZ_def)
  have lim: "unat (OffsetNumberNext (PageGetMaxOffsetNumber p)) = Suc (length (pd_linp p))"
    using PageGetMaxOffsetNumber_inv [OF assms(1)] len
    by (simp add: OffsetNumberNext_def unat_word_ariths)
  have ord: "pd_lower p \<le> pd_upper p" "page_pointers_ok p" "\<not> pd_has_free_lines p" "pd_upper p \<le> BLCKSZ"
    using assms(1) by (simp_all add: page_inv_def page_pointers_ok_def)
  note defs = PageAddItem_def PageAddItemExtended_def place_item_def lim Let_def int_upper [OF ord(4) assms(2)]
    OffsetNumberIsValid_def sizeof_ItemIdData_def
  show ?thesis
  proof (cases "MAXALIGN sz + 4 \<le> pd_upper p - pd_lower p")
    case True
    then have "pd_upper p - MAXALIGN sz + sz \<le> BLCKSZ" using ord(1,4) MAXALIGN_ge [of sz] by linarith
    with True ord(1-3) show ?thesis by (auto simp: defs added_page_def nat_diff_distrib)
  next
    case False
    then have "int (pd_upper p) - int (MAXALIGN sz) < int (pd_lower p) + 4" using ord(1) by linarith
    with False ord(1-3) show ?thesis by (auto simp: defs)
  qed
qed

subsection \<open>Overwriting a tuple\<close>

text \<open>The page after \<^verbatim>\<open>PageIndexTupleOverwrite\<close> replaced the tuple of line pointer \<open>i\<close>.\<close>

definition overwritten_page :: "('i, 'o) page \<Rightarrow> nat \<Rightarrow> 'i \<Rightarrow> nat \<Rightarrow> ('i, 'o) page" where
  "overwritten_page p i x sz =
     (let lp = pd_linp p ! i;
          sd = int (MAXALIGN (lp_len lp)) - int (MAXALIGN sz);
          newoff = nat (int (lp_off lp) + sd)
      in p\<lparr>pd_upper := nat (int (pd_upper p) + sd),
           pd_linp := (map (move_linp (lp_off lp) sd) (pd_linp p))
             [i := lp\<lparr>lp_off := newoff, lp_len := sz\<rparr>],
           pd_data := (if sd = 0 then pd_data p
                       else move_data (pd_data p) (pd_upper p) (lp_off lp) sd)(newoff \<mapsto> x)\<rparr>)"

lemma move_linp_0 [simp]: "move_linp off 0 = id"
  by (rule ext) (simp add: move_linp_def)

lemma PageIndexTupleOverwrite_inv:
  assumes inv: "page_inv p" and off: "off \<noteq> 0" "unat off \<le> length (pd_linp p)"
  shows "PageIndexTupleOverwrite p off x sz =
    (if MAXALIGN sz \<le> MAXALIGN (snd (page_tuples p ! (unat off - 1))) + PageGetExactFreeSpace p
     then Inr (True, overwritten_page p (unat off - 1) x sz)
     else Inr (False, p))"
proof -
  have i: "unat off - 1 < length (pd_linp p)"
    using off unat_gt_0 [of off] by linarith
  have "\<not> PageGetMaxOffsetNumber p < off"
    using off(2) PageGetMaxOffsetNumber_inv [OF inv] by (simp add: word_less_nat_alt)
  moreover have "lp_ok p (pd_linp p ! (unat off - 1))"
    using inv i by (simp add: page_inv_def)
  moreover have "page_pointers_ok p" "pd_special p = MAXALIGN (pd_special p)"
    using inv by (simp_all add: page_inv_def MAXALIGN_eq_iff [THEN iffD2])
  ultimately show ?thesis
    using i off(1) MAXALIGN_ge [of "lp_len (pd_linp p ! (unat off - 1))"]
    by (auto simp: PageIndexTupleOverwrite_def PageGetItemId_def array_get_def lp_ok_def Let_def
        overwritten_page_def page_tuples_def PageGetExactFreeSpace_inv [OF inv]
        MAXALIGN_eq_iff [THEN iffD2])
qed

text \<open>
  Where another tuple lies relative to the replaced one, and where it is afterwards: tuples at
  lower addresses move with the free space boundary, tuples at higher addresses stay.
\<close>

lemma overwritten_other:
  fixes p :: "('i, 'o) page" and x :: 'i
  assumes inv: "page_inv p" and i: "i < length (pd_linp p)" and j: "j < length (pd_linp p)" "i \<noteq> j"
    and fit: "MAXALIGN sz \<le> MAXALIGN (lp_len (pd_linp p ! i)) + (pd_upper p - pd_lower p)"
    and sz: "0 < sz"
  defines "lp \<equiv> pd_linp p ! i" and "lj \<equiv> pd_linp p ! j"
  defines "sd \<equiv> int (MAXALIGN (lp_len lp)) - int (MAXALIGN sz)"
  defines "q \<equiv> overwritten_page p i x sz"
  defines "nj \<equiv> pd_linp q ! j"
  shows "lp_off lj + MAXALIGN (lp_len lj) \<le> lp_off lp \<and> int (lp_off nj) = int (lp_off lj) + sd \<or>
      lp_off lp + MAXALIGN (lp_len lp) \<le> lp_off lj \<and> lp_off nj = lp_off lj"
    and "lp_len nj = lp_len lj" and "lp_flags nj = lp_flags lj"
    and "pd_data q (lp_off nj) = pd_data p (lp_off lj)"
proof -
  have okp: "lp_ok p lp" and okj: "lp_ok p lj" and dis: "lp_disjoint lp lj"
    using inv i j by (simp_all add: page_inv_def lp_def lj_def)
  have ord: "pd_lower p \<le> pd_upper p"
    using page_inv_order [OF inv] by simp
  have up: "0 \<le> int (pd_upper p) + sd" "int (pd_upper p) \<le> int (lp_off lp)"
    using fit ord okp by (simp_all add: sd_def lp_def lp_ok_def)
  have Apos: "0 < MAXALIGN (lp_len lp)" "0 < MAXALIGN (lp_len lj)" "0 < MAXALIGN sz"
    using okp okj sz by (simp_all add: lp_ok_def)
  have nj: "nj = move_linp (lp_off lp) sd lj"
    using i j by (simp add: nj_def q_def overwritten_page_def Let_def lj_def lp_def sd_def)
  have data: "pd_data q = (if sd = 0 then pd_data p
      else move_data (pd_data p) (pd_upper p) (lp_off lp) sd)(nat (int (lp_off lp) + sd) \<mapsto> x)"
    by (simp add: q_def overwritten_page_def Let_def sd_def lp_def)
  show "lp_len nj = lp_len lj" "lp_flags nj = lp_flags lj"
    by (simp_all add: nj move_linp_def)
  have st: "ItemIdHasStorage lj" using okj by (simp add: lp_ok_def ItemIdHasStorage_def)
  from dis have cases: "lp_off lj + MAXALIGN (lp_len lj) \<le> lp_off lp \<or>
      lp_off lp + MAXALIGN (lp_len lp) \<le> lp_off lj"
    by (auto simp: lp_disjoint_def)
  have ju: "pd_upper p \<le> lp_off lj" using okj by (simp add: lp_ok_def)
  have before: "int (lp_off nj) = int (lp_off lj) + sd"
    if "lp_off lj + MAXALIGN (lp_len lj) \<le> lp_off lp"
    using that st up ju by (simp add: nj move_linp_def)
  have after: "lp_off nj = lp_off lj" if "lp_off lp + MAXALIGN (lp_len lp) \<le> lp_off lj"
  proof -
    have "\<not> lp_off lj \<le> lp_off lp" using that Apos by linarith
    then show ?thesis by (simp add: nj move_linp_def)
  qed
  show "lp_off lj + MAXALIGN (lp_len lj) \<le> lp_off lp \<and> int (lp_off nj) = int (lp_off lj) + sd \<or>
      lp_off lp + MAXALIGN (lp_len lp) \<le> lp_off lj \<and> lp_off nj = lp_off lj"
    using cases before after by blast
  from cases show "pd_data q (lp_off nj) = pd_data p (lp_off lj)"
  proof
    assume b: "lp_off lj + MAXALIGN (lp_len lj) \<le> lp_off lp"
    have r: "int (lp_off nj) < int (lp_off lp) + sd" "int (pd_upper p) + sd \<le> int (lp_off nj)"
      "nat (int (lp_off nj) - sd) = lp_off lj"
      using before [OF b] b ju Apos by linarith+
    then have "lp_off nj \<noteq> nat (int (lp_off lp) + sd)" by linarith
    then show ?thesis
      using r before [OF b] by (cases "sd = 0") (simp_all add: data move_data_def)
  next
    assume a: "lp_off lp + MAXALIGN (lp_len lp) \<le> lp_off lj"
    have "int (lp_off lp) + sd < int (lp_off nj)" "lp_off lp < lp_off nj"
      using after [OF a] a Apos unfolding sd_def by linarith+
    then show ?thesis
      using after [OF a] by (auto simp: data move_data_def)
  qed
qed

lemma overwritten_self:
  fixes p :: "('i, 'o) page" and x :: 'i
  assumes inv: "page_inv p" and i: "i < length (pd_linp p)"
    and fit: "MAXALIGN sz \<le> MAXALIGN (lp_len (pd_linp p ! i)) + (pd_upper p - pd_lower p)"
  defines "lp \<equiv> pd_linp p ! i"
  defines "sd \<equiv> int (MAXALIGN (lp_len lp)) - int (MAXALIGN sz)"
  defines "q \<equiv> overwritten_page p i x sz"
  shows "int (lp_off (pd_linp q ! i)) = int (lp_off lp) + sd"
    and "lp_len (pd_linp q ! i) = sz" and "lp_flags (pd_linp q ! i) = lp_flags lp"
    and "pd_data q (lp_off (pd_linp q ! i)) = Some x"
    and "int (pd_upper q) = int (pd_upper p) + sd" and "length (pd_linp q) = length (pd_linp p)"
    and "pd_lower q = pd_lower p" "pd_special q = pd_special p" "pd_opaque q = pd_opaque p"
      "pd_has_free_lines q = pd_has_free_lines p"
proof -
  have okp: "lp_ok p lp" using inv i by (simp add: page_inv_def lp_def)
  have up: "0 \<le> int (pd_upper p) + sd" "int (pd_upper p) \<le> int (lp_off lp)"
    using fit page_inv_order [OF inv] okp by (simp_all add: sd_def lp_def lp_ok_def)
  then show "int (lp_off (pd_linp q ! i)) = int (lp_off lp) + sd"
    "int (pd_upper q) = int (pd_upper p) + sd"
    using i by (simp_all add: q_def overwritten_page_def Let_def sd_def lp_def)
qed (use i in \<open>simp_all add: q_def overwritten_page_def Let_def lp_def\<close>)

lemma sum_list_map_update:
  "i < length xs \<Longrightarrow>
     sum_list (map f (xs[i := y])) + f (xs ! i) = sum_list (map f xs) + (f y :: nat)"
  by (induction xs arbitrary: i) (auto split: nat.splits)

lemma overwritten_page_inv:
  assumes inv: "page_inv p" and i: "i < length (pd_linp p)" and sz: "0 < sz"
    and fit: "MAXALIGN sz \<le> MAXALIGN (lp_len (pd_linp p ! i)) + (pd_upper p - pd_lower p)"
  shows "page_inv (overwritten_page p i x sz)"
    and "page_tuples (overwritten_page p i x sz) = (page_tuples p)[i := (x, sz)]"
proof -
  let ?q = "overwritten_page p i x sz" and ?lp = "pd_linp p ! i"
  let ?sd = "int (MAXALIGN (lp_len ?lp)) - int (MAXALIGN sz)"
  note self = overwritten_self [OF inv i fit, where x = x]
  note other = overwritten_other [OF inv i _ _ fit sz, where x = x]
  have ok: "lp_ok p (pd_linp p ! j)" if "j < length (pd_linp p)" for j
    using inv that by (simp add: page_inv_def)
  have dis: "lp_disjoint (pd_linp p ! j) (pd_linp p ! k)"
    if "j < length (pd_linp p)" "k < length (pd_linp p)" "j \<noteq> k" for j k
    using inv that by (simp add: page_inv_def)
  have ord: "pd_lower p \<le> pd_upper p" "pd_upper p \<le> pd_special p"
    using page_inv_order [OF inv] by simp_all
  have al: "8 dvd ?sd" by (intro dvd_diff MAXALIGN_dvd_int)
  have off_al: "8 dvd lp_off (pd_linp ?q ! j)" if "j < length (pd_linp p)" for j
  proof -
    have "(8::int) dvd int (lp_off (pd_linp p ! j))"
      using ok [OF that] int_dvd_int_iff [of 8 "lp_off (pd_linp p ! j)"] by (simp add: lp_ok_def)
    then have "(8::int) dvd int (lp_off (pd_linp ?q ! j))"
    proof (cases "j = i")
      case True
      with self(1) al \<open>8 dvd int (lp_off (pd_linp p ! j))\<close> show ?thesis by (simp add: dvd_add)
    next
      case False
      with other(1) [OF that] al \<open>8 dvd int (lp_off (pd_linp p ! j))\<close> show ?thesis
        by (metis dvd_add)
    qed
    then show ?thesis by (simp only: int_dvd_int_iff [symmetric]) simp
  qed
  have q_ok: "lp_ok ?q (pd_linp ?q ! j)" if j: "j < length (pd_linp p)" for j
  proof (cases "j = i")
    case True
    then show ?thesis
      using self off_al [OF j] ok [OF j] sz unfolding lp_ok_def by auto
  next
    case False
    then show ?thesis
      using self(5,8) other [OF j, of] off_al [OF j] ok [OF j] ok [OF i] sz
      unfolding lp_ok_def by auto
  qed
  have q_dis: "lp_disjoint (pd_linp ?q ! j) (pd_linp ?q ! k)"
    if jk: "j < length (pd_linp p)" "k < length (pd_linp p)" "j \<noteq> k" for j k
  proof -
    have "lp_disjoint (pd_linp ?q ! j) (pd_linp ?q ! i) \<and> lp_disjoint (pd_linp ?q ! i) (pd_linp ?q ! j)"
      if "j < length (pd_linp p)" "j \<noteq> i" for j
      using other(1,2) [OF that(1)] that(2) self(1,2) by (auto simp: lp_disjoint_def)
    moreover have ?thesis if "j \<noteq> i" "k \<noteq> i"
      using other(1,2) [OF jk(1)] other(1,2) [OF jk(2)] that dis [OF jk]
      by (auto simp: lp_disjoint_def)
    ultimately show ?thesis using jk by metis
  qed
  have "sum_list (map (\<lambda>lp. MAXALIGN (lp_len lp)) (pd_linp ?q)) + MAXALIGN (lp_len ?lp) =
      sum_list (map (\<lambda>lp. MAXALIGN (lp_len lp)) (pd_linp p)) + MAXALIGN sz"
  proof -
    have "(\<lambda>lp. MAXALIGN (lp_len lp)) \<circ> move_linp o' sd' = (\<lambda>lp. MAXALIGN (lp_len lp))" for o' sd'
      by (simp add: move_linp_def fun_eq_iff)
    then show ?thesis
      using sum_list_map_update [of i "pd_linp p" "\<lambda>lp. MAXALIGN (lp_len lp)"
          "?lp\<lparr>lp_off := nat (int (lp_off ?lp) + ?sd), lp_len := sz\<rparr>"] i
      by (simp add: overwritten_page_def Let_def map_update)
  qed
  then have sum: "pd_upper ?q + sum_list (map (\<lambda>lp. MAXALIGN (lp_len lp)) (pd_linp ?q)) = pd_special p"
    using inv self(5) unfolding page_inv_def by linarith
  have "page_pointers_ok ?q"
  proof -
    have "page_pointers_ok p" using inv by (simp add: page_inv_def)
    moreover have "pd_upper ?q \<le> pd_special p" using sum by linarith
    moreover have "pd_lower p \<le> pd_upper ?q" using self(5) fit ord by linarith
    ultimately show ?thesis using self by (simp add: page_pointers_ok_def)
  qed
  then show "page_inv ?q"
    using inv sum q_ok q_dis self(6,7,8,10)
    by (auto simp: page_inv_def in_set_conv_nth)
  show "page_tuples ?q = (page_tuples p)[i := (x, sz)]"
    using self(2,4,6) other(2,4) i
    by (auto simp: list_eq_iff_nth_eq page_tuples_def nth_list_update)
qed

end
