(* ===== verification/Float_Format.thy ===== *)
theory Float_Format
  imports Prelude
begin

section \<open>Binary floating point\<close>

text \<open>
  C's \<^verbatim>\<open>float\<close>, \<^verbatim>\<open>double\<close> and \<^verbatim>\<open>_Float16\<close> as IEEE 754 bit patterns: a format is given by the
  number of fraction bits \<open>mb\<close> and of exponent bits \<open>eb\<close>, a number by its bits. The
  magnitude of a bit pattern is everything but the sign bit. Its value is counted in units
  of the smallest subnormal, so that it is a natural number and comparison of finite numbers
  is comparison of integers; infinity takes the value after the largest finite number.
\<close>

definition fmag :: "nat \<Rightarrow> nat \<Rightarrow> nat \<Rightarrow> nat" where
  "fmag mb eb b = b mod 2 ^ (mb + eb)"

definition fsign :: "nat \<Rightarrow> nat \<Rightarrow> nat \<Rightarrow> bool" where
  "fsign mb eb b = odd (b div 2 ^ (mb + eb))"

definition finf :: "nat \<Rightarrow> nat \<Rightarrow> nat" where
  "finf mb eb = (2 ^ eb - 1) * 2 ^ mb"

definition fisnan :: "nat \<Rightarrow> nat \<Rightarrow> nat \<Rightarrow> bool" where
  "fisnan mb eb b \<longleftrightarrow> finf mb eb < fmag mb eb b"

definition fisinf :: "nat \<Rightarrow> nat \<Rightarrow> nat \<Rightarrow> bool" where
  "fisinf mb eb b \<longleftrightarrow> finf mb eb = fmag mb eb b"

text \<open>The exponent of one unit: \<open>2 - 2 ^ (eb - 1) - mb\<close>, that is -149 for \<^verbatim>\<open>float\<close>.\<close>

definition femin :: "nat \<Rightarrow> nat \<Rightarrow> int" where
  "femin mb eb = 2 - 2 ^ (eb - 1) - int mb"

definition fvalmag :: "nat \<Rightarrow> nat \<Rightarrow> nat" where
  "fvalmag mb r =
     (let e = r div 2 ^ mb; f = r mod 2 ^ mb
      in if e = 0 then f else (f + 2 ^ mb) * 2 ^ (e - 1))"

definition fvalue :: "nat \<Rightarrow> nat \<Rightarrow> nat \<Rightarrow> int" where
  "fvalue mb eb b =
     (if fsign mb eb b then - int (fvalmag mb (fmag mb eb b)) else int (fvalmag mb (fmag mb eb b)))"

text \<open>C comparisons: false as soon as one side is \<^verbatim>\<open>NaN\<close>; the two zeros are equal.\<close>

definition flt :: "nat \<Rightarrow> nat \<Rightarrow> nat \<Rightarrow> nat \<Rightarrow> bool" where
  "flt mb eb a b \<longleftrightarrow>
     \<not> fisnan mb eb a \<and> \<not> fisnan mb eb b \<and> fvalue mb eb a < fvalue mb eb b"

definition fle :: "nat \<Rightarrow> nat \<Rightarrow> nat \<Rightarrow> nat \<Rightarrow> bool" where
  "fle mb eb a b \<longleftrightarrow>
     \<not> fisnan mb eb a \<and> \<not> fisnan mb eb b \<and> fvalue mb eb a \<le> fvalue mb eb b"

subsection \<open>Values are ordered as their bit patterns\<close>

lemma fvalmag_step: "fvalmag mb r < fvalmag mb (Suc r)"
proof -
  define e f where "e = r div 2 ^ mb" and "f = r mod 2 ^ mb"
  have r: "r = e * 2 ^ mb + f" and f: "f < 2 ^ mb"
    by (simp_all only: e_def f_def div_mult_mod_eq) simp
  show ?thesis
  proof (cases "Suc f < 2 ^ mb")
    case True
    have "Suc r = e * 2 ^ mb + Suc f" by (simp add: r)
    then have "Suc r div 2 ^ mb = e" "Suc r mod 2 ^ mb = Suc f"
      using True by (auto intro!: div_nat_eqI mod_nat_eqI)
    then show ?thesis
      by (simp add: fvalmag_def e_def [symmetric] f_def [symmetric])
  next
    case False
    then have sf: "Suc f = 2 ^ mb" using f by simp
    then have "Suc r = Suc e * 2 ^ mb" by (simp add: r)
    then have "Suc r div 2 ^ mb = Suc e" "Suc r mod 2 ^ mb = 0"
      by simp_all
    moreover have "(f + 2 ^ mb) * 2 ^ (e - 1) < 2 ^ mb * 2 ^ e" if "e > 0"
    proof -
      have "(2::nat) ^ e = 2 * 2 ^ (e - 1)" using that by (cases e) simp_all
      moreover have "(f + 2 ^ mb) * 2 ^ (e - 1) < (2 * 2 ^ mb) * 2 ^ (e - 1)"
        using f by (intro mult_strict_right_mono) simp_all
      ultimately show ?thesis by simp
    qed
    ultimately show ?thesis
      using f sf by (simp add: fvalmag_def e_def [symmetric] f_def [symmetric])
  qed
qed

lemma fvalmag_strict_mono: "strict_mono (fvalmag mb)"
  by (rule strict_mono_Suc_iff [THEN iffD2]) (simp add: fvalmag_step)

lemma fvalmag_less_iff [simp]: "fvalmag mb r < fvalmag mb s \<longleftrightarrow> r < s"
  by (simp add: fvalmag_strict_mono strict_mono_less)

lemma fvalmag_le_iff [simp]: "fvalmag mb r \<le> fvalmag mb s \<longleftrightarrow> r \<le> s"
  by (simp add: fvalmag_strict_mono strict_mono_less_eq)

lemma fvalmag_0_iff [simp]: "fvalmag mb r = 0 \<longleftrightarrow> r = 0"
  using fvalmag_less_iff [of mb 0 r] by (cases "r = 0") (auto simp: fvalmag_def)

text \<open>The sign-magnitude reading of the bits: what a comparison has to look at.\<close>

definition fkey :: "nat \<Rightarrow> nat \<Rightarrow> nat \<Rightarrow> int" where
  "fkey mb eb b = (if fsign mb eb b then - int (fmag mb eb b) else int (fmag mb eb b))"

lemma fvalue_less_iff: "fvalue mb eb a < fvalue mb eb b \<longleftrightarrow> fkey mb eb a < fkey mb eb b"
proof -
  have eq0: "int (fvalmag mb x) + int (fvalmag mb y) = 0 \<longleftrightarrow> int x + int y = 0" for x y
    by (simp flip: of_nat_add)
  have "- int (fvalmag mb x) < int (fvalmag mb y) \<longleftrightarrow> - int x < int y" for x y
    using eq0 [of x y] by linarith
  then show ?thesis
    by (simp add: fvalue_def fkey_def)
qed

lemma flt_key [code]:
  "flt mb eb a b \<longleftrightarrow>
     \<not> fisnan mb eb a \<and> \<not> fisnan mb eb b \<and> fkey mb eb a < fkey mb eb b"
  by (simp add: flt_def fvalue_less_iff)

lemma fle_key [code]:
  "fle mb eb a b \<longleftrightarrow>
     \<not> fisnan mb eb a \<and> \<not> fisnan mb eb b \<and> fkey mb eb a \<le> fkey mb eb b"
  using fvalue_less_iff [of mb eb b a] by (simp add: fle_def) linarith

subsection \<open>Rounding to nearest, ties to even\<close>

fun nbits :: "nat \<Rightarrow> nat" where
  "nbits n = (if n = 0 then 0 else Suc (nbits (n div 2)))"

declare nbits.simps [simp del]

lemma nbits_0 [simp]: "nbits 0 = 0"
  by (simp add: nbits.simps)

lemma nbits_upper: "n < 2 ^ nbits n"
proof (induction n rule: nbits.induct)
  case (1 n)
  then show ?case
    by (cases "n = 0") (simp_all add: nbits.simps [of n])
qed

lemma nbits_lower: "0 < n \<Longrightarrow> 2 ^ (nbits n - 1) \<le> n"
proof (induction n rule: nbits.induct)
  case (1 n)
  show ?case
  proof (cases "n div 2 = 0")
    case True
    with 1 show ?thesis by (simp add: nbits.simps [of n])
  next
    case False
    with 1 have IH: "2 ^ (nbits (n div 2) - 1) \<le> n div 2" by simp
    have "nbits (n div 2) \<noteq> 0" using False by (subst nbits.simps) simp
    then have "(2::nat) ^ nbits (n div 2) = 2 * 2 ^ (nbits (n div 2) - 1)"
      by (metis Suc_pred' bot_nat_0.not_eq_extremum power_Suc)
    also have "\<dots> \<le> n" using IH by linarith
    finally show ?thesis using 1(2) by (simp add: nbits.simps [of n])
  qed
qed

lemma nbits_le_iff: "nbits n \<le> k \<longleftrightarrow> n < 2 ^ k"
proof (cases "n = 0")
  case False
  show ?thesis
  proof
    assume "nbits n \<le> k"
    then show "n < 2 ^ k"
      using nbits_upper [of n] by (meson le_less_trans not_less power_increasing one_le_numeral less_le_trans)
  next
    assume n: "n < 2 ^ k"
    have "2 ^ (nbits n - 1) < (2::nat) ^ k"
      using False n nbits_lower [of n] by linarith
    then have "nbits n - 1 < k" using power_less_imp_less_exp [of 2] by simp
    then show "nbits n \<le> k" by simp
  qed
qed simp

lemma nbits_mono: "m \<le> n \<Longrightarrow> nbits m \<le> nbits n"
  using nbits_le_iff nbits_upper le_less_trans by blast

text \<open>\<open>m / 2 ^ d\<close> rounded to an integer.\<close>

definition rne :: "nat \<Rightarrow> nat \<Rightarrow> nat" where
  "rne m d =
     (let q = m div 2 ^ d; r = m mod 2 ^ d
      in if 2 ^ d < 2 * r \<or> (2 * r = 2 ^ d \<and> odd q) then q + 1 else q)"

lemma rne_0 [simp]: "rne m 0 = m"
  by (simp add: rne_def)

lemma rne_bounds: "m div 2 ^ d \<le> rne m d" "rne m d \<le> m div 2 ^ d + 1"
  by (simp_all add: rne_def Let_def)

lemma rne_mono: "m \<le> n \<Longrightarrow> rne m d \<le> rne n d"
proof -
  assume mn: "m \<le> n"
  then have q: "m div 2 ^ d \<le> n div 2 ^ d" by (rule div_le_mono)
  show ?thesis
  proof (cases "m div 2 ^ d = n div 2 ^ d")
    case True
    have "m mod 2 ^ d \<le> n mod 2 ^ d"
      using mn True div_mult_mod_eq [of m "2 ^ d"] div_mult_mod_eq [of n "2 ^ d"]
      by (metis nat_add_left_cancel_le)
    with True show ?thesis by (auto simp: rne_def Let_def)
  next
    case False
    with q rne_bounds [of m d] rne_bounds [of n d] show ?thesis by linarith
  qed
qed

lemma rne_exact: "2 ^ d dvd m \<Longrightarrow> rne m d = m div 2 ^ d"
  by (simp add: rne_def)

lemma rne_power: "d \<le> n \<Longrightarrow> rne (2 ^ n) d = 2 ^ (n - d)"
  by (simp add: rne_exact le_imp_power_dvd power_diff)

text \<open>
  The magnitude bits of the number nearest to \<open>m * 2 ^ e\<close>. The unit \<open>2 ^ (e + d)\<close> of the
  result is the larger of the smallest unit of the format and the one that leaves \<open>mb + 1\<close>
  significant bits. A carry out of the significand moves to the next exponent by itself;
  what reaches the infinity pattern is infinity.
\<close>

definition fround_mag :: "nat \<Rightarrow> nat \<Rightarrow> nat \<Rightarrow> int \<Rightarrow> nat" where
  "fround_mag mb eb m e =
     (if m = 0 then 0
      else let d = max (femin mb eb - e) (int (nbits m) - int (Suc mb));
               q = (if d \<le> 0 then m * 2 ^ nat (- d) else rne m (nat d))
           in min (finf mb eb) (nat (e + d - femin mb eb) * 2 ^ mb + q))"

definition fpack :: "nat \<Rightarrow> nat \<Rightarrow> bool \<Rightarrow> nat \<Rightarrow> nat" where
  "fpack mb eb s r = (if s then 2 ^ (mb + eb) else 0) + r"

text \<open>
  The rounded significand, and what bounds it: with the smallest unit it has at most
  \<open>mb + 1\<close> bits (or carried to \<open>2 ^ (mb + 1)\<close>), with a larger unit its leading bit is set.
\<close>

definition fround_d :: "nat \<Rightarrow> nat \<Rightarrow> nat \<Rightarrow> int \<Rightarrow> int" where
  "fround_d mb eb m e = max (femin mb eb - e) (int (nbits m) - int (Suc mb))"

definition fround_q :: "nat \<Rightarrow> int \<Rightarrow> nat" where
  "fround_q m d = (if d \<le> 0 then m * 2 ^ nat (- d) else rne m (nat d))"

lemma fround_mag_0 [simp]: "fround_mag mb eb 0 e = 0"
  by (simp add: fround_mag_def)

lemma fround_mag_alt:
  "0 < m \<Longrightarrow> fround_mag mb eb m e =
     min (finf mb eb)
       (nat (e + fround_d mb eb m e - femin mb eb) * 2 ^ mb + fround_q m (fround_d mb eb m e))"
  by (simp add: fround_mag_def fround_d_def fround_q_def Let_def)

lemma fround_q_upper:
  assumes "int (nbits m) - d \<le> int k"
  shows "fround_q m d \<le> 2 ^ k"
proof (cases "d \<le> 0")
  case True
  have "m * 2 ^ nat (- d) \<le> 2 ^ nbits m * 2 ^ nat (- d)"
    using nbits_upper [of m] by simp
  also have "\<dots> = 2 ^ (nbits m + nat (- d))" by (simp add: power_add)
  also have "\<dots> \<le> 2 ^ k" using assms True by (simp add: power_increasing)
  finally show ?thesis using True by (simp add: fround_q_def)
next
  case False
  have "rne m (nat d) \<le> rne (2 ^ max (nbits m) (nat d)) (nat d)"
    using nbits_upper [of m] by (intro rne_mono) (simp add: less_le_trans less_imp_le power_increasing)
  also have "\<dots> = 2 ^ (max (nbits m) (nat d) - nat d)" by (simp add: rne_power)
  also have "\<dots> \<le> 2 ^ k" using assms False by (simp add: power_increasing)
  finally show ?thesis using False by (simp add: fround_q_def)
qed

lemma fround_q_lower:
  assumes "0 < m" and "int k < int (nbits m) - d"
  shows "2 ^ k \<le> fround_q m d"
proof (cases "d \<le> 0")
  case True
  have "(2::nat) ^ k \<le> 2 ^ (nbits m - 1 + nat (- d))"
    using assms True by (intro power_increasing) linarith+
  also have "\<dots> = 2 ^ (nbits m - 1) * 2 ^ nat (- d)" by (simp add: power_add)
  also have "\<dots> \<le> m * 2 ^ nat (- d)" using nbits_lower [OF assms(1)] by simp
  finally show ?thesis using True by (simp add: fround_q_def)
next
  case False
  have "(2::nat) ^ k \<le> 2 ^ (nbits m - 1 - nat d)"
    using assms False by (intro power_increasing) linarith+
  also have "\<dots> = rne (2 ^ (nbits m - 1)) (nat d)"
    using assms False by (subst rne_power) linarith+
  also have "\<dots> \<le> rne m (nat d)" by (rule rne_mono [OF nbits_lower [OF assms(1)]])
  finally show ?thesis using False by (simp add: fround_q_def)
qed

lemma fround_q_mono: "m \<le> n \<Longrightarrow> fround_q m d \<le> fround_q n d"
  by (simp add: fround_q_def rne_mono)

text \<open>Rounding never reverses an order.\<close>

lemma fround_mag_mono:
  assumes "m \<le> n"
  shows "fround_mag mb eb m e \<le> fround_mag mb eb n e"
proof -
  let ?d = "fround_d mb eb m e" and ?d' = "fround_d mb eb n e" and ?lo = "femin mb eb"
  have dd: "?d \<le> ?d'" and lo: "?lo \<le> e + ?d"
    using nbits_mono [OF assms] by (simp_all add: fround_d_def)
  have "nat (e + ?d - ?lo) * 2 ^ mb + fround_q m ?d \<le> nat (e + ?d' - ?lo) * 2 ^ mb + fround_q n ?d'"
  proof (cases "?d = ?d'")
    case True
    then show ?thesis using fround_q_mono [OF assms] by simp
  next
    case False
    with dd have lt: "?d < ?d'" by simp
    then have d': "?d' = int (nbits n) - int (Suc mb)"
      by (auto simp: fround_d_def max_def split: if_splits)
    have n: "0 < n"
      using lt d' assms by (cases "n = 0") (simp_all add: fround_d_def)
    have "int (nbits m) - ?d \<le> int (Suc mb)" by (simp add: fround_d_def)
    from fround_q_upper [OF this] have u: "fround_q m ?d \<le> 2 * 2 ^ mb" by simp
    have "int mb < int (nbits n) - ?d'" by (simp add: d')
    from fround_q_lower [OF n this] have l: "2 ^ mb \<le> fround_q n ?d'" .
    have "nat (e + ?d - ?lo) + 1 \<le> nat (e + ?d' - ?lo)" using lt lo by linarith
    then have "nat (e + ?d - ?lo) * 2 ^ mb + 2 ^ mb \<le> nat (e + ?d' - ?lo) * 2 ^ mb"
      using mult_le_mono1 [of "nat (e + ?d - ?lo) + 1" "nat (e + ?d' - ?lo)" "2 ^ mb"] by simp
    with u l show ?thesis by linarith
  qed
  then show ?thesis using assms by (cases "m = 0") (simp_all add: fround_mag_alt)
qed

lemma fround_mag_le_inf: "fround_mag mb eb m e \<le> finf mb eb"
  by (cases "m = 0") (simp_all add: fround_mag_alt)

subsection \<open>The C types\<close>

type_synonym float4 = "32 word"
type_synonym float8 = "64 word"

definition float4_isnan :: "float4 \<Rightarrow> bool" where
  "float4_isnan x = fisnan 23 8 (unat x)"

definition float4_lt :: "float4 \<Rightarrow> float4 \<Rightarrow> bool" where
  "float4_lt x y = flt 23 8 (unat x) (unat y)"

definition float4_le :: "float4 \<Rightarrow> float4 \<Rightarrow> bool" where
  "float4_le x y = fle 23 8 (unat x) (unat y)"

definition float8_isnan :: "float8 \<Rightarrow> bool" where
  "float8_isnan x = fisnan 52 11 (unat x)"

definition float8_lt :: "float8 \<Rightarrow> float8 \<Rightarrow> bool" where
  "float8_lt x y = flt 52 11 (unat x) (unat y)"

definition float8_le :: "float8 \<Rightarrow> float8 \<Rightarrow> bool" where
  "float8_le x y = fle 52 11 (unat x) (unat y)"

definition float8_key :: "float8 \<Rightarrow> int" where
  "float8_key x = fkey 52 11 (unat x)"

definition float4_key :: "float4 \<Rightarrow> int" where
  "float4_key x = fkey 23 8 (unat x)"

lemma float8_lt_key:
  "float8_lt x y \<longleftrightarrow> \<not> float8_isnan x \<and> \<not> float8_isnan y \<and> float8_key x < float8_key y"
  by (simp add: float8_lt_def float8_isnan_def float8_key_def flt_key)

lemma float8_le_key:
  "float8_le x y \<longleftrightarrow> \<not> float8_isnan x \<and> \<not> float8_isnan y \<and> float8_key x \<le> float8_key y"
  by (simp add: float8_le_def float8_isnan_def float8_key_def fle_key)

lemma float4_lt_key:
  "float4_lt x y \<longleftrightarrow> \<not> float4_isnan x \<and> \<not> float4_isnan y \<and> float4_key x < float4_key y"
  by (simp add: float4_lt_def float4_isnan_def float4_key_def flt_key)

lemma float4_le_key:
  "float4_le x y \<longleftrightarrow> \<not> float4_isnan x \<and> \<not> float4_isnan y \<and> float4_key x \<le> float4_key y"
  by (simp add: float4_le_def float4_isnan_def float4_key_def fle_key)

lemmas float_key_simps = float8_lt_key float8_le_key float4_lt_key float4_le_key

text \<open>
  The conversion \<^verbatim>\<open>(float) x\<close>. A \<^verbatim>\<open>NaN\<close> keeps its sign and the leading bits of its payload
  and becomes quiet, as the hardware conversions do.
\<close>

definition fsig :: "nat \<Rightarrow> nat \<Rightarrow> nat" where
  "fsig mb r = (if r div 2 ^ mb = 0 then r mod 2 ^ mb else r mod 2 ^ mb + 2 ^ mb)"

definition fexp :: "nat \<Rightarrow> nat \<Rightarrow> nat \<Rightarrow> int" where
  "fexp mb eb r = femin mb eb + int (r div 2 ^ mb - 1)"

definition float8_to_float4_mag :: "nat \<Rightarrow> nat" where
  "float8_to_float4_mag r =
     (if finf 52 11 < r then finf 23 8 + 2 ^ 22 + (r mod 2 ^ 51) div 2 ^ 29
      else if r = finf 52 11 then finf 23 8
      else fround_mag 23 8 (fsig 52 r) (fexp 52 11 r))"

definition float8_to_float4 :: "float8 \<Rightarrow> float4" where
  "float8_to_float4 x =
     word_of_nat (fpack 23 8 (fsign 52 11 (unat x)) (float8_to_float4_mag (fmag 52 11 (unat x))))"

lemma nbits_mult_power: "0 < m \<Longrightarrow> nbits (m * 2 ^ j) = nbits m + j"
proof -
  assume m: "0 < m"
  have iff: "nbits (m * 2 ^ j) \<le> k + j \<longleftrightarrow> nbits m \<le> k" for k
    by (simp add: nbits_le_iff power_add)
  have j: "j \<le> nbits (m * 2 ^ j)"
    using m nbits_le_iff [of "m * 2 ^ j" j] by (simp add: not_less)
  show ?thesis
    using iff [of "nbits m"] iff [of "nbits (m * 2 ^ j) - j"] j by linarith
qed

lemma rne_mult_power: "rne (m * 2 ^ j) (d + j) = rne m d"
proof -
  have "(m * 2 ^ j) div 2 ^ (d + j) = m div 2 ^ d" "(m * 2 ^ j) mod 2 ^ (d + j) = (m mod 2 ^ d) * 2 ^ j"
    by (simp_all add: power_add mult_mod_left)
  then show ?thesis
    by (simp add: rne_def Let_def power_add flip: mult.assoc)
qed

lemma fround_q_mult_power: "fround_q (m * 2 ^ j) (d + int j) = fround_q m d"
proof -
  consider "d + int j \<le> 0" | "d \<le> 0" "0 < d + int j" | "0 < d" by linarith
  then show ?thesis
  proof cases
    case 1
    then have "nat (- d) = j + nat (- (d + int j))" by linarith
    with 1 show ?thesis by (simp add: fround_q_def power_add)
  next
    case 2
    define i where "i = nat (d + int j)"
    have j: "j = nat (- d) + i" using 2 by (simp add: i_def)
    have "rne (m * 2 ^ j) i = m * 2 ^ nat (- d)"
      by (subst rne_exact) (simp_all add: j power_add)
    with 2 show ?thesis by (simp add: fround_q_def i_def)
  next
    case 3
    then have "nat (d + int j) = nat d + j" by linarith
    with 3 show ?thesis by (simp add: fround_q_def rne_mult_power)
  qed
qed

lemma fround_mag_mult_power:
  assumes "0 < m"
  shows "fround_mag mb eb (m * 2 ^ j) e = fround_mag mb eb m (e + int j)"
proof -
  have "0 < m * 2 ^ j" using assms by simp
  note alt = fround_mag_alt [OF this] fround_mag_alt [OF assms]
  have d: "fround_d mb eb (m * 2 ^ j) e = fround_d mb eb m (e + int j) + int j"
    using assms by (simp add: fround_d_def nbits_mult_power)
  have "e + (fround_d mb eb m (e + int j) + int j) - femin mb eb =
      e + int j + fround_d mb eb m (e + int j) - femin mb eb"
    by simp
  then show ?thesis
    by (simp only: alt d fround_q_mult_power)
qed

lemma fvalmag_sig: "fvalmag mb r = fsig mb r * 2 ^ (r div 2 ^ mb - 1)"
  by (simp add: fvalmag_def fsig_def Let_def)

lemma fround_mag_sig:
  "fround_mag mb' eb' (fsig mb r) (fexp mb eb r) = fround_mag mb' eb' (fvalmag mb r) (femin mb eb)"
  by (cases "fsig mb r = 0") (simp_all add: fvalmag_sig fround_mag_mult_power fexp_def)

lemma float8_to_float4_mag_mono:
  "r \<le> s \<Longrightarrow> s \<le> finf 52 11 \<Longrightarrow> float8_to_float4_mag r \<le> float8_to_float4_mag s"
  by (auto simp: float8_to_float4_mag_def fround_mag_le_inf fround_mag_sig intro!: fround_mag_mono)

lemma float8_to_float4_mag_inf: "r \<le> finf 52 11 \<Longrightarrow> float8_to_float4_mag r \<le> finf 23 8"
  by (auto simp: float8_to_float4_mag_def fround_mag_le_inf)

lemma float8_to_float4_mag_nan: "finf 52 11 < r \<Longrightarrow> finf 23 8 < float8_to_float4_mag r"
  by (simp add: float8_to_float4_mag_def)

lemma float8_to_float4_mag_0: "float8_to_float4_mag 0 = 0"
  by (simp add: float8_to_float4_mag_def fsig_def finf_def)

lemma float8_to_float4_mag_bound: "float8_to_float4_mag r < 2 ^ 31"
proof (cases "r \<le> finf 52 11")
  case True
  then show ?thesis using float8_to_float4_mag_inf [of r] by (simp add: finf_def)
next
  case False
  have "r mod 2 ^ 51 div 2 ^ 29 < 2 ^ 22"
    by (simp add: less_mult_imp_div_less)
  with False show ?thesis by (simp add: float8_to_float4_mag_def finf_def)
qed

lemma fpack_fields:
  assumes "r < 2 ^ (mb + eb)"
  shows "fmag mb eb (fpack mb eb s r) = r" "fsign mb eb (fpack mb eb s r) = s"
proof -
  have "(2 ^ (mb + eb) + r) div 2 ^ (mb + eb) = 1"
    using assms by (intro div_nat_eqI) simp_all
  then show "fmag mb eb (fpack mb eb s r) = r" "fsign mb eb (fpack mb eb s r) = s"
    using assms by (simp_all add: fmag_def fsign_def fpack_def)
qed

lemma unat_float8_to_float4:
  "unat (float8_to_float4 x) =
     fpack 23 8 (fsign 52 11 (unat x)) (float8_to_float4_mag (fmag 52 11 (unat x)))"
proof -
  have "fpack 23 8 (fsign 52 11 (unat x)) (float8_to_float4_mag (fmag 52 11 (unat x))) < 2 ^ 32"
    using float8_to_float4_mag_bound [of "fmag 52 11 (unat x)"] by (simp add: fpack_def)
  then show ?thesis
    by (simp add: float8_to_float4_def unsigned_of_nat take_bit_nat_eq_self)
qed

lemma float8_to_float4_fields:
  "fmag 23 8 (unat (float8_to_float4 x)) = float8_to_float4_mag (fmag 52 11 (unat x))"
  "fsign 23 8 (unat (float8_to_float4 x)) = fsign 52 11 (unat x)"
  using float8_to_float4_mag_bound [of "fmag 52 11 (unat x)"]
  by (simp_all add: unat_float8_to_float4 fpack_fields)

lemma float8_to_float4_isnan [simp]: "float4_isnan (float8_to_float4 x) = float8_isnan x"
  using float8_to_float4_mag_inf [of "fmag 52 11 (unat x)"]
    float8_to_float4_mag_nan [of "fmag 52 11 (unat x)"]
  unfolding float4_isnan_def float8_isnan_def fisnan_def float8_to_float4_fields by linarith

lemma float8_to_float4_mono:
  assumes "\<not> float8_isnan x" "\<not> float8_isnan y" "float8_key x \<le> float8_key y"
  shows "float4_key (float8_to_float4 x) \<le> float4_key (float8_to_float4 y)"
proof -
  let ?m = "float8_to_float4_mag"
  let ?x = "fmag 52 11 (unat x)" and ?y = "fmag 52 11 (unat y)"
  have "?x \<le> finf 52 11" "?y \<le> finf 52 11"
    using assms(1,2) by (simp_all add: float8_isnan_def fisnan_def)
  then have mono: "?x \<le> ?y \<Longrightarrow> ?m ?x \<le> ?m ?y" "?y \<le> ?x \<Longrightarrow> ?m ?y \<le> ?m ?x"
    using float8_to_float4_mag_mono by blast+
  show ?thesis
    using assms(3) mono float8_to_float4_mag_0
    by (cases "?x = 0"; cases "?y = 0")
      (auto simp: float8_key_def float4_key_def fkey_def float8_to_float4_fields split: if_splits)
qed

text \<open>So narrowing the distances of a list sorted by distance leaves it sorted.\<close>

lemma float8_to_float4_le:
  "float8_le x y \<Longrightarrow> float4_le (float8_to_float4 x) (float8_to_float4 y)"
  by (simp add: float_key_simps float8_to_float4_mono)

end
