(* ===== verification/Pairing_Heap.thy ===== *)
theory Pairing_Heap
  imports Prelude
begin

section \<open>Pairing heap (src/backend/lib/pairingheap.c)\<close>

text \<open>
  The priority queue behind the HNSW candidate sets. A \<^verbatim>\<open>pairingheap_node\<close> is embedded in
  the caller's struct; the model node carries that struct as \<open>pdata\<close>. The chain of siblings
  reached through \<^verbatim>\<open>first_child\<close> and \<^verbatim>\<open>next_sibling\<close> is the list of children, in that order.
  The comparator follows the C convention: negative when its first argument has the lower
  priority.
\<close>

datatype 'a pairingheap_node = PNode (pdata: 'a) (first_child: "'a pairingheap_node list")

record 'a pairingheap =
  ph_compare :: "'a \<Rightarrow> 'a \<Rightarrow> int"
  ph_root :: "'a pairingheap_node option"

definition pairingheap_allocate :: "('a \<Rightarrow> 'a \<Rightarrow> int) \<Rightarrow> 'a pairingheap" where
  "pairingheap_allocate compare = \<lparr>ph_compare = compare, ph_root = None\<rparr>"

definition pairingheap_is_empty :: "'a pairingheap \<Rightarrow> bool" where
  "pairingheap_is_empty heap \<longleftrightarrow> ph_root heap = None"

text \<open>The subheap that loses the comparison becomes the first child of the other one.\<close>

definition link_nodes ::
  "('a \<Rightarrow> 'a \<Rightarrow> int) \<Rightarrow> 'a pairingheap_node \<Rightarrow> 'a pairingheap_node \<Rightarrow> 'a pairingheap_node" where
  "link_nodes compare a b =
     (if compare (pdata a) (pdata b) < 0
      then PNode (pdata b) (a # first_child b)
      else PNode (pdata a) (b # first_child a))"

definition merge ::
  "('a \<Rightarrow> 'a \<Rightarrow> int) \<Rightarrow> 'a pairingheap_node option \<Rightarrow> 'a pairingheap_node option
    \<Rightarrow> 'a pairingheap_node option" where
  "merge compare a b =
     (case a of None \<Rightarrow> b
      | Some x \<Rightarrow> (case b of None \<Rightarrow> a | Some y \<Rightarrow> Some (link_nodes compare x y)))"

definition pairingheap_add :: "'a pairingheap \<Rightarrow> 'a \<Rightarrow> 'a pairingheap" where
  "pairingheap_add heap x =
     heap\<lparr>ph_root := merge (ph_compare heap) (ph_root heap) (Some (PNode x []))\<rparr>"

definition pairingheap_first :: "'a pairingheap \<Rightarrow> 'a option" where
  "pairingheap_first heap = map_option pdata (ph_root heap)"

text \<open>
  First pass of \<^verbatim>\<open>merge_children\<close>: neighbouring subheaps are merged from left to right and
  pushed on the front of \<^verbatim>\<open>pairs\<close>. Second pass: the pairs are merged into one heap.
\<close>

fun merge_pairs ::
  "('a \<Rightarrow> 'a \<Rightarrow> int) \<Rightarrow> 'a pairingheap_node list \<Rightarrow> 'a pairingheap_node list
    \<Rightarrow> 'a pairingheap_node list" where
  "merge_pairs compare pairs [] = pairs"
| "merge_pairs compare pairs [cur] = cur # pairs"
| "merge_pairs compare pairs (cur # sib # rest) =
     merge_pairs compare (link_nodes compare cur sib # pairs) rest"

fun merge_all ::
  "('a \<Rightarrow> 'a \<Rightarrow> int) \<Rightarrow> 'a pairingheap_node \<Rightarrow> 'a pairingheap_node list
    \<Rightarrow> 'a pairingheap_node" where
  "merge_all compare newroot [] = newroot"
| "merge_all compare newroot (cur # rest) =
     merge_all compare (link_nodes compare newroot cur) rest"

fun merge_children ::
  "('a \<Rightarrow> 'a \<Rightarrow> int) \<Rightarrow> 'a pairingheap_node list \<Rightarrow> 'a pairingheap_node option" where
  "merge_children compare [] = None"
| "merge_children compare [c] = Some c"
| "merge_children compare (c # d # rest) =
     (case merge_pairs compare [] (c # d # rest) of
        [] \<Rightarrow> None
      | newroot # pairs \<Rightarrow> Some (merge_all compare newroot pairs))"

definition pairingheap_remove_first :: "'a pairingheap \<Rightarrow> ('a \<times> 'a pairingheap) option" where
  "pairingheap_remove_first heap =
     (case ph_root heap of
        None \<Rightarrow> None
      | Some r \<Rightarrow>
          Some (pdata r,
                heap\<lparr>ph_root := merge_children (ph_compare heap) (first_child r)\<rparr>))"


subsection \<open>Contents\<close>

text \<open>
  What a heap holds is the multiset of its nodes' data. None of the operations loses or
  duplicates a node, whatever the comparator answers; in particular with comparators that
  compare \<^verbatim>\<open>NaN\<close> distances.
\<close>

fun mset_node :: "'a pairingheap_node \<Rightarrow> 'a multiset" where
  "mset_node (PNode x cs) = add_mset x (sum_list (map mset_node cs))"

definition mset_heap :: "'a pairingheap \<Rightarrow> 'a multiset" where
  "mset_heap heap = (case ph_root heap of None \<Rightarrow> {#} | Some r \<Rightarrow> mset_node r)"

lemma mset_link_nodes [simp]: "mset_node (link_nodes c a b) = mset_node a + mset_node b"
  by (cases a; cases b) (simp add: link_nodes_def)

lemma mset_merge_pairs:
  "sum_list (map mset_node (merge_pairs c pairs cs)) =
     sum_list (map mset_node pairs) + sum_list (map mset_node cs)"
  by (induction c pairs cs rule: merge_pairs.induct) (simp_all add: ac_simps)

lemma merge_pairs_nonempty: "cs \<noteq> [] \<or> pairs \<noteq> [] \<Longrightarrow> merge_pairs c pairs cs \<noteq> []"
  by (induction c pairs cs rule: merge_pairs.induct) auto

lemma mset_merge_all:
  "mset_node (merge_all c r pairs) = mset_node r + sum_list (map mset_node pairs)"
  by (induction c r pairs rule: merge_all.induct) (simp_all add: ac_simps)

definition mset_root :: "'a pairingheap_node option \<Rightarrow> 'a multiset" where
  "mset_root r = (case r of None \<Rightarrow> {#} | Some n \<Rightarrow> mset_node n)"

lemma mset_root_simps [simp]:
  "mset_root None = {#}"
  "mset_root (Some n) = mset_node n"
  by (simp_all add: mset_root_def)

lemma mset_heap_root: "mset_heap heap = mset_root (ph_root heap)"
  by (simp add: mset_heap_def mset_root_def)

lemma merge_children_cases:
  obtains "cs = []" | n where "cs = [n]" | x y rest where "cs = x # y # rest"
  by (cases cs; cases "tl cs") auto

lemma merge_pairs_Cons:
  obtains r ps where "merge_pairs c [] (x # y # rest) = r # ps"
  using merge_pairs_nonempty [of "x # y # rest" "[]" c] by (meson list.discI neq_Nil_conv)

lemma mset_merge_children: "mset_root (merge_children c cs) = sum_list (map mset_node cs)"
proof (cases cs rule: merge_children_cases)
  case (3 x y rest)
  obtain r ps where rp: "merge_pairs c [] (x # y # rest) = r # ps"
    by (rule merge_pairs_Cons)
  have "mset_node r + sum_list (map mset_node ps) = sum_list (map mset_node (x # y # rest))"
    using mset_merge_pairs [of c "[]" "x # y # rest"] rp by simp
  then show ?thesis using 3 rp by (simp add: mset_merge_all del: merge_pairs.simps)
qed simp_all

lemma pairingheap_allocate_empty [simp]:
  "mset_heap (pairingheap_allocate c) = {#}"
  "ph_compare (pairingheap_allocate c) = c"
  by (simp_all add: pairingheap_allocate_def mset_heap_def)

lemma mset_heap_add [simp]: "mset_heap (pairingheap_add h x) = add_mset x (mset_heap h)"
  by (cases "ph_root h") (simp_all add: pairingheap_add_def mset_heap_root merge_def)

lemma ph_compare_add [simp]: "ph_compare (pairingheap_add h x) = ph_compare h"
  by (simp add: pairingheap_add_def)

lemma mset_node_nonempty [simp]: "mset_node n \<noteq> {#}"
  by (cases n) simp

lemma pairingheap_is_empty_iff: "pairingheap_is_empty h \<longleftrightarrow> mset_heap h = {#}"
  by (cases "ph_root h") (simp_all add: pairingheap_is_empty_def mset_heap_root)

lemma pairingheap_remove_first_None_iff:
  "pairingheap_remove_first h = None \<longleftrightarrow> mset_heap h = {#}"
  by (cases "ph_root h") (simp_all add: pairingheap_remove_first_def mset_heap_root)

lemma pairingheap_remove_first_mset:
  "pairingheap_remove_first h = Some (x, h') \<Longrightarrow> mset_heap h = add_mset x (mset_heap h')"
  by (cases "ph_root h"; cases "the (ph_root h)")
    (auto simp: pairingheap_remove_first_def mset_heap_root mset_merge_children)

lemma ph_compare_remove_first:
  "pairingheap_remove_first h = Some (x, h') \<Longrightarrow> ph_compare h' = ph_compare h"
  by (auto simp: pairingheap_remove_first_def split: option.splits)

lemma pairingheap_first_remove_first:
  "pairingheap_remove_first h = Some (x, h') \<Longrightarrow> pairingheap_first h = Some x"
  by (auto simp: pairingheap_remove_first_def pairingheap_first_def split: option.splits)

lemma pairingheap_first_None_iff: "pairingheap_first h = None \<longleftrightarrow> mset_heap h = {#}"
  by (cases "ph_root h") (simp_all add: pairingheap_first_def mset_heap_root)

lemma pairingheap_first_in: "pairingheap_first h = Some x \<Longrightarrow> x \<in># mset_heap h"
  by (cases "ph_root h"; cases "the (ph_root h)")
    (auto simp: pairingheap_first_def mset_heap_root)

subsection \<open>Heap order\<close>

text \<open>
  Every node has at least the priority of the nodes below it. The contract the
  comparator has to keep is stated on the data actually stored (the carrier \<open>S\<close>), because
  the comparators of the callers order only part of their type: distances that are not
  \<^verbatim>\<open>NaN\<close>.
\<close>

fun heap_ordered :: "('a \<Rightarrow> 'a \<Rightarrow> int) \<Rightarrow> 'a pairingheap_node \<Rightarrow> bool" where
  "heap_ordered c (PNode x cs) =
     ((\<forall>n \<in> set cs. \<forall>y \<in># mset_node n. 0 \<le> c x y) \<and> (\<forall>n \<in> set cs. heap_ordered c n))"

locale ph_comparator =
  fixes cmp :: "'a \<Rightarrow> 'a \<Rightarrow> int" and S :: "'a set"
  assumes cmp_flip: "a \<in> S \<Longrightarrow> b \<in> S \<Longrightarrow> cmp a b < 0 \<Longrightarrow> 0 \<le> cmp b a"
    and cmp_refl: "a \<in> S \<Longrightarrow> 0 \<le> cmp a a"
    and cmp_trans: "a \<in> S \<Longrightarrow> b \<in> S \<Longrightarrow> c \<in> S \<Longrightarrow> 0 \<le> cmp a b \<Longrightarrow> 0 \<le> cmp b c \<Longrightarrow> 0 \<le> cmp a c"
begin

definition node_inv :: "'a pairingheap_node \<Rightarrow> bool" where
  "node_inv n \<longleftrightarrow> heap_ordered cmp n \<and> set_mset (mset_node n) \<subseteq> S"

lemma node_inv_PNode:
  "node_inv (PNode x cs) \<longleftrightarrow>
     x \<in> S \<and> (\<forall>n \<in> set cs. node_inv n \<and> (\<forall>y \<in># mset_node n. 0 \<le> cmp x y))"
  by (simp add: node_inv_def UN_subset_iff) blast

lemma node_inv_leaf: "x \<in> S \<Longrightarrow> node_inv (PNode x [])"
  by (simp add: node_inv_PNode)

lemma node_inv_root_carrier: "node_inv n \<Longrightarrow> pdata n \<in> S"
  by (cases n) (simp add: node_inv_PNode)

lemma node_inv_carrier: "node_inv n \<Longrightarrow> y \<in># mset_node n \<Longrightarrow> y \<in> S"
  unfolding node_inv_def by blast

lemma node_inv_root_max:
  assumes "node_inv n" and "y \<in># mset_node n"
  shows "0 \<le> cmp (pdata n) y"
proof (cases n)
  case (PNode x cs)
  with assms(2) consider "y = x" | m where "m \<in> set cs" "y \<in># mset_node m" by auto
  then show ?thesis
    using PNode assms(1) cmp_refl by cases (simp_all add: node_inv_PNode)
qed

lemma node_inv_children: "node_inv n \<Longrightarrow> m \<in> set (first_child n) \<Longrightarrow> node_inv m"
  by (cases n) (simp add: node_inv_PNode)

lemma node_inv_link_win:
  assumes "node_inv a" "node_inv b" and "0 \<le> cmp (pdata a) (pdata b)"
  shows "node_inv (PNode (pdata a) (b # first_child a))"
proof -
  have "0 \<le> cmp (pdata a) y" if "y \<in># mset_node b" for y
    using cmp_trans [of "pdata a" "pdata b" y] that assms node_inv_root_max [of b y]
      node_inv_carrier [of b y] node_inv_root_carrier by simp
  then show ?thesis
    using assms(1,2) by (cases a) (simp add: node_inv_PNode)
qed

lemma node_inv_link:
  assumes "node_inv a" "node_inv b"
  shows "node_inv (link_nodes cmp a b)"
  using assms node_inv_link_win cmp_flip node_inv_root_carrier
  by (simp add: link_nodes_def)

lemma node_inv_merge_pairs:
  "c = cmp \<Longrightarrow> \<forall>n \<in> set pairs \<union> set cs. node_inv n \<Longrightarrow>
     \<forall>n \<in> set (merge_pairs c pairs cs). node_inv n"
  by (induction c pairs cs rule: merge_pairs.induct) (simp_all add: node_inv_link)

lemma node_inv_merge_all:
  "node_inv r \<Longrightarrow> \<forall>n \<in> set pairs. node_inv n \<Longrightarrow> node_inv (merge_all cmp r pairs)"
  by (induction pairs arbitrary: r) (simp_all add: node_inv_link)

lemma node_inv_merge_children:
  assumes "\<forall>n \<in> set cs. node_inv n" and "merge_children cmp cs = Some r"
  shows "node_inv r"
proof (cases cs rule: merge_children_cases)
  case (3 x y rest)
  obtain r' ps where rp: "merge_pairs cmp [] (x # y # rest) = r' # ps"
    by (rule merge_pairs_Cons)
  have "\<forall>n \<in> set (r' # ps). node_inv n"
    using node_inv_merge_pairs [of cmp "[]" "x # y # rest"] assms(1) 3 unfolding rp by simp
  then show ?thesis
    using assms(2) 3 rp node_inv_merge_all [of r' ps] by (simp del: merge_pairs.simps)
qed (use assms in simp_all)

text \<open>The invariant of a heap that uses this comparator.\<close>

definition heap_inv :: "'a pairingheap \<Rightarrow> bool" where
  "heap_inv h \<longleftrightarrow> ph_compare h = cmp \<and> (\<forall>r. ph_root h = Some r \<longrightarrow> node_inv r)"

lemma heap_inv_allocate [simp]: "heap_inv (pairingheap_allocate cmp)"
  by (simp add: heap_inv_def pairingheap_allocate_def)

lemma heap_inv_compare: "heap_inv h \<Longrightarrow> ph_compare h = cmp"
  by (simp add: heap_inv_def)

lemma heap_inv_root: "heap_inv h \<Longrightarrow> ph_root h = Some r \<Longrightarrow> node_inv r"
  by (simp add: heap_inv_def)

lemma heap_inv_carrier: "heap_inv h \<Longrightarrow> x \<in># mset_heap h \<Longrightarrow> x \<in> S"
  using heap_inv_root by (cases "ph_root h") (auto simp: mset_heap_root node_inv_def)

lemma heap_inv_add:
  assumes "heap_inv h" "x \<in> S"
  shows "heap_inv (pairingheap_add h x)"
proof (cases "ph_root h")
  case None
  with assms show ?thesis
    by (simp add: heap_inv_def pairingheap_add_def merge_def node_inv_leaf)
next
  case (Some r)
  then have "node_inv (link_nodes cmp r (PNode x []))"
    using assms heap_inv_root node_inv_link node_inv_leaf by blast
  with Some assms show ?thesis
    by (simp add: heap_inv_def pairingheap_add_def merge_def)
qed

lemma heap_inv_remove_first:
  assumes "heap_inv h" and "pairingheap_remove_first h = Some (x, h')"
  shows "heap_inv h'"
proof -
  from assms obtain r where r: "ph_root h = Some r"
    and h': "h' = h\<lparr>ph_root := merge_children (ph_compare h) (first_child r)\<rparr>"
    by (cases "ph_root h") (simp_all add: pairingheap_remove_first_def)
  then have "\<forall>n \<in> set (first_child r). node_inv n"
    using assms(1) heap_inv_root node_inv_children by blast
  then show ?thesis
    using assms(1) h' node_inv_merge_children by (simp add: heap_inv_def)
qed

lemma heap_inv_first_max:
  assumes "heap_inv h" "pairingheap_first h = Some x" "y \<in># mset_heap h"
  shows "0 \<le> cmp x y"
proof -
  from assms(2) obtain r where "ph_root h = Some r" "x = pdata r"
    by (cases "ph_root h") (simp_all add: pairingheap_first_def)
  then show ?thesis
    using assms(1,3) heap_inv_root node_inv_root_max by (simp add: mset_heap_root)
qed

lemmas heap_inv_remove_first_max = heap_inv_first_max [OF _ pairingheap_first_remove_first]

end

end
