(* ===== verification/Hnsw_Types.thy ===== *)
theory Hnsw_Types
  imports Page Float_Format Pairing_Heap
begin

section \<open>HNSW data structures (src/hnsw.h)\<close>

text \<open>
  The constants, size macros and structures of \<^verbatim>\<open>hnsw.h\<close>, and the part of
  \<^verbatim>\<open>hnswutils.c\<close> that only touches them. A stored value (\<^verbatim>\<open>Datum\<close> of the indexed column) is of
  an arbitrary type \<open>'v\<close>; what the access method needs of it (its size, the distance and norm
  functions of the operator class) comes with the relation.

  Elements live in an explicit store, because in-memory graphs share them and the
  tie-breaker of the candidate order compares their addresses. An address is a 64-bit word:
  a pointer or, for a build in shared memory, an offset from \<^verbatim>\<open>base\<close>.
\<close>

definition HNSW_MAX_DIM :: nat where "HNSW_MAX_DIM = 2000"
definition HNSW_MAX_NNZ :: nat where "HNSW_MAX_NNZ = 1000"
definition HNSW_VERSION :: "32 word" where "HNSW_VERSION = 1"
definition HNSW_MAGIC_NUMBER :: "32 word" where "HNSW_MAGIC_NUMBER = 0xA953A953"
definition HNSW_PAGE_ID :: "16 word" where "HNSW_PAGE_ID = 0xFF90"
definition HNSW_METAPAGE_BLKNO :: BlockNumber where "HNSW_METAPAGE_BLKNO = 0"
definition HNSW_HEAD_BLKNO :: BlockNumber where "HNSW_HEAD_BLKNO = 1"
definition HNSW_DEFAULT_M :: nat where "HNSW_DEFAULT_M = 16"
definition HNSW_MIN_M :: nat where "HNSW_MIN_M = 2"
definition HNSW_MAX_M :: nat where "HNSW_MAX_M = 100"
definition HNSW_DEFAULT_EF_CONSTRUCTION :: nat where "HNSW_DEFAULT_EF_CONSTRUCTION = 64"
definition HNSW_MIN_EF_CONSTRUCTION :: nat where "HNSW_MIN_EF_CONSTRUCTION = 4"
definition HNSW_MAX_EF_CONSTRUCTION :: nat where "HNSW_MAX_EF_CONSTRUCTION = 1000"
definition HNSW_ELEMENT_TUPLE_TYPE :: "8 word" where "HNSW_ELEMENT_TUPLE_TYPE = 1"
definition HNSW_NEIGHBOR_TUPLE_TYPE :: "8 word" where "HNSW_NEIGHBOR_TUPLE_TYPE = 2"
definition HNSW_HEAPTIDS :: nat where "HNSW_HEAPTIDS = 10"
definition HNSW_UPDATE_ENTRY_GREATER :: nat where "HNSW_UPDATE_ENTRY_GREATER = 1"
definition HNSW_UPDATE_ENTRY_ALWAYS :: nat where "HNSW_UPDATE_ENTRY_ALWAYS = 2"

text \<open>
  \<^verbatim>\<open>sizeof\<close> and \<^verbatim>\<open>offsetof\<close> of the structures below: the element tuple has four bytes, ten heap
  TIDs, the neighbor TID and two unused bytes before its data; the neighbor tuple four bytes
  before its TIDs.
\<close>

definition sizeof_ItemPointerData :: nat where "sizeof_ItemPointerData = 6"
definition sizeof_HnswPageOpaqueData :: nat where "sizeof_HnswPageOpaqueData = 8"

definition offsetof_data :: nat where
  "offsetof_data = 4 + HNSW_HEAPTIDS * sizeof_ItemPointerData + sizeof_ItemPointerData + 2"

definition offsetof_indextids :: nat where "offsetof_indextids = 4"

definition HNSW_MAX_SIZE :: nat where
  "HNSW_MAX_SIZE = BLCKSZ - MAXALIGN SizeOfPageHeaderData - MAXALIGN sizeof_HnswPageOpaqueData
     - sizeof_ItemIdData"

definition HNSW_TUPLE_ALLOC_SIZE :: nat where
  "HNSW_TUPLE_ALLOC_SIZE = BLCKSZ"

definition HNSW_ELEMENT_TUPLE_SIZE :: "nat \<Rightarrow> nat" where
  "HNSW_ELEMENT_TUPLE_SIZE sz = MAXALIGN (offsetof_data + sz)"

definition HNSW_NEIGHBOR_TUPLE_SIZE :: "nat \<Rightarrow> nat \<Rightarrow> nat" where
  "HNSW_NEIGHBOR_TUPLE_SIZE lev m =
     MAXALIGN (offsetof_indextids + (lev + 2) * m * sizeof_ItemPointerData)"

definition HnswGetLayerM :: "nat \<Rightarrow> nat \<Rightarrow> nat" where
  "HnswGetLayerM m layer = (if layer = 0 then m * 2 else m)"

text \<open>The division comes before the subtraction; the result is an \<^verbatim>\<open>int\<close> when \<^verbatim>\<open>m\<close> is at most
  \<^verbatim>\<open>HNSW_MAX_M\<close>.\<close>

definition HnswGetMaxLevel :: "nat \<Rightarrow> nat" where
  "HnswGetMaxLevel m =
     min ((BLCKSZ - MAXALIGN SizeOfPageHeaderData - MAXALIGN sizeof_HnswPageOpaqueData
           - offsetof_indextids - sizeof_ItemIdData) div sizeof_ItemPointerData div m - 2) 255"

lemmas hnsw_size_defs =
  HNSW_MAX_SIZE_def HNSW_ELEMENT_TUPLE_SIZE_def HNSW_NEIGHBOR_TUPLE_SIZE_def offsetof_data_def
  offsetof_indextids_def sizeof_ItemPointerData_def sizeof_HnswPageOpaqueData_def
  HNSW_HEAPTIDS_def SizeOfPageHeaderData_def sizeof_ItemIdData_def BLCKSZ_def

subsection \<open>Structures\<close>

type_synonym eptr = "64 word"

record HnswCandidate =
  hc_element :: eptr
  hc_distance :: float4
  hc_closer :: bool

text \<open>
  \<open>na_items\<close> is the filled part of \<^verbatim>\<open>items\<close> (its length is the field \<^verbatim>\<open>length\<close>); \<open>na_alloc\<close> is the
  number of items the allocation has room for.
\<close>

record HnswNeighborArray =
  na_closerSet :: bool
  na_items :: "HnswCandidate list"
  na_alloc :: nat

text \<open>\<open>he_heaptids\<close> is the part of \<^verbatim>\<open>heaptids\<close> counted by \<^verbatim>\<open>heaptidsLength\<close>.\<close>

record 'v HnswElementData =
  he_next :: "eptr option"
  he_heaptids :: "ItemPointerData list"
  he_level :: "8 word"
  he_deleted :: "8 word"
  he_version :: "8 word"
  he_hash :: "32 word"
  he_neighbors :: "HnswNeighborArray list option"
  he_blkno :: BlockNumber
  he_offno :: OffsetNumber
  he_neighborOffno :: OffsetNumber
  he_neighborPage :: BlockNumber
  he_value :: "'v option"

record HnswSearchCandidate =
  sc_element :: eptr
  sc_distance :: float8

record HnswOptions =
  op_m :: nat
  op_efConstruction :: nat

record 'v HnswTypeInfo =
  ti_maxDimensions :: nat
  ti_normalize :: "'v \<Rightarrow> 'v result"
  ti_checkValue :: "('v \<Rightarrow> unit result) option"

record 'v HnswSupport =
  su_procinfo :: "'v \<Rightarrow> 'v \<Rightarrow> float8 result"
  su_normprocinfo :: "('v \<Rightarrow> float8 result) option"

record HnswMetaPageData =
  mp_magicNumber :: "32 word"
  mp_version :: "32 word"
  mp_dimensions :: "32 word"
  mp_m :: "16 word"
  mp_efConstruction :: "16 word"
  mp_entryBlkno :: BlockNumber
  mp_entryOffno :: OffsetNumber
  mp_entryLevel :: int
  mp_insertPage :: BlockNumber

record HnswPageOpaqueData =
  po_nextblkno :: BlockNumber
  po_unused :: "16 word"
  po_page_id :: "16 word"

text \<open>\<open>et_data\<close> is \<open>None\<close> once \<^verbatim>\<open>MarkDeleted\<close> has zeroed the value.\<close>

record 'v HnswElementTupleData =
  et_type :: "8 word"
  et_level :: "8 word"
  et_deleted :: "8 word"
  et_version :: "8 word"
  et_heaptids :: "ItemPointerData list"
  et_neighbortid :: ItemPointerData
  et_data :: "'v option"

record HnswNeighborTupleData =
  nt_type :: "8 word"
  nt_version :: "8 word"
  nt_count :: "16 word"
  nt_indextids :: "ItemPointerData list"

text \<open>
  What a line pointer of an element page refers to. Both tuple structures start with their
  type byte, which is what the code tests before it treats an item as one or the other;
  reading other fields through the wrong structure is \<open>BadAccess\<close>.
\<close>

datatype 'v hnsw_item =
    ETup "'v HnswElementTupleData"
  | NTup HnswNeighborTupleData

type_synonym 'v hnsw_page = "('v hnsw_item, HnswPageOpaqueData) page"

fun item_type :: "'v hnsw_item \<Rightarrow> 8 word" where
  "item_type (ETup etup) = et_type etup"
| "item_type (NTup ntup) = nt_type ntup"

definition HnswIsElementTuple :: "'v hnsw_item \<Rightarrow> bool" where
  "HnswIsElementTuple tup \<longleftrightarrow> item_type tup = HNSW_ELEMENT_TUPLE_TYPE"

definition HnswIsNeighborTuple :: "'v hnsw_item \<Rightarrow> bool" where
  "HnswIsNeighborTuple tup \<longleftrightarrow> item_type tup = HNSW_NEIGHBOR_TUPLE_TYPE"

fun as_etup :: "'v hnsw_item \<Rightarrow> 'v HnswElementTupleData result" where
  "as_etup (ETup etup) = Inr etup"
| "as_etup (NTup ntup) = Inl (BadAccess ''HnswElementTuple'')"

fun as_ntup :: "'v hnsw_item \<Rightarrow> HnswNeighborTupleData result" where
  "as_ntup (NTup ntup) = Inr ntup"
| "as_ntup (ETup etup) = Inl (BadAccess ''HnswNeighborTuple'')"

lemma as_etup_Inr_iff [simp]: "as_etup x = Inr etup \<longleftrightarrow> x = ETup etup"
  by (cases x) auto

lemma as_ntup_Inr_iff [simp]: "as_ntup x = Inr ntup \<longleftrightarrow> x = NTup ntup"
  by (cases x) auto

subsection \<open>The index relation\<close>

text \<open>
  An index relation: its options, the support functions of its operator class, its metapage
  (block 0) and its element pages (blocks 1, 2, \<dots>). \<open>rd_varsize\<close> is \<^verbatim>\<open>VARSIZE_ANY\<close> and
  \<open>rd_l2_normalize\<close> the normalization of the \<^verbatim>\<open>vector\<close> type. Reading past the last block is the
  storage manager's error.
\<close>

record 'v relation =
  rd_options :: "HnswOptions option"
  rd_distance_proc :: "'v \<Rightarrow> 'v \<Rightarrow> float8 result"
  rd_norm_proc :: "('v \<Rightarrow> float8 result) option"
  rd_type_info_proc :: "'v HnswTypeInfo option"
  rd_l2_normalize :: "'v \<Rightarrow> 'v result"
  rd_varsize :: "'v \<Rightarrow> nat"
  rd_meta :: HnswMetaPageData
  rd_blocks :: "'v hnsw_page list"

definition RelationGetNumberOfBlocks :: "'v relation \<Rightarrow> nat" where
  "RelationGetNumberOfBlocks index = Suc (length (rd_blocks index))"

definition ReadBuffer :: "'v relation \<Rightarrow> BlockNumber \<Rightarrow> 'v hnsw_page result" where
  "ReadBuffer index blkno =
     (if blkno = HNSW_METAPAGE_BLKNO then Inl (BadAccess ''metapage'')
      else if unat blkno - 1 < length (rd_blocks index) then Inr (rd_blocks index ! (unat blkno - 1))
      else Inl (Elog ''could not read block''))"

text \<open>The changed page goes back to its block when the buffer is marked dirty or logged.\<close>

definition WriteBuffer :: "'v relation \<Rightarrow> BlockNumber \<Rightarrow> 'v hnsw_page \<Rightarrow> 'v relation" where
  "WriteBuffer index blkno page =
     index\<lparr>rd_blocks := (rd_blocks index)[unat blkno - 1 := page]\<rparr>"

text \<open>The tuple an index TID refers to.\<close>

definition ReadItem :: "'v relation \<Rightarrow> BlockNumber \<Rightarrow> OffsetNumber \<Rightarrow> 'v hnsw_item result" where
  "ReadItem index blkno offno = bindE (ReadBuffer index blkno) (\<lambda>page. PageGetTuple page offno)"

definition HnswGetM :: "'v relation \<Rightarrow> nat" where
  "HnswGetM index = (case rd_options index of Some opts \<Rightarrow> op_m opts | None \<Rightarrow> HNSW_DEFAULT_M)"

definition HnswGetEfConstruction :: "'v relation \<Rightarrow> nat" where
  "HnswGetEfConstruction index =
     (case rd_options index of
        Some opts \<Rightarrow> op_efConstruction opts | None \<Rightarrow> HNSW_DEFAULT_EF_CONSTRUCTION)"

definition HnswInitSupport :: "'v relation \<Rightarrow> 'v HnswSupport" where
  "HnswInitSupport index =
     \<lparr>su_procinfo = rd_distance_proc index, su_normprocinfo = rd_norm_proc index\<rparr>"

definition HnswGetTypeInfo :: "'v relation \<Rightarrow> 'v HnswTypeInfo" where
  "HnswGetTypeInfo index =
     (case rd_type_info_proc index of
        None \<Rightarrow> \<lparr>ti_maxDimensions = HNSW_MAX_DIM, ti_normalize = rd_l2_normalize index,
                 ti_checkValue = None\<rparr>
      | Some info \<Rightarrow> info)"

definition HnswNormValue :: "'v HnswTypeInfo \<Rightarrow> 'v \<Rightarrow> 'v result" where
  "HnswNormValue typeInfo v = ti_normalize typeInfo v"

definition HnswCheckNorm :: "'v HnswSupport \<Rightarrow> 'v \<Rightarrow> bool result" where
  "HnswCheckNorm support v =
     (case su_normprocinfo support of
        None \<Rightarrow> Inl (BadAccess ''normprocinfo'')
      | Some norm \<Rightarrow> bindE (norm v) (\<lambda>d. Inr (float8_lt 0 d)))"

definition HnswFormIndexValue ::
  "'v \<Rightarrow> 'v HnswTypeInfo \<Rightarrow> 'v HnswSupport \<Rightarrow> 'v option result" where
  "HnswFormIndexValue v typeInfo support =
     bindE (case ti_checkValue typeInfo of None \<Rightarrow> Inr () | Some check \<Rightarrow> check v) (\<lambda>_.
       if su_normprocinfo support = None then Inr (Some v)
       else bindE (HnswCheckNorm support v) (\<lambda>nonzero.
         if \<not> nonzero then Inr None
         else bindE (HnswNormValue typeInfo v) (\<lambda>v'. Inr (Some v'))))"

definition HnswGetDistance :: "'v \<Rightarrow> 'v \<Rightarrow> 'v HnswSupport \<Rightarrow> float8 result" where
  "HnswGetDistance a b support = su_procinfo support a b"

text \<open>\<^verbatim>\<open>P_NEW\<close> extends the relation by one block; its number is the old number of blocks.\<close>

definition HnswInitPage :: "'v hnsw_page" where
  "HnswInitPage =
     PageInit BLCKSZ sizeof_HnswPageOpaqueData
       \<lparr>po_nextblkno = InvalidBlockNumber, po_unused = 0, po_page_id = HNSW_PAGE_ID\<rparr>"

definition HnswNewBuffer :: "'v relation \<Rightarrow> (BlockNumber \<times> 'v relation) result" where
  "HnswNewBuffer index =
     (if RelationGetNumberOfBlocks index < 2 ^ 32 - 1
      then Inr (word_of_nat (RelationGetNumberOfBlocks index),
                index\<lparr>rd_blocks := rd_blocks index @ [HnswInitPage]\<rparr>)
      else Inl (Elog ''cannot extend file''))"

subsection \<open>Element memory\<close>

text \<open>
  \<open>mem_addr i\<close> is the address the \<open>i\<close>-th allocation of an element gets, \<open>None\<close> when memory is
  exhausted. Nothing is assumed of the addresses except, in \<open>mem_ok\<close>, that an allocation
  never returns \<^verbatim>\<open>NULL\<close> or the address of another element.
\<close>

record 'v memory =
  mem_elems :: "eptr \<rightharpoonup> 'v HnswElementData"
  mem_count :: nat
  mem_addr :: "nat \<Rightarrow> eptr option"

definition HnswPtrAccess :: "'v memory \<Rightarrow> eptr \<Rightarrow> 'v HnswElementData result" where
  "HnswPtrAccess mem p = ofOption (BadAccess ''HnswElement'') (mem_elems mem p)"

definition element_store :: "'v memory \<Rightarrow> eptr \<Rightarrow> 'v HnswElementData \<Rightarrow> 'v memory" where
  "element_store mem p e = mem\<lparr>mem_elems := (mem_elems mem)(p \<mapsto> e)\<rparr>"

definition HnswAlloc :: "'v memory \<Rightarrow> 'v HnswElementData \<Rightarrow> (eptr \<times> 'v memory) result" where
  "HnswAlloc mem e =
     (case mem_addr mem (mem_count mem) of
        None \<Rightarrow> Inl out_of_memory
      | Some p \<Rightarrow>
          Inr (p, mem\<lparr>mem_elems := (mem_elems mem)(p \<mapsto> e), mem_count := Suc (mem_count mem)\<rparr>))"

definition mem_ok :: "'v memory \<Rightarrow> bool" where
  "mem_ok mem \<longleftrightarrow>
     (\<forall>i p. mem_addr mem i = Some p \<longrightarrow> p \<noteq> 0) \<and>
     (\<forall>i j p. mem_addr mem i = Some p \<longrightarrow> mem_addr mem j = Some p \<longrightarrow> i = j) \<and>
     (\<forall>p. mem_elems mem p \<noteq> None \<longrightarrow> (\<exists>i < mem_count mem. mem_addr mem i = Some p))"

text \<open>A structure fresh from \<^verbatim>\<open>palloc\<close>; the fields the caller does not set have no meaning.\<close>

definition blank_element :: "'v HnswElementData" where
  "blank_element =
     \<lparr>he_next = None, he_heaptids = [], he_level = 0, he_deleted = 0, he_version = 0, he_hash = 0,
      he_neighbors = None, he_blkno = 0, he_offno = 0, he_neighborOffno = 0, he_neighborPage = 0,
      he_value = None\<rparr>"

definition HnswInitNeighborArray :: "nat \<Rightarrow> HnswNeighborArray" where
  "HnswInitNeighborArray lm = \<lparr>na_closerSet = False, na_items = [], na_alloc = lm\<rparr>"

definition HnswInitNeighbors :: "'v HnswElementData \<Rightarrow> nat \<Rightarrow> 'v HnswElementData" where
  "HnswInitNeighbors element m =
     element\<lparr>he_neighbors :=
       Some (map (\<lambda>lc. HnswInitNeighborArray (HnswGetLayerM m lc)) [0..<Suc (unat (he_level element))])\<rparr>"

definition HnswGetNeighbors :: "'v HnswElementData \<Rightarrow> nat \<Rightarrow> HnswNeighborArray result" where
  "HnswGetNeighbors element lc =
     bindE (ofOption (BadAccess ''neighbors'') (he_neighbors element))
       (\<lambda>neighborList. array_get ''neighbors'' neighborList lc)"

definition HnswSetNeighbors ::
  "'v HnswElementData \<Rightarrow> nat \<Rightarrow> HnswNeighborArray \<Rightarrow> 'v HnswElementData result" where
  "HnswSetNeighbors element lc a =
     bindE (ofOption (BadAccess ''neighbors'') (he_neighbors element)) (\<lambda>neighborList.
       bindE (array_set ''neighbors'' neighborList lc a) (\<lambda>nl. Inr (element\<lparr>he_neighbors := Some nl\<rparr>)))"

definition HnswAddHeapTid ::
  "'v HnswElementData \<Rightarrow> ItemPointerData \<Rightarrow> 'v HnswElementData result" where
  "HnswAddHeapTid element heaptid =
     (if length (he_heaptids element) < HNSW_HEAPTIDS
      then Inr (element\<lparr>he_heaptids := he_heaptids element @ [heaptid]\<rparr>)
      else Inl (BadAccess ''heaptids''))"

text \<open>\<open>lev\<close> is the value of \<^verbatim>\<open>(int) (-log(RandomDouble()) * ml)\<close>.\<close>

definition HnswInitElement ::
  "'v memory \<Rightarrow> ItemPointerData \<Rightarrow> nat \<Rightarrow> int \<Rightarrow> nat \<Rightarrow> (eptr \<times> 'v memory) result" where
  "HnswInitElement mem heaptid m lev maxLevel =
     (let level = (if lev > int maxLevel then int maxLevel else lev) in
      bindE (HnswAddHeapTid (blank_element\<lparr>he_heaptids := []\<rparr>) heaptid) (\<lambda>element.
        HnswAlloc mem
          ((HnswInitNeighbors
             (element\<lparr>he_level := word_of_int level, he_deleted := 0, he_version := 1\<rparr>) m)
           \<lparr>he_value := None\<rparr>)))"

definition HnswInitElementFromBlock ::
  "'v memory \<Rightarrow> BlockNumber \<Rightarrow> OffsetNumber \<Rightarrow> (eptr \<times> 'v memory) result" where
  "HnswInitElementFromBlock mem blkno offno =
     HnswAlloc mem
       (blank_element\<lparr>he_blkno := blkno, he_offno := offno, he_neighbors := None, he_value := None\<rparr>)"

end
