(* ===== verification/Hnsw_Trace.thy ===== *)
theory Hnsw_Trace
  imports Hnsw_Types
begin

section \<open>Scan trace counters (src/hnsw.c, src/hnsw.h)\<close>

text \<open>
  The statistics a traced scan collects. The counters are unbounded here (\<^verbatim>\<open>int64\<close> in the source).
  Times are in clock ticks; the fields that no code writes after \<^verbatim>\<open>memset\<close> are left out. A page
  array is the allocation of \<^verbatim>\<open>capacity\<close> block numbers.
\<close>

record HnswTraceStats =
  ts_latency :: int
  ts_hnsw_search :: int
  ts_heap_fetch :: int
  ts_distance_compute_count :: int
  ts_visited_nodes :: int
  ts_heap_fetch_count :: int
  ts_index_element_loads :: int
  ts_index_element_page_runs :: int
  ts_index_element_distinct_pages :: int
  ts_last_element_page :: BlockNumber
  ts_index_neighbor_loads :: int
  ts_index_neighbor_page_runs :: int
  ts_index_neighbor_distinct_pages :: int
  ts_last_neighbor_page :: BlockNumber
  ts_blks_hit_before :: int
  ts_blks_read_before :: int
  ts_blks_hit_after :: int
  ts_blks_read_after :: int
  ts_idx_blks_hit :: int
  ts_idx_blks_read :: int
  ts_heap_blks_hit :: int
  ts_heap_blks_read :: int
  ts_element_pages_seen :: "BlockNumber list"
  ts_element_pages_capacity :: int
  ts_neighbor_pages_seen :: "BlockNumber list"
  ts_neighbor_pages_capacity :: int
  ts_returned_tids :: "ItemPointerData list"
  ts_returned_tids_capacity :: int
  ts_scan_start :: int
  ts_in_index_time :: int

text \<open>The linear search of the array, from index \<open>i\<close> for \<open>k\<close> entries.\<close>

fun page_seen :: "BlockNumber list \<Rightarrow> BlockNumber \<Rightarrow> nat \<Rightarrow> nat \<Rightarrow> bool result" where
  "page_seen seen blkno i 0 = Inr False"
| "page_seen seen blkno i (Suc k) =
     bindE (array_get ''pages_seen'' seen i) (\<lambda>p.
       if p = blkno then Inr True else page_seen seen blkno (Suc i) k)"

text \<open>\<open>page_added\<close> is the write \<^verbatim>\<open>pages_seen[distinct] = blkno\<close> under its guard.\<close>

definition page_added :: "BlockNumber list \<Rightarrow> int \<Rightarrow> int \<Rightarrow> BlockNumber \<Rightarrow> BlockNumber list result" where
  "page_added seen capacity n blkno =
     (if n < capacity then array_set ''pages_seen'' seen (nat n) blkno else Inr seen)"

definition element_page_run :: "HnswTraceStats \<Rightarrow> BlockNumber \<Rightarrow> HnswTraceStats" where
  "element_page_run t blkno =
     (let t1 = t\<lparr>ts_index_element_loads := ts_index_element_loads t + 1\<rparr>;
          t2 = (if ts_index_element_loads t1 = 1 \<or> blkno \<noteq> ts_last_element_page t1
                then t1\<lparr>ts_index_element_page_runs := ts_index_element_page_runs t1 + 1\<rparr>
                else t1)
      in t2\<lparr>ts_last_element_page := blkno\<rparr>)"

definition HnswTraceRecordElementPage ::
  "HnswTraceStats option \<Rightarrow> BlockNumber \<Rightarrow> HnswTraceStats option result" where
  "HnswTraceRecordElementPage tr blkno =
     (case tr of
        None \<Rightarrow> Inr None
      | Some t0 \<Rightarrow>
          let t = element_page_run t0 blkno;
              n = ts_index_element_distinct_pages t
          in bindE (page_seen (ts_element_pages_seen t) blkno 0 (nat n)) (\<lambda>found.
               if found then Inr (Some t)
               else bindE (page_added (ts_element_pages_seen t) (ts_element_pages_capacity t) n blkno)
                 (\<lambda>seen. Inr (Some (t\<lparr>ts_element_pages_seen := seen,
                                      ts_index_element_distinct_pages := n + 1\<rparr>)))))"

definition neighbor_page_run :: "HnswTraceStats \<Rightarrow> BlockNumber \<Rightarrow> HnswTraceStats" where
  "neighbor_page_run t blkno =
     (let t1 = t\<lparr>ts_index_neighbor_loads := ts_index_neighbor_loads t + 1\<rparr>;
          t2 = (if ts_index_neighbor_loads t1 = 1 \<or> blkno \<noteq> ts_last_neighbor_page t1
                then t1\<lparr>ts_index_neighbor_page_runs := ts_index_neighbor_page_runs t1 + 1\<rparr>
                else t1)
      in t2\<lparr>ts_last_neighbor_page := blkno\<rparr>)"

definition HnswTraceRecordNeighborPage ::
  "HnswTraceStats option \<Rightarrow> BlockNumber \<Rightarrow> HnswTraceStats option result" where
  "HnswTraceRecordNeighborPage tr blkno =
     (case tr of
        None \<Rightarrow> Inr None
      | Some t0 \<Rightarrow>
          let t = neighbor_page_run t0 blkno;
              n = ts_index_neighbor_distinct_pages t
          in bindE (page_seen (ts_neighbor_pages_seen t) blkno 0 (nat n)) (\<lambda>found.
               if found then Inr (Some t)
               else bindE (page_added (ts_neighbor_pages_seen t) (ts_neighbor_pages_capacity t) n blkno)
                 (\<lambda>seen. Inr (Some (t\<lparr>ts_neighbor_pages_seen := seen,
                                      ts_index_neighbor_distinct_pages := n + 1\<rparr>)))))"

subsection \<open>What the page counters count\<close>

lemma page_seen_in_range:
  "i + k \<le> length seen \<Longrightarrow> page_seen seen b i k = Inr (b \<in> set (take k (drop i seen)))"
proof (induction k arbitrary: i)
  case (Suc k)
  then have "take (Suc k) (drop i seen) = seen ! i # take k (drop (Suc i) seen)"
    by (simp add: Cons_nth_drop_Suc [symmetric])
  with Suc show ?case by (auto simp: array_get_def)
qed simp

lemma page_seen_out_of_range:
  "i + k > length seen \<Longrightarrow> i \<le> length seen \<Longrightarrow> b \<notin> set (drop i seen) \<Longrightarrow>
     page_seen seen b i k = Inl (BadAccess ''pages_seen'')"
proof (induction k arbitrary: i)
  case (Suc k)
  show ?case
  proof (cases "i = length seen")
    case False
    with Suc have "b \<noteq> seen ! i" "b \<notin> set (drop (Suc i) seen)"
      by (auto simp: Cons_nth_drop_Suc [symmetric])
    with Suc False show ?thesis by (simp add: array_get_def)
  qed (simp add: array_get_def)
qed simp

text \<open>
  \<open>rec\<close> is a page log: it counts loads, runs (maximal blocks of equal consecutive pages) and
  distinct pages of the sequence of pages it was given. Both record functions keep this
  contract on their own fields.
\<close>

locale page_log =
  fixes rec :: "'s \<Rightarrow> BlockNumber \<Rightarrow> 's result"
    and loads runs dist cap :: "'s \<Rightarrow> int" and lst :: "'s \<Rightarrow> BlockNumber"
    and seen :: "'s \<Rightarrow> BlockNumber list"
  assumes rec_counts: "rec s b = Inr s' \<Longrightarrow> loads s' = loads s + 1 \<and> lst s' = b \<and> cap s' = cap s \<and>
      runs s' = (if loads s + 1 = 1 \<or> b \<noteq> lst s then runs s + 1 else runs s)"
    and rec_found: "page_seen (seen s) b 0 (nat (dist s)) = Inr True \<Longrightarrow>
      \<exists>s'. rec s b = Inr s' \<and> dist s' = dist s \<and> seen s' = seen s"
    and rec_new: "page_seen (seen s) b 0 (nat (dist s)) = Inr False \<Longrightarrow>
      page_added (seen s) (cap s) (dist s) b = Inr sn \<Longrightarrow>
      \<exists>s'. rec s b = Inr s' \<and> dist s' = dist s + 1 \<and> seen s' = sn"
    and rec_error: "page_seen (seen s) b 0 (nat (dist s)) = Inl e \<Longrightarrow> rec s b = Inl e"
begin

definition logged :: "'s \<Rightarrow> BlockNumber list \<Rightarrow> bool" where
  "logged s bs \<longleftrightarrow>
     loads s = int (length bs) \<and> runs s = int (length (remdups_adj bs)) \<and>
     (bs \<noteq> [] \<longrightarrow> lst s = last bs) \<and> dist s = int (card (set bs)) \<and>
     cap s = int (length (seen s)) \<and> card (set bs) \<le> length (seen s) \<and>
     set (take (card (set bs)) (seen s)) = set bs"

lemma length_remdups_adj_snoc:
  "length (remdups_adj (bs @ [b])) =
     (if bs \<noteq> [] \<and> last bs = b then length (remdups_adj bs) else Suc (length (remdups_adj bs)))"
  by (cases bs rule: rev_cases) (auto simp: remdups_adj_append_two)

lemma logged_seen:
  "logged s bs \<Longrightarrow> page_seen (seen s) b 0 (nat (dist s)) = Inr (b \<in> set bs)"
  by (simp add: logged_def page_seen_in_range)

lemma logged_counts:
  assumes "logged s bs" "rec s b = Inr s'"
  shows "loads s' = int (length (bs @ [b]))" "lst s' = b" "cap s' = cap s"
    "runs s' = int (length (remdups_adj (bs @ [b])))"
  using rec_counts [OF assms(2)] assms(1)
  by (auto simp: logged_def length_remdups_adj_snoc)

lemma logged_step:
  assumes l: "logged s bs" and room: "int (card (set (bs @ [b]))) \<le> cap s"
  shows "\<exists>s'. rec s b = Inr s' \<and> logged s' (bs @ [b]) \<and> cap s' = cap s"
proof (cases "b \<in> set bs")
  case True
  then have "page_seen (seen s) b 0 (nat (dist s)) = Inr True" using logged_seen [OF l] by simp
  then obtain s' where s': "rec s b = Inr s'" "dist s' = dist s" "seen s' = seen s"
    using rec_found by blast
  then show ?thesis
    using logged_counts [OF l s'(1)] l True by (simp add: logged_def insert_absorb)
next
  case False
  let ?n = "card (set bs)"
  have n: "?n < length (seen s)" using False room l by (simp add: logged_def)
  then have "page_added (seen s) (cap s) (dist s) b = Inr ((seen s)[?n := b])"
    using l by (simp add: page_added_def logged_def)
  moreover have "page_seen (seen s) b 0 (nat (dist s)) = Inr False"
    using logged_seen [OF l] False by simp
  ultimately obtain s' where s': "rec s b = Inr s'" "dist s' = dist s + 1"
      "seen s' = (seen s)[?n := b]"
    using rec_new by blast
  have "take (Suc ?n) ((seen s)[?n := b]) = take ?n (seen s) @ [b]"
    using n by (simp add: take_Suc_conv_app_nth)
  then show ?thesis
    using logged_counts [OF l s'(1)] l s' False n by (simp add: logged_def)
qed

lemma logged_foldE:
  assumes "logged s as" "int (card (set (as @ bs))) \<le> cap s"
  shows "\<exists>s'. foldE (\<lambda>b s. rec s b) bs s = Inr s' \<and> logged s' (as @ bs)"
  using assms
proof (induction bs arbitrary: s as)
  case (Cons b bs)
  have "card (set (as @ [b])) \<le> card (set (as @ b # bs))"
    by (intro card_mono) auto
  then have "int (card (set (as @ [b]))) \<le> cap s" using Cons.prems(2) by linarith
  from logged_step [OF Cons.prems(1) this] obtain s1
    where "rec s b = Inr s1" "logged s1 (as @ [b])" "cap s1 = cap s" by blast
  then show ?case using Cons.IH [of s1 "as @ [b]"] Cons.prems(2) by simp
qed simp

text \<open>
  Once the array is full, the next new page is counted without being stored, and from then on
  the search for a page that is not in the array runs past its end.
\<close>

lemma full_log_overruns:
  assumes l: "logged s bs" and full: "int (card (set bs)) = cap s" and b: "b \<notin> set bs"
    and c: "c \<notin> set bs"
  shows "bindE (rec s b) (\<lambda>s'. rec s' c) = Inl (BadAccess ''pages_seen'')"
proof -
  have "page_added (seen s) (cap s) (dist s) b = Inr (seen s)"
    using l full by (simp add: page_added_def logged_def)
  moreover have "page_seen (seen s) b 0 (nat (dist s)) = Inr False"
    using logged_seen [OF l] b by simp
  ultimately obtain s' where s': "rec s b = Inr s'" "dist s' = dist s + 1" "seen s' = seen s"
    using rec_new by blast
  have "set (seen s) = set bs" using l full by (simp add: logged_def)
  then have "page_seen (seen s') c 0 (nat (dist s')) = Inl (BadAccess ''pages_seen'')"
    using l full c s' by (intro page_seen_out_of_range) (simp_all add: logged_def)
  then show ?thesis using s'(1) rec_error by simp
qed

end

definition element_log :: "HnswTraceStats \<Rightarrow> BlockNumber \<Rightarrow> HnswTraceStats result" where
  "element_log t b = bindE (HnswTraceRecordElementPage (Some t) b) (ofOption (BadAccess ''trace''))"

definition neighbor_log :: "HnswTraceStats \<Rightarrow> BlockNumber \<Rightarrow> HnswTraceStats result" where
  "neighbor_log t b = bindE (HnswTraceRecordNeighborPage (Some t) b) (ofOption (BadAccess ''trace''))"

lemma element_page_run_simps [simp]:
  "ts_index_element_loads (element_page_run t b) = ts_index_element_loads t + 1"
  "ts_last_element_page (element_page_run t b) = b"
  "ts_element_pages_capacity (element_page_run t b) = ts_element_pages_capacity t"
  "ts_index_element_distinct_pages (element_page_run t b) = ts_index_element_distinct_pages t"
  "ts_element_pages_seen (element_page_run t b) = ts_element_pages_seen t"
  "ts_index_element_page_runs (element_page_run t b) =
     (if ts_index_element_loads t + 1 = 1 \<or> b \<noteq> ts_last_element_page t
      then ts_index_element_page_runs t + 1 else ts_index_element_page_runs t)"
  by (simp_all add: element_page_run_def Let_def)

interpretation elog: page_log element_log ts_index_element_loads ts_index_element_page_runs
  ts_index_element_distinct_pages ts_element_pages_capacity ts_last_element_page
  ts_element_pages_seen
proof unfold_locales
  fix s s' b
  assume "element_log s b = Inr s'"
  then show "ts_index_element_loads s' = ts_index_element_loads s + 1 \<and> ts_last_element_page s' = b \<and>
      ts_element_pages_capacity s' = ts_element_pages_capacity s \<and>
      ts_index_element_page_runs s' =
        (if ts_index_element_loads s + 1 = 1 \<or> b \<noteq> ts_last_element_page s
         then ts_index_element_page_runs s + 1 else ts_index_element_page_runs s)"
    unfolding element_log_def HnswTraceRecordElementPage_def Let_def option.case
    by (elim bindE_InrE) (auto split: if_splits)
qed (simp_all add: element_log_def HnswTraceRecordElementPage_def Let_def)

lemma neighbor_page_run_simps [simp]:
  "ts_index_neighbor_loads (neighbor_page_run t b) = ts_index_neighbor_loads t + 1"
  "ts_last_neighbor_page (neighbor_page_run t b) = b"
  "ts_neighbor_pages_capacity (neighbor_page_run t b) = ts_neighbor_pages_capacity t"
  "ts_index_neighbor_distinct_pages (neighbor_page_run t b) = ts_index_neighbor_distinct_pages t"
  "ts_neighbor_pages_seen (neighbor_page_run t b) = ts_neighbor_pages_seen t"
  "ts_index_neighbor_page_runs (neighbor_page_run t b) =
     (if ts_index_neighbor_loads t + 1 = 1 \<or> b \<noteq> ts_last_neighbor_page t
      then ts_index_neighbor_page_runs t + 1 else ts_index_neighbor_page_runs t)"
  by (simp_all add: neighbor_page_run_def Let_def)

interpretation nlog: page_log neighbor_log ts_index_neighbor_loads ts_index_neighbor_page_runs
  ts_index_neighbor_distinct_pages ts_neighbor_pages_capacity ts_last_neighbor_page
  ts_neighbor_pages_seen
proof unfold_locales
  fix s s' b
  assume "neighbor_log s b = Inr s'"
  then show "ts_index_neighbor_loads s' = ts_index_neighbor_loads s + 1 \<and> ts_last_neighbor_page s' = b \<and>
      ts_neighbor_pages_capacity s' = ts_neighbor_pages_capacity s \<and>
      ts_index_neighbor_page_runs s' =
        (if ts_index_neighbor_loads s + 1 = 1 \<or> b \<noteq> ts_last_neighbor_page s
         then ts_index_neighbor_page_runs s + 1 else ts_index_neighbor_page_runs s)"
    unfolding neighbor_log_def HnswTraceRecordNeighborPage_def Let_def option.case
    by (elim bindE_InrE) (auto split: if_splits)
qed (simp_all add: neighbor_log_def HnswTraceRecordNeighborPage_def Let_def)

end
