(* ===== verification/Hnsw_Storage.thy ===== *)
theory Hnsw_Storage
  imports Hnsw_Trace
begin

section \<open>Elements on disk (src/hnswutils.c)\<close>

text \<open>
  Reading and writing the metapage, the conversion between elements in memory and their two
  tuples, and loading elements and neighbor TIDs from the index. Buffer locks and write-ahead
  logging do not change what one backend computes and are left out.
\<close>

subsection \<open>Metapage\<close>

definition HnswGetMetaPageInfo ::
  "'v relation \<Rightarrow> bool \<Rightarrow> 'v memory \<Rightarrow> (nat \<times> eptr option \<times> 'v memory) result" where
  "HnswGetMetaPageInfo index wantEntry mem =
     (let metap = rd_meta index in
      if mp_magicNumber metap \<noteq> HNSW_MAGIC_NUMBER then Inl (Elog ''hnsw index is not valid'')
      else if wantEntry \<and> BlockNumberIsValid (mp_entryBlkno metap)
      then bindE (HnswInitElementFromBlock mem (mp_entryBlkno metap) (mp_entryOffno metap)) (\<lambda>(p, mem1).
             bindE (HnswPtrAccess mem1 p) (\<lambda>e.
               Inr (unat (mp_m metap), Some p,
                    element_store mem1 p (e\<lparr>he_level := word_of_int (mp_entryLevel metap)\<rparr>))))
      else Inr (unat (mp_m metap), None, mem))"

definition HnswGetEntryPoint :: "'v relation \<Rightarrow> 'v memory \<Rightarrow> (eptr option \<times> 'v memory) result" where
  "HnswGetEntryPoint index mem =
     bindE (HnswGetMetaPageInfo index True mem) (\<lambda>(m, ep, mem'). Inr (ep, mem'))"

definition HnswUpdateMetaPageInfo ::
  "HnswMetaPageData \<Rightarrow> nat \<Rightarrow> 'v HnswElementData option \<Rightarrow> BlockNumber \<Rightarrow> HnswMetaPageData" where
  "HnswUpdateMetaPageInfo metap updateEntry entryPoint insertPage =
     (let metap1 =
        (if updateEntry \<noteq> 0
         then (case entryPoint of
                 None \<Rightarrow> metap\<lparr>mp_entryBlkno := InvalidBlockNumber,
                              mp_entryOffno := InvalidOffsetNumber, mp_entryLevel := -1\<rparr>
               | Some e \<Rightarrow>
                   if uint (he_level e) > mp_entryLevel metap \<or> updateEntry = HNSW_UPDATE_ENTRY_ALWAYS
                   then metap\<lparr>mp_entryBlkno := he_blkno e, mp_entryOffno := he_offno e,
                              mp_entryLevel := uint (he_level e)\<rparr>
                   else metap)
         else metap)
      in if BlockNumberIsValid insertPage then metap1\<lparr>mp_insertPage := insertPage\<rparr> else metap1)"

definition HnswUpdateMetaPage ::
  "'v relation \<Rightarrow> 'v memory \<Rightarrow> nat \<Rightarrow> eptr option \<Rightarrow> BlockNumber \<Rightarrow> 'v relation result" where
  "HnswUpdateMetaPage index mem updateEntry entryPoint insertPage =
     (case entryPoint of
        None \<Rightarrow> Inr (index\<lparr>rd_meta :=
                  HnswUpdateMetaPageInfo (rd_meta index) updateEntry
                    (None :: 'v HnswElementData option) insertPage\<rparr>)
      | Some p \<Rightarrow> bindE (HnswPtrAccess mem p) (\<lambda>e.
          Inr (index\<lparr>rd_meta :=
            HnswUpdateMetaPageInfo (rd_meta index) updateEntry (Some e) insertPage\<rparr>)))"

subsection \<open>Tuples\<close>

text \<open>Zeroed memory from \<^verbatim>\<open>palloc0\<close>, as a tuple of either kind.\<close>

definition etup_zero :: "'v HnswElementTupleData" where
  "etup_zero = \<lparr>et_type = 0, et_level = 0, et_deleted = 0, et_version = 0,
     et_heaptids = replicate HNSW_HEAPTIDS (ItemPointerSet 0 0), et_neighbortid = ItemPointerSet 0 0,
     et_data = None\<rparr>"

definition ntup_zero :: HnswNeighborTupleData where
  "ntup_zero = \<lparr>nt_type = 0, nt_version = 0, nt_count = 0, nt_indextids = []\<rparr>"

definition HnswSetElementTuple ::
  "'v HnswElementTupleData \<Rightarrow> 'v HnswElementData \<Rightarrow> 'v HnswElementTupleData result" where
  "HnswSetElementTuple etup element =
     bindE (ofOption (BadAccess ''value'') (he_value element)) (\<lambda>v.
       Inr (etup\<lparr>et_type := HNSW_ELEMENT_TUPLE_TYPE,
                 et_level := he_level element,
                 et_deleted := 0,
                 et_version := he_version element,
                 et_heaptids := map (\<lambda>i. if i < length (he_heaptids element) then he_heaptids element ! i
                                         else ItemPointerSetInvalid) [0..<HNSW_HEAPTIDS],
                 et_data := Some v\<rparr>))"

text \<open>The slot \<open>i\<close> of one layer, the slots of one layer, and all layers from the top down.\<close>

definition neighbor_slot :: "'v memory \<Rightarrow> HnswNeighborArray \<Rightarrow> nat \<Rightarrow> ItemPointerData result" where
  "neighbor_slot mem neighbors i =
     (if i < length (na_items neighbors)
      then bindE (HnswPtrAccess mem (hc_element (na_items neighbors ! i))) (\<lambda>hce.
             Inr (ItemPointerSet (he_blkno hce) (he_offno hce)))
      else Inr ItemPointerSetInvalid)"

definition neighbor_layer ::
  "'v memory \<Rightarrow> 'v HnswElementData \<Rightarrow> nat \<Rightarrow> nat \<Rightarrow> ItemPointerData list result" where
  "neighbor_layer mem e m lc =
     bindE (HnswGetNeighbors e lc) (\<lambda>neighbors.
       mapE (neighbor_slot mem neighbors) [0..<HnswGetLayerM m lc])"

definition HnswSetNeighborTuple ::
  "'v memory \<Rightarrow> HnswNeighborTupleData \<Rightarrow> 'v HnswElementData \<Rightarrow> nat \<Rightarrow> HnswNeighborTupleData result" where
  "HnswSetNeighborTuple mem ntup e m =
     bindE (mapE (neighbor_layer mem e m) (rev [0..<Suc (unat (he_level e))])) (\<lambda>layers.
       Inr (ntup\<lparr>nt_type := HNSW_NEIGHBOR_TUPLE_TYPE,
                 nt_indextids := concat layers,
                 nt_count := word_of_nat (length (concat layers)),
                 nt_version := he_version e\<rparr>))"

definition HnswLoadElementFromTuple ::
  "'v HnswElementData \<Rightarrow> 'v HnswElementTupleData \<Rightarrow> bool \<Rightarrow> bool \<Rightarrow> 'v HnswElementData result" where
  "HnswLoadElementFromTuple element etup loadHeaptids loadVec =
     (let element1 = element\<lparr>he_level := et_level etup,
                             he_deleted := et_deleted etup,
                             he_version := et_version etup,
                             he_neighborPage := ItemPointerGetBlockNumber (et_neighbortid etup),
                             he_neighborOffno := ItemPointerGetOffsetNumber (et_neighbortid etup),
                             he_heaptids := []\<rparr>
      in bindE (if loadHeaptids
                then foldE (\<lambda>tid e. HnswAddHeapTid e tid)
                       (takeWhile ItemPointerIsValid (et_heaptids etup)) element1
                else Inr element1) (\<lambda>element2.
           Inr (if loadVec then element2\<lparr>he_value := et_data etup\<rparr> else element2)))"

subsection \<open>Loading\<close>

text \<open>
  \<^verbatim>\<open>HnswLoadElementImpl\<close>: \<open>wantDistance\<close> is \<^verbatim>\<open>distance != NULL\<close>, \<open>q\<close> is \<^verbatim>\<open>q->value\<close> (\<open>None\<close> for a null
  query), \<open>element\<close> is \<^verbatim>\<open>*element\<close>. The result is the distance (meaningful when wanted), the new
  \<^verbatim>\<open>*element\<close>, the memory and the trace.
\<close>

definition element_distance ::
  "bool \<Rightarrow> 'v option \<Rightarrow> 'v HnswElementTupleData \<Rightarrow> 'v HnswSupport \<Rightarrow> HnswTraceStats option
    \<Rightarrow> (float8 \<times> HnswTraceStats option) result" where
  "element_distance wantDistance q etup support trace =
     (if \<not> wantDistance then Inr (0, trace)
      else case q of
        None \<Rightarrow> Inr (0, trace)
      | Some qv \<Rightarrow>
          bindE (ofOption (BadAccess ''data'') (et_data etup)) (\<lambda>v.
            bindE (HnswGetDistance qv v support) (\<lambda>d.
              Inr (d, map_option (\<lambda>t. t\<lparr>ts_distance_compute_count := ts_distance_compute_count t + 1\<rparr>)
                       trace))))"

definition HnswLoadElementImpl ::
  "BlockNumber \<Rightarrow> OffsetNumber \<Rightarrow> bool \<Rightarrow> 'v option \<Rightarrow> 'v relation \<Rightarrow> 'v HnswSupport \<Rightarrow> bool
    \<Rightarrow> float8 option \<Rightarrow> eptr option \<Rightarrow> HnswTraceStats option \<Rightarrow> 'v memory
    \<Rightarrow> (float8 \<times> eptr option \<times> HnswTraceStats option \<times> 'v memory) result" where
  "HnswLoadElementImpl blkno offno wantDistance q index support loadVec maxDistance element trace mem =
     bindE (ReadItem index blkno offno) (\<lambda>item.
     bindE (as_etup item) (\<lambda>etup.
     if et_deleted etup \<noteq> 0 then Inl (Elog ''cannot load deleted element'')
     else
       bindE (element_distance wantDistance q etup support trace) (\<lambda>(distance, trace1).
       bindE (if \<not> wantDistance \<or> maxDistance = None \<or> float8_lt distance (the maxDistance)
              then bindE (case element of
                            None \<Rightarrow> HnswInitElementFromBlock mem blkno offno
                          | Some p \<Rightarrow> Inr (p, mem)) (\<lambda>(p, mem1).
                   bindE (HnswPtrAccess mem1 p) (\<lambda>e.
                   bindE (HnswLoadElementFromTuple e etup True loadVec) (\<lambda>e'.
                   Inr (Some p, element_store mem1 p e'))))
              else Inr (element, mem)) (\<lambda>(element1, mem1).
       bindE (HnswTraceRecordElementPage trace1 blkno) (\<lambda>trace2.
       Inr (distance, element1, trace2, mem1))))))"

definition HnswLoadElement ::
  "eptr \<Rightarrow> bool \<Rightarrow> 'v option \<Rightarrow> 'v relation \<Rightarrow> 'v HnswSupport \<Rightarrow> bool \<Rightarrow> float8 option
    \<Rightarrow> 'v memory \<Rightarrow> (float8 \<times> 'v memory) result" where
  "HnswLoadElement element wantDistance q index support loadVec maxDistance mem =
     bindE (HnswPtrAccess mem element) (\<lambda>e.
     bindE (HnswLoadElementImpl (he_blkno e) (he_offno e) wantDistance q index support loadVec
              maxDistance (Some element) None mem) (\<lambda>(distance, element1, trace, mem1).
     Inr (distance, mem1)))"

definition GetElementDistance ::
  "'v memory \<Rightarrow> eptr \<Rightarrow> 'v option \<Rightarrow> 'v HnswSupport \<Rightarrow> float8 result" where
  "GetElementDistance mem element q support =
     bindE (HnswPtrAccess mem element) (\<lambda>e.
     bindE (ofOption (BadAccess ''value'') (he_value e)) (\<lambda>v.
     bindE (ofOption (BadAccess ''query'') q) (\<lambda>qv.
     HnswGetDistance qv v support)))"

text \<open>
  \<^verbatim>\<open>None\<close> stands for the answer \<^verbatim>\<open>false\<close>: the tuple was deleted or replaced since the element was
  read. The copy must lie inside the tuple's array.
\<close>

definition HnswLoadNeighborTids ::
  "'v HnswElementData \<Rightarrow> 'v relation \<Rightarrow> nat \<Rightarrow> nat \<Rightarrow> nat \<Rightarrow> HnswTraceStats option
    \<Rightarrow> (ItemPointerData list option \<times> HnswTraceStats option) result" where
  "HnswLoadNeighborTids element index m lm lc trace =
     bindE (ReadItem index (he_neighborPage element) (he_neighborOffno element)) (\<lambda>item.
     bindE (as_ntup item) (\<lambda>ntup.
     if nt_version ntup \<noteq> he_version element \<or>
        unat (nt_count ntup) \<noteq> (unat (he_level element) + 2) * m
     then Inr (None, trace)
     else
       let start = (int (unat (he_level element)) - int lc) * int m in
       if start < 0 \<or> nat start + lm > length (nt_indextids ntup)
       then Inl (BadAccess ''indextids'')
       else bindE (HnswTraceRecordNeighborPage trace (he_neighborPage element)) (\<lambda>trace1.
              Inr (Some (take lm (drop (nat start) (nt_indextids ntup))), trace1))))"

subsection \<open>Tuple sizes\<close>

lemma HNSW_MAX_SIZE_eq: "HNSW_MAX_SIZE = 8156"
  by (simp add: hnsw_size_defs MAXALIGN_def)

text \<open>The slots of a neighbor tuple up to the maximal level fit on a page.\<close>

lemma HnswGetMaxLevel_slots:
  assumes "2 \<le> m" "m \<le> 100" "lev \<le> HnswGetMaxLevel m"
  shows "(lev + 2) * m \<le> 1358" "lev \<le> 255"
proof -
  have "2 \<le> 1358 div m" using assms(1,2) by (simp add: less_eq_div_iff_mult_less_eq)
  moreover have lev: "lev \<le> 1358 div m - 2" "lev \<le> 255"
    using assms(3) by (simp_all add: HnswGetMaxLevel_def hnsw_size_defs MAXALIGN_def)
  ultimately have "lev + 2 \<le> 1358 div m" by linarith
  then have "(lev + 2) * m \<le> 1358 div m * m" by (rule mult_le_mono1)
  also have "\<dots> \<le> 1358" by (rule div_times_less_eq_dividend)
  finally show "(lev + 2) * m \<le> 1358" .
  show "lev \<le> 255" by (rule lev(2))
qed

lemma neighbor_tuple_size_bound:
  assumes "2 \<le> m" "m \<le> 100" "lev \<le> HnswGetMaxLevel m"
  shows "HNSW_NEIGHBOR_TUPLE_SIZE lev m \<le> 8152"
proof -
  have "offsetof_indextids + (lev + 2) * m * sizeof_ItemPointerData \<le> 8152"
    using HnswGetMaxLevel_slots(1) [OF assms]
    by (simp add: offsetof_indextids_def sizeof_ItemPointerData_def)
  from MAXALIGN_mono [OF this] show ?thesis
    by (simp add: HNSW_NEIGHBOR_TUPLE_SIZE_def MAXALIGN_def)
qed

subsection \<open>Round trips\<close>

lemma foldE_HnswAddHeapTid:
  "length (he_heaptids e) + length tids \<le> HNSW_HEAPTIDS \<Longrightarrow>
     foldE (\<lambda>tid e. HnswAddHeapTid e tid) tids e = Inr (e\<lparr>he_heaptids := he_heaptids e @ tids\<rparr>)"
  by (induction tids arbitrary: e) (simp_all add: HnswAddHeapTid_def)

lemma HnswLoadElementFromTuple_eq:
  assumes "length (et_heaptids etup) = HNSW_HEAPTIDS"
  shows "HnswLoadElementFromTuple e etup loadHeaptids loadVec =
    Inr (e\<lparr>he_level := et_level etup, he_deleted := et_deleted etup, he_version := et_version etup,
           he_neighborPage := ItemPointerGetBlockNumber (et_neighbortid etup),
           he_neighborOffno := ItemPointerGetOffsetNumber (et_neighbortid etup),
           he_heaptids := if loadHeaptids then takeWhile ItemPointerIsValid (et_heaptids etup) else [],
           he_value := if loadVec then et_data etup else he_value e\<rparr>)"
  using assms length_takeWhile_le [of ItemPointerIsValid "et_heaptids etup"]
  by (simp add: HnswLoadElementFromTuple_def Let_def foldE_HnswAddHeapTid)

lemma takeWhile_padded:
  assumes "\<forall>x \<in> set xs. P x" "\<not> P y" "length xs \<le> n"
  shows "takeWhile P (map (\<lambda>i. if i < length xs then xs ! i else y) [0..<n]) = xs"
proof -
  have "map (\<lambda>i. if i < length xs then xs ! i else y) [0..<n] = xs @ replicate (n - length xs) y"
    using assms(3) by (auto simp: list_eq_iff_nth_eq nth_append)
  with assms show ?thesis by (cases "n - length xs") auto
qed

lemma element_tuple_fields:
  assumes "HnswSetElementTuple etup e = Inr t"
  shows "et_type t = HNSW_ELEMENT_TUPLE_TYPE" "et_level t = he_level e" "et_deleted t = 0"
    "et_version t = he_version e" "et_data t = he_value e" "et_neighbortid t = et_neighbortid etup"
    "length (et_heaptids t) = HNSW_HEAPTIDS" "et_data t \<noteq> None"
    "length (he_heaptids e) \<le> HNSW_HEAPTIDS \<Longrightarrow> \<forall>tid \<in> set (he_heaptids e). ItemPointerIsValid tid
      \<Longrightarrow> takeWhile ItemPointerIsValid (et_heaptids t) = he_heaptids e"
  using assms by (auto simp: HnswSetElementTuple_def takeWhile_padded bindE_Inr_iff)

lemma neighbor_layer_length:
  "neighbor_layer mem e m lc = Inr tids \<Longrightarrow> length tids = HnswGetLayerM m lc"
  by (auto simp: neighbor_layer_def dest!: mapE_length)

lemma neighbor_layer_nth:
  assumes "neighbor_layer mem e m lc = Inr tids" "HnswGetNeighbors e lc = Inr na"
    "i < HnswGetLayerM m lc"
  shows "neighbor_slot mem na i = Inr (tids ! i)"
  using assms mapE_nth [of "neighbor_slot mem na" "[0..<HnswGetLayerM m lc]" tids i]
  by (auto simp: neighbor_layer_def)

lemma layer_fits:
  assumes "lc \<le> lev"
  shows "(lev - lc) * m + HnswGetLayerM m lc \<le> (lev + 2) * m"
proof (cases "lc = 0")
  case False
  then have "(lev - lc + 1) * m \<le> (lev + 2) * m" by (intro mult_le_mono1) simp
  with False show ?thesis by (simp add: HnswGetLayerM_def)
qed (simp add: HnswGetLayerM_def algebra_simps)

lemma neighbor_tuple_fields:
  assumes "HnswSetNeighborTuple mem ntup e m = Inr t"
  shows "nt_type t = HNSW_NEIGHBOR_TUPLE_TYPE" "nt_version t = he_version e"
    "nt_count t = word_of_nat (length (nt_indextids t))"
  using assms unfolding HnswSetNeighborTuple_def by (auto simp del: upt_Suc)

lemma neighbor_tuple_layers:
  assumes "HnswSetNeighborTuple mem ntup e m = Inr t"
  obtains layers where "length layers = Suc (unat (he_level e))" "nt_indextids t = concat layers"
    "\<And>lc. lc \<le> unat (he_level e) \<Longrightarrow> neighbor_layer mem e m lc = Inr (layers ! (unat (he_level e) - lc))"
    "\<And>i. i < unat (he_level e) \<Longrightarrow> length (layers ! i) = m"
    "length (concat layers) = (unat (he_level e) + 2) * m"
proof -
  let ?L = "unat (he_level e)"
  from assms obtain layers where m: "mapE (neighbor_layer mem e m) (rev [0..<Suc ?L]) = Inr layers"
    and t: "nt_indextids t = concat layers"
    by (auto simp: HnswSetNeighborTuple_def bindE_Inr_iff)
  have len: "length layers = Suc ?L" using mapE_length [OF m] by simp
  have lay: "neighbor_layer mem e m lc = Inr (layers ! (?L - lc))" if "lc \<le> ?L" for lc
    using mapE_nth [OF m, of "?L - lc"] that by (simp add: rev_nth del: upt_Suc)
  have up: "length (layers ! i) = m" if "i < ?L" for i
    using neighbor_layer_length [OF lay, of "?L - i"] that by (simp add: HnswGetLayerM_def)
  have last: "length (layers ! ?L) = 2 * m"
    using neighbor_layer_length [OF lay, of 0] by (simp add: HnswGetLayerM_def)
  have "layers = take ?L layers @ [layers ! ?L]"
    using len by (metis lessI take_Suc_conv_app_nth take_all order_refl)
  then have "concat layers = concat (take ?L layers) @ layers ! ?L"
    by (metis concat.simps concat_append append_Nil2)
  moreover have "length (concat (take ?L layers)) = ?L * m"
    using up len by (intro length_concat_take) simp_all
  ultimately have "length (concat layers) = (?L + 2) * m" using last by (simp add: algebra_simps)
  with len t lay up show thesis by (rule that)
qed

text \<open>Reading one layer of a stored neighbor tuple gives the TIDs written for that layer.\<close>

lemma load_neighbor_tids_stored:
  assumes set: "HnswSetNeighborTuple mem ntup e m = Inr t"
    and stored: "ReadItem index (he_neighborPage e) (he_neighborOffno e) = Inr (NTup t)"
    and lc: "lc \<le> unat (he_level e)" and small: "(unat (he_level e) + 2) * m < 2 ^ 16"
  shows "\<exists>tids. neighbor_layer mem e m lc = Inr tids \<and>
    HnswLoadNeighborTids e index m (HnswGetLayerM m lc) lc None = Inr (Some tids, None)"
proof -
  let ?L = "unat (he_level e)"
  obtain layers where L: "length layers = Suc ?L" "nt_indextids t = concat layers"
      "neighbor_layer mem e m lc = Inr (layers ! (?L - lc))"
      "\<And>i. i < ?L \<Longrightarrow> length (layers ! i) = m" "length (concat layers) = (?L + 2) * m"
    by (rule neighbor_tuple_layers [OF set]) (use lc in blast)
  have tf: "nt_version t = he_version e" "unat (nt_count t) = (?L + 2) * m"
    using neighbor_tuple_fields [OF set] L(2,5) small
    by (simp_all add: unsigned_of_nat take_bit_nat_eq_self del: of_nat_add of_nat_mult)
  have start: "(int ?L - int lc) * int m = int ((?L - lc) * m)"
    using lc by (simp only: of_nat_mult of_nat_diff)
  have "(?L - lc) * m + HnswGetLayerM m lc \<le> (?L + 2) * m"
    by (rule layer_fits [OF lc])
  moreover have "take (HnswGetLayerM m lc) (drop ((?L - lc) * m) (concat layers)) = layers ! (?L - lc)"
    using concat_slice [of "?L - lc" layers m] L neighbor_layer_length [OF L(3)] lc by simp
  ultimately show ?thesis
    using stored tf L(2,3,5)
    by (simp only: HnswLoadNeighborTids_def HnswTraceRecordNeighborPage_def Let_def start nat_int)
      (simp del: of_nat_mult)
qed

end
