(* ===== verification/Hnsw_Search.thy ===== *)
theory Hnsw_Search
  imports Hnsw_Storage
begin

section \<open>Layer search (HnswSearchLayer in src/hnswutils.c)\<close>

text \<open>
  The best-first search of one layer, over an index on disk or a graph in memory. \<^verbatim>\<open>C\<close> holds the
  candidates still to expand with the nearest first, \<^verbatim>\<open>W\<close> the results so far with the furthest
  first. The hash tables of visited elements behave as sets of TIDs and of element addresses.
\<close>

subsection \<open>Comparators and visited elements\<close>

definition CompareNearestCandidates :: "HnswSearchCandidate \<Rightarrow> HnswSearchCandidate \<Rightarrow> int" where
  "CompareNearestCandidates a b =
     (if float8_lt (sc_distance a) (sc_distance b) then 1
      else if float8_lt (sc_distance b) (sc_distance a) then -1
      else 0)"

definition CompareNearestDiscardedCandidates ::
  "HnswSearchCandidate \<Rightarrow> HnswSearchCandidate \<Rightarrow> int" where
  "CompareNearestDiscardedCandidates a b =
     (if float8_lt (sc_distance a) (sc_distance b) then 1
      else if float8_lt (sc_distance b) (sc_distance a) then -1
      else 0)"

definition CompareFurthestCandidates :: "HnswSearchCandidate \<Rightarrow> HnswSearchCandidate \<Rightarrow> int" where
  "CompareFurthestCandidates a b =
     (if float8_lt (sc_distance a) (sc_distance b) then -1
      else if float8_lt (sc_distance b) (sc_distance a) then 1
      else 0)"

record visited_hash =
  vh_tids :: "ItemPointerData set"
  vh_pointers :: "eptr set"

definition InitVisited :: visited_hash where
  "InitVisited = \<lparr>vh_tids = {}, vh_pointers = {}\<rparr>"

definition AddToVisited ::
  "'v memory \<Rightarrow> visited_hash \<Rightarrow> eptr \<Rightarrow> bool \<Rightarrow> (bool \<times> visited_hash) result" where
  "AddToVisited mem v elementPtr inMemory =
     bindE (HnswPtrAccess mem elementPtr) (\<lambda>element.
       if \<not> inMemory
       then let indextid = ItemPointerSet (he_blkno element) (he_offno element)
            in Inr (indextid \<in> vh_tids v, v\<lparr>vh_tids := insert indextid (vh_tids v)\<rparr>)
       else Inr (elementPtr \<in> vh_pointers v, v\<lparr>vh_pointers := insert elementPtr (vh_pointers v)\<rparr>))"

definition HnswInitSearchCandidate :: "eptr \<Rightarrow> float8 \<Rightarrow> HnswSearchCandidate" where
  "HnswInitSearchCandidate element distance = \<lparr>sc_element = element, sc_distance = distance\<rparr>"

definition HnswEntryCandidate ::
  "eptr \<Rightarrow> 'v option \<Rightarrow> 'v relation option \<Rightarrow> 'v HnswSupport \<Rightarrow> bool \<Rightarrow> 'v memory
    \<Rightarrow> (HnswSearchCandidate \<times> 'v memory) result" where
  "HnswEntryCandidate entryPoint q index support loadVec mem =
     (case index of
        None \<Rightarrow> bindE (GetElementDistance mem entryPoint q support) (\<lambda>distance.
                  Inr (HnswInitSearchCandidate entryPoint distance, mem))
      | Some rel \<Rightarrow> bindE (HnswLoadElement entryPoint True q rel support loadVec None mem)
                  (\<lambda>(distance, mem1). Inr (HnswInitSearchCandidate entryPoint distance, mem1)))"

definition CountElement :: "bool \<Rightarrow> 'v memory \<Rightarrow> eptr \<Rightarrow> bool result" where
  "CountElement skipElement mem e =
     (if \<not> skipElement then Inr True
      else bindE (HnswPtrAccess mem e) (\<lambda>el. Inr (he_heaptids el \<noteq> [])))"

datatype HnswUnvisited = UElement eptr | UTid ItemPointerData

text \<open>The loops that insert neighbors into the visited table and keep those not found there.\<close>

fun unvisited_elements :: "eptr list \<Rightarrow> eptr set \<Rightarrow> eptr list \<times> eptr set" where
  "unvisited_elements [] v = ([], v)"
| "unvisited_elements (p # ps) v =
     (let (us, v') = unvisited_elements ps (insert p v)
      in (if p \<in> v then us else p # us, v'))"

fun unvisited_tids ::
  "ItemPointerData list \<Rightarrow> ItemPointerData set \<Rightarrow> ItemPointerData list \<times> ItemPointerData set" where
  "unvisited_tids [] v = ([], v)"
| "unvisited_tids (tid # tids) v =
     (if \<not> ItemPointerIsValid tid then ([], v)
      else let (us, v') = unvisited_tids tids (insert tid v)
           in (if tid \<in> v then us else tid # us, v'))"

definition HnswLoadUnvisitedFromMemory ::
  "'v memory \<Rightarrow> eptr \<Rightarrow> visited_hash \<Rightarrow> nat \<Rightarrow> nat \<Rightarrow> (HnswUnvisited list \<times> visited_hash) result" where
  "HnswLoadUnvisitedFromMemory mem element v lm lc =
     bindE (HnswPtrAccess mem element) (\<lambda>e.
     bindE (HnswGetNeighbors e lc) (\<lambda>neighborhood.
     if length (na_items neighborhood) > lm then Inl (BadAccess ''localNeighborhood'')
     else let (us, ptrs) = unvisited_elements (map hc_element (na_items neighborhood)) (vh_pointers v)
          in Inr (map UElement us, v\<lparr>vh_pointers := ptrs\<rparr>)))"

definition HnswLoadUnvisitedFromDisk ::
  "'v HnswElementData \<Rightarrow> visited_hash \<Rightarrow> 'v relation \<Rightarrow> nat \<Rightarrow> nat \<Rightarrow> nat \<Rightarrow> HnswTraceStats option
    \<Rightarrow> (HnswUnvisited list \<times> visited_hash \<times> HnswTraceStats option) result" where
  "HnswLoadUnvisitedFromDisk element v index m lm lc trace =
     (if lm > HNSW_MAX_M * 2 then Inl (BadAccess ''indextids'')
      else bindE (HnswLoadNeighborTids element index m lm lc trace) (\<lambda>(indextids, trace1).
        case indextids of
          None \<Rightarrow> Inr ([], v, trace1)
        | Some tids \<Rightarrow>
            let (us, v') = unvisited_tids tids (vh_tids v)
            in Inr (map UTid us, v\<lparr>vh_tids := v'\<rparr>, trace1)))"

subsection \<open>The search\<close>

text \<open>
  The arguments that stay fixed during a search; \<open>sa_index\<close> is \<open>None\<close> for a graph in memory and
  \<open>sa_skip\<close> is \<^verbatim>\<open>skipElement != NULL\<close>. The state collects the local variables and what the search
  updates through pointers: the visited table, the discarded candidates, the tuple count, the
  trace and the element memory. \<open>ss_discarded\<close>, \<open>ss_tuples\<close> and \<open>ss_trace\<close> are \<open>None\<close> when the caller
  passed \<^verbatim>\<open>NULL\<close>.
\<close>

record 'v search_args =
  sa_q :: "'v option"
  sa_ef :: nat
  sa_lc :: nat
  sa_index :: "'v relation option"
  sa_support :: "'v HnswSupport"
  sa_m :: nat
  sa_inserting :: bool
  sa_skip :: bool

record 'v search_state =
  ss_C :: "HnswSearchCandidate pairingheap"
  ss_W :: "HnswSearchCandidate pairingheap"
  ss_wlen :: nat
  ss_v :: visited_hash
  ss_discarded :: "HnswSearchCandidate pairingheap option"
  ss_tuples :: "int option"
  ss_trace :: "HnswTraceStats option"
  ss_mem :: "'v memory"

text \<open>The body of the loop over the entry points.\<close>

definition add_entry_point ::
  "'v search_args \<Rightarrow> bool \<Rightarrow> HnswSearchCandidate \<Rightarrow> 'v search_state \<Rightarrow> 'v search_state result" where
  "add_entry_point a initVisited sc st =
     bindE (if initVisited
            then bindE (AddToVisited (ss_mem st) (ss_v st) (sc_element sc) (sa_index a = None))
                   (\<lambda>(found, v). Inr (st\<lparr>ss_v := v, ss_tuples := map_option (\<lambda>n. n + 1) (ss_tuples st)\<rparr>))
            else Inr st) (\<lambda>st1.
     let st2 = st1\<lparr>ss_C := pairingheap_add (ss_C st1) sc, ss_W := pairingheap_add (ss_W st1) sc\<rparr>
     in bindE (CountElement (sa_skip a) (ss_mem st2) (sc_element sc)) (\<lambda>count.
          Inr (if count then st2\<lparr>ss_wlen := Suc (ss_wlen st2)\<rparr> else st2)))"

definition discard_candidate :: "HnswSearchCandidate \<Rightarrow> 'v search_state \<Rightarrow> 'v search_state" where
  "discard_candidate sc st =
     st\<lparr>ss_discarded := map_option (\<lambda>h. pairingheap_add h sc) (ss_discarded st)\<rparr>"

text \<open>The distance of an unvisited neighbor, loading it when the graph is on disk.\<close>

fun load_unvisited ::
  "'v search_args \<Rightarrow> bool \<Rightarrow> float8 \<Rightarrow> HnswUnvisited \<Rightarrow> 'v search_state
    \<Rightarrow> (float8 \<times> eptr option \<times> 'v search_state) result" where
  "load_unvisited a alwaysAdd fDistance (UElement p) st =
     bindE (GetElementDistance (ss_mem st) p (sa_q a) (sa_support a)) (\<lambda>d.
       Inr (d, Some p,
            st\<lparr>ss_trace := map_option
                 (\<lambda>t. t\<lparr>ts_distance_compute_count := ts_distance_compute_count t + 1\<rparr>) (ss_trace st)\<rparr>))"
| "load_unvisited a alwaysAdd fDistance (UTid indextid) st =
     bindE (ofOption (BadAccess ''index'') (sa_index a)) (\<lambda>index.
     bindE (HnswLoadElementImpl (ItemPointerGetBlockNumber indextid)
              (ItemPointerGetOffsetNumber indextid) True (sa_q a) index (sa_support a) (sa_inserting a)
              (if alwaysAdd \<or> ss_discarded st \<noteq> None then None else Some fDistance)
              None (ss_trace st) (ss_mem st)) (\<lambda>(d, element, trace, mem).
       Inr (d, element, st\<lparr>ss_trace := trace, ss_mem := mem\<rparr>)))"

text \<open>
  The body of the loop over the unvisited neighbors; \<open>accept_candidate\<close> is its last part, which adds
  the new candidate and drops the furthest result when there are more than \<^verbatim>\<open>ef\<close>.
\<close>

definition accept_candidate ::
  "'v search_args \<Rightarrow> HnswSearchCandidate \<Rightarrow> 'v search_state \<Rightarrow> 'v search_state result" where
  "accept_candidate a e st =
     (let st1 = st\<lparr>ss_C := pairingheap_add (ss_C st) e, ss_W := pairingheap_add (ss_W st) e\<rparr>
      in bindE (CountElement (sa_skip a) (ss_mem st1) (sc_element e)) (\<lambda>count.
         if \<not> count then Inr st1
         else
           let st2 = st1\<lparr>ss_wlen := Suc (ss_wlen st1)\<rparr> in
           if ss_wlen st2 > sa_ef a
           then bindE (ofOption (BadAccess ''pairingheap_remove_first'')
                        (pairingheap_remove_first (ss_W st2)))
                  (\<lambda>(d, W'). Inr (discard_candidate d (st2\<lparr>ss_W := W'\<rparr>)))
           else Inr st2))"

definition visit_neighbor ::
  "'v search_args \<Rightarrow> HnswUnvisited \<Rightarrow> 'v search_state \<Rightarrow> 'v search_state result" where
  "visit_neighbor a u st =
     (let alwaysAdd = ss_wlen st < sa_ef a in
      bindE (ofOption (BadAccess ''pairingheap_first'') (pairingheap_first (ss_W st))) (\<lambda>f.
      bindE (load_unvisited a alwaysAdd (sc_distance f) u st) (\<lambda>(eDistance, eElement, st1).
      case eElement of
        None \<Rightarrow> Inr st1
      | Some p \<Rightarrow>
          let e = HnswInitSearchCandidate p eDistance in
          if \<not> (float8_lt eDistance (sc_distance f) \<or> alwaysAdd)
          then Inr (discard_candidate e st1)
          else
            bindE (HnswPtrAccess (ss_mem st1) p) (\<lambda>el.
            if unat (he_level el) < sa_lc a then Inr st1
            else accept_candidate a e st1))))"

definition expand_candidate ::
  "'v search_args \<Rightarrow> HnswSearchCandidate \<Rightarrow> 'v search_state \<Rightarrow> (HnswUnvisited list \<times> 'v search_state) result" where
  "expand_candidate a c st =
     (let lm = HnswGetLayerM (sa_m a) (sa_lc a) in
      bindE (case sa_index a of
               None \<Rightarrow> bindE (HnswLoadUnvisitedFromMemory (ss_mem st) (sc_element c) (ss_v st) lm (sa_lc a))
                         (\<lambda>(us, v). Inr (us, v, ss_trace st))
             | Some index \<Rightarrow> bindE (HnswPtrAccess (ss_mem st) (sc_element c)) (\<lambda>cElement.
                         HnswLoadUnvisitedFromDisk cElement (ss_v st) index (sa_m a) lm (sa_lc a)
                           (ss_trace st))) (\<lambda>(us, v, trace).
        Inr (us, st\<lparr>ss_v := v,
                    ss_tuples := map_option (\<lambda>n. n + int (length us)) (ss_tuples st),
                    ss_trace := map_option
                      (\<lambda>t. t\<lparr>ts_visited_nodes := ts_visited_nodes t + int (length us)\<rparr>) trace\<rparr>)))"

text \<open>One round of the main loop; the answer is whether to go on.\<close>

definition search_step :: "'v search_args \<Rightarrow> 'v search_state \<Rightarrow> (bool \<times> 'v search_state) result" where
  "search_step a st =
     bindE (ofOption (BadAccess ''pairingheap_remove_first'') (pairingheap_remove_first (ss_C st)))
       (\<lambda>(c, C').
     bindE (ofOption (BadAccess ''pairingheap_first'') (pairingheap_first (ss_W st))) (\<lambda>f.
     if float8_lt (sc_distance f) (sc_distance c) then Inr (False, st\<lparr>ss_C := C'\<rparr>)
     else
       bindE (expand_candidate a c (st\<lparr>ss_C := C'\<rparr>)) (\<lambda>(us, st1).
       bindE (foldE (visit_neighbor a) us st1) (\<lambda>st2.
       Inr (True, st2)))))"

subsection \<open>Termination\<close>

text \<open>
  Every round takes a candidate from \<^verbatim>\<open>C\<close> and puts back at most one candidate per element it marks
  as visited; there are finitely many TIDs and addresses.
\<close>

lemma unvisited_tids_spec:
  "unvisited_tids tids v = (us, v') \<Longrightarrow>
     v' = v \<union> set (takeWhile ItemPointerIsValid tids) \<and> set us = v' - v \<and> distinct us"
proof (induction tids v arbitrary: us v' rule: unvisited_tids.induct)
  case (2 tid tids v)
  show ?case
  proof (cases "ItemPointerIsValid tid")
    case True
    obtain us1 v1 where r: "unvisited_tids tids (insert tid v) = (us1, v1)"
      by (rule prod.exhaust)
    have "v1 = insert tid v \<union> set (takeWhile ItemPointerIsValid tids) \<and> set us1 = v1 - insert tid v \<and>
        distinct us1"
      by (rule 2(1)) (use True r in simp_all)
    moreover have "v' = v1" "us = (if tid \<in> v then us1 else tid # us1)"
      using 2(2) True r by simp_all
    ultimately show ?thesis using True by auto
  qed (use 2(2) in auto)
qed auto

lemma unvisited_elements_spec:
  "unvisited_elements ps v = (us, v') \<Longrightarrow> v' = v \<union> set ps \<and> set us = v' - v \<and> distinct us"
proof (induction ps v arbitrary: us v' rule: unvisited_elements.induct)
  case (2 p ps v)
  obtain us1 v1 where r: "unvisited_elements ps (insert p v) = (us1, v1)"
    by (rule prod.exhaust)
  have "v' = v1" "us = (if p \<in> v then us1 else p # us1)" using 2(2) r by simp_all
  with 2(1) [OF r] show ?case by auto
qed auto

lemma card_Compl_unvisited:
  fixes v v' :: "'a::finite set"
  assumes "v \<subseteq> v'" "set us = v' - v" "distinct us"
  shows "card (- v') + length us = card (- v)"
proof -
  have "card (- v) = card (- v' \<union> set us)" using assms(1,2) by (intro arg_cong [where f = card]) auto
  also have "\<dots> = card (- v') + card (set us)" using assms(2) by (intro card_Un_disjoint) auto
  finally show ?thesis using assms(3) by (simp add: distinct_card)
qed

lemma unvisited_card:
  "unvisited_tids tids v = (us, v') \<Longrightarrow> card (- v') + length us = card (- v)"
  "unvisited_elements ps w = (es, w') \<Longrightarrow> card (- w') + length es = card (- w)"
  using unvisited_tids_spec [of tids v us v'] unvisited_elements_spec [of ps w es w']
    card_Compl_unvisited [of v v' us] card_Compl_unvisited [of w w' es] by blast+

definition unvisited_count :: "visited_hash \<Rightarrow> nat" where
  "unvisited_count v = card (- vh_tids v) + card (- vh_pointers v)"

definition search_measure :: "'v search_state \<Rightarrow> nat" where
  "search_measure st = size (mset_heap (ss_C st)) + unvisited_count (ss_v st)"

lemma load_unvisited_frame:
  assumes "load_unvisited a aa fd u st = Inr (d, p, st')"
  shows "ss_v st' = ss_v st" "ss_C st' = ss_C st" "ss_W st' = ss_W st" "ss_wlen st' = ss_wlen st"
    "ss_discarded st' = ss_discarded st" "ss_tuples st' = ss_tuples st"
  using assms by (cases u; auto)+

lemma discard_candidate_simps [simp]:
  "ss_C (discard_candidate sc st) = ss_C st"
  "ss_W (discard_candidate sc st) = ss_W st"
  "ss_v (discard_candidate sc st) = ss_v st"
  "ss_wlen (discard_candidate sc st) = ss_wlen st"
  "ss_mem (discard_candidate sc st) = ss_mem st"
  "ss_trace (discard_candidate sc st) = ss_trace st"
  "ss_tuples (discard_candidate sc st) = ss_tuples st"
  by (simp_all add: discard_candidate_def)

lemma accept_candidate_frame:
  assumes "accept_candidate a e st = Inr st'"
  shows "ss_v st' = ss_v st" "ss_tuples st' = ss_tuples st" "ss_mem st' = ss_mem st"
    "ss_trace st' = ss_trace st" "ss_C st' = pairingheap_add (ss_C st) e"
  using assms by (auto simp: accept_candidate_def Let_def split: if_splits)

lemma visit_neighbor_cases:
  assumes "visit_neighbor a u st = Inr st'"
  obtains (absent) f d st1 where "pairingheap_first (ss_W st) = Some f"
      "load_unvisited a (ss_wlen st < sa_ef a) (sc_distance f) u st = Inr (d, None, st1)" "st' = st1"
  | (reject) f d p st1 where "pairingheap_first (ss_W st) = Some f"
      "load_unvisited a (ss_wlen st < sa_ef a) (sc_distance f) u st = Inr (d, Some p, st1)"
      "\<not> (float8_lt d (sc_distance f) \<or> ss_wlen st < sa_ef a)"
      "st' = discard_candidate (HnswInitSearchCandidate p d) st1"
  | (low) f d p el st1 where "pairingheap_first (ss_W st) = Some f"
      "load_unvisited a (ss_wlen st < sa_ef a) (sc_distance f) u st = Inr (d, Some p, st1)"
      "HnswPtrAccess (ss_mem st1) p = Inr el" "unat (he_level el) < sa_lc a" "st' = st1"
  | (accept) f d p el st1 where "pairingheap_first (ss_W st) = Some f"
      "load_unvisited a (ss_wlen st < sa_ef a) (sc_distance f) u st = Inr (d, Some p, st1)"
      "float8_lt d (sc_distance f) \<or> ss_wlen st < sa_ef a"
      "HnswPtrAccess (ss_mem st1) p = Inr el" "\<not> unat (he_level el) < sa_lc a"
      "accept_candidate a (HnswInitSearchCandidate p d) st1 = Inr st'"
proof -
  from assms obtain f d eo st1 where f: "pairingheap_first (ss_W st) = Some f"
    and l: "load_unvisited a (ss_wlen st < sa_ef a) (sc_distance f) u st = Inr (d, eo, st1)"
    by (fastforce simp: visit_neighbor_def Let_def)
  show thesis
  proof (cases eo)
    case None
    with assms f l show ?thesis by (intro absent) (simp_all add: visit_neighbor_def)
  next
    case (Some p)
    with assms f l reject low accept show ?thesis
      by (auto simp: visit_neighbor_def Let_def split: if_splits)
  qed
qed

lemma visit_neighbor_frame:
  assumes "visit_neighbor a u st = Inr st'"
  shows "ss_v st' = ss_v st \<and> ss_tuples st' = ss_tuples st \<and>
    size (mset_heap (ss_C st')) \<le> Suc (size (mset_heap (ss_C st)))"
  using assms
proof (cases rule: visit_neighbor_cases)
  case (accept f d p el st1)
  from load_unvisited_frame [OF accept(2)] accept_candidate_frame [OF accept(6)] show ?thesis
    by simp
qed (auto dest: load_unvisited_frame)

lemma visit_neighbors_frame:
  "foldE (visit_neighbor a) us st = Inr st' \<Longrightarrow>
     ss_v st' = ss_v st \<and> ss_tuples st' = ss_tuples st \<and>
     size (mset_heap (ss_C st')) \<le> length us + size (mset_heap (ss_C st))"
proof (induction us arbitrary: st)
  case (Cons u us)
  then obtain s1 where s1: "visit_neighbor a u st = Inr s1" "foldE (visit_neighbor a) us s1 = Inr st'"
    by auto
  from visit_neighbor_frame [OF s1(1)] Cons.IH [OF s1(2)] show ?case by auto
qed simp

lemma expand_candidate_measure:
  assumes "expand_candidate a c st = Inr (us, st')"
  shows "ss_C st' = ss_C st \<and> unvisited_count (ss_v st') + length us = unvisited_count (ss_v st)"
proof -
  have mem: "unvisited_count v + length us = unvisited_count (ss_v st)"
    if "HnswLoadUnvisitedFromMemory (ss_mem st) p (ss_v st) lm lc = Inr (us, v)" for p lm lc v
    using that
    by (auto simp: HnswLoadUnvisitedFromMemory_def unvisited_count_def split: if_splits prod.splits
        dest!: unvisited_card)
  have disk: "unvisited_count v + length us = unvisited_count (ss_v st)"
    if "HnswLoadUnvisitedFromDisk e (ss_v st) index m lm lc tr = Inr (us, v, tr')" for e index m lm lc tr tr' v
    using that
    by (auto simp: HnswLoadUnvisitedFromDisk_def unvisited_count_def split: if_splits prod.splits
        option.splits dest!: unvisited_card)
  from assms mem disk show ?thesis
    by (auto simp: expand_candidate_def Let_def split: option.splits)
qed

lemma search_step_measure:
  assumes "search_step a st = Inr (cont, st')"
  shows "search_measure st' < search_measure st"
proof -
  from assms obtain c C' where c: "pairingheap_remove_first (ss_C st) = Some (c, C')"
    by (auto simp: search_step_def)
  then have sz: "size (mset_heap (ss_C st)) = Suc (size (mset_heap C'))"
    using pairingheap_remove_first_mset by fastforce
  show ?thesis
  proof (cases cont)
    case True
    with assms c obtain us st1 where e: "expand_candidate a c (st\<lparr>ss_C := C'\<rparr>) = Inr (us, st1)"
      and f: "foldE (visit_neighbor a) us st1 = Inr st'"
      by (auto simp: search_step_def split: if_splits)
    from expand_candidate_measure [OF e] visit_neighbors_frame [OF f] sz show ?thesis
      by (simp add: search_measure_def)
  next
    case False
    with assms c sz show ?thesis by (auto simp: search_step_def search_measure_def split: if_splits)
  qed
qed

function search_loop :: "'v search_args \<Rightarrow> 'v search_state \<Rightarrow> 'v search_state result" where
  "search_loop a st =
     (if pairingheap_is_empty (ss_C st) then Inr st
      else bindE (search_step a st) (\<lambda>(continue, st').
        if continue then search_loop a st' else Inr st'))"
  by pat_completeness auto
termination
  by (relation "measure (\<lambda>(a, st). search_measure st)") (auto dest: search_step_measure)

declare search_loop.simps [simp del]

text \<open>The last loop takes the candidates out of \<^verbatim>\<open>W\<close>, furthest first.\<close>

function drain_candidates :: "'a pairingheap \<Rightarrow> 'a list" where
  "drain_candidates W =
     (case pairingheap_remove_first W of None \<Rightarrow> [] | Some (sc, W') \<Rightarrow> sc # drain_candidates W')"
  by pat_completeness auto
termination
  by (relation "measure (\<lambda>W. size (mset_heap W))") (auto dest: pairingheap_remove_first_mset)

declare drain_candidates.simps [simp del]

text \<open>
  \<^verbatim>\<open>HnswSearchLayer\<close>: \<open>v\<close> is \<open>None\<close> for the argument \<^verbatim>\<open>NULL\<close>; the discarded heap passed in is used only
  when \<open>initVisited\<close> is false.
\<close>

definition search_init ::
  "visited_hash option \<Rightarrow> HnswSearchCandidate pairingheap option \<Rightarrow> bool \<Rightarrow> int option
    \<Rightarrow> HnswTraceStats option \<Rightarrow> 'v memory \<Rightarrow> 'v search_state" where
  "search_init v discarded initVisited tuples trace mem =
     \<lparr>ss_C = pairingheap_allocate CompareNearestCandidates,
      ss_W = pairingheap_allocate CompareFurthestCandidates,
      ss_wlen = 0,
      ss_v = (if initVisited then InitVisited else the v),
      ss_discarded = (if initVisited
                      then map_option (\<lambda>_. pairingheap_allocate CompareNearestDiscardedCandidates) discarded
                      else discarded),
      ss_tuples = tuples,
      ss_trace = trace,
      ss_mem = mem\<rparr>"

definition HnswSearchLayer ::
  "'v search_args \<Rightarrow> HnswSearchCandidate list \<Rightarrow> visited_hash option
    \<Rightarrow> HnswSearchCandidate pairingheap option \<Rightarrow> bool \<Rightarrow> int option \<Rightarrow> HnswTraceStats option
    \<Rightarrow> 'v memory \<Rightarrow> (HnswSearchCandidate list \<times> 'v search_state) result" where
  "HnswSearchLayer a ep v discarded initVisited0 tuples trace mem =
     (let initVisited = (v = None \<or> initVisited0) in
      bindE (foldE (add_entry_point a initVisited) ep
              (search_init v discarded initVisited tuples trace mem)) (\<lambda>st0.
      bindE (search_loop a st0) (\<lambda>st1.
      Inr (drain_candidates (ss_W st1), st1))))"

end
