(* ===== verification/Hnsw_Search_Correct.thy ===== *)
theory Hnsw_Search_Correct
  imports Hnsw_Search
begin

section \<open>Correctness of the layer search on disk\<close>

text \<open>
  What \<^verbatim>\<open>HnswSearchLayer\<close> guarantees on a well-formed index when the distances are numbers: it
  returns or runs out of memory, the result is ordered, has at most \<^verbatim>\<open>ef\<close> elements, is no worse than
  any element looked at, and is closed under taking neighbors up to elements that are no nearer.
\<close>

subsection \<open>The comparators order candidates\<close>

abbreviation num_cands :: "HnswSearchCandidate set" where
  "num_cands \<equiv> {sc. \<not> float8_isnan (sc_distance sc)}"

interpretation near: ph_comparator CompareNearestCandidates num_cands
  by unfold_locales (auto simp: CompareNearestCandidates_def float8_lt_key split: if_splits)

interpretation far: ph_comparator CompareFurthestCandidates num_cands
  by unfold_locales (auto simp: CompareFurthestCandidates_def float8_lt_key split: if_splits)

lemma CompareNearest_nonneg:
  "a \<in> num_cands \<Longrightarrow> b \<in> num_cands \<Longrightarrow>
     0 \<le> CompareNearestCandidates a b \<longleftrightarrow> float8_le (sc_distance a) (sc_distance b)"
  by (auto simp: CompareNearestCandidates_def float_key_simps)

lemma CompareFurthest_nonneg:
  "a \<in> num_cands \<Longrightarrow> b \<in> num_cands \<Longrightarrow>
     0 \<le> CompareFurthestCandidates a b \<longleftrightarrow> float8_le (sc_distance b) (sc_distance a)"
  by (auto simp: CompareFurthestCandidates_def float_key_simps)

lemma near_remove_first:
  assumes "near.heap_inv h" "pairingheap_remove_first h = Some (c, h')"
  shows "near.heap_inv h'" "mset_heap h = add_mset c (mset_heap h')" "c \<in> num_cands"
    "\<And>x. x \<in># mset_heap h \<Longrightarrow> float8_le (sc_distance c) (sc_distance x)"
proof -
  show "near.heap_inv h'" by (rule near.heap_inv_remove_first [OF assms])
  show m: "mset_heap h = add_mset c (mset_heap h')"
    by (rule pairingheap_remove_first_mset [OF assms(2)])
  then show c: "c \<in> num_cands" using near.heap_inv_carrier [OF assms(1)] by simp
  show "float8_le (sc_distance c) (sc_distance x)" if "x \<in># mset_heap h" for x
    using near.heap_inv_first_max [OF assms(1) pairingheap_first_remove_first [OF assms(2)] that]
      CompareNearest_nonneg c near.heap_inv_carrier [OF assms(1) that] by simp
qed

lemma far_first:
  assumes "far.heap_inv h" "pairingheap_first h = Some f"
  shows "f \<in># mset_heap h" "f \<in> num_cands"
    "\<And>x. x \<in># mset_heap h \<Longrightarrow> float8_le (sc_distance x) (sc_distance f)"
proof -
  show m: "f \<in># mset_heap h" by (rule pairingheap_first_in [OF assms(2)])
  then show f: "f \<in> num_cands" using far.heap_inv_carrier [OF assms(1)] by simp
  show "float8_le (sc_distance x) (sc_distance f)" if "x \<in># mset_heap h" for x
    using far.heap_inv_first_max [OF assms that] CompareFurthest_nonneg f
      far.heap_inv_carrier [OF assms(1) that] by simp
qed

lemma far_remove_first:
  assumes "far.heap_inv h" "pairingheap_remove_first h = Some (c, h')"
  shows "far.heap_inv h'" "mset_heap h = add_mset c (mset_heap h')"
    "\<And>x. x \<in># mset_heap h \<Longrightarrow> float8_le (sc_distance x) (sc_distance c)"
  using far.heap_inv_remove_first [OF assms] pairingheap_remove_first_mset [OF assms(2)]
    far_first(3) [OF assms(1) pairingheap_first_remove_first [OF assms(2)]] by simp_all

lemma drain_candidates_mset: "mset (drain_candidates h) = mset_heap h"
proof (induction h rule: drain_candidates.induct)
  case (1 h)
  show ?case
  proof (cases "pairingheap_remove_first h")
    case None
    moreover from None have "mset_heap h = {#}" by (simp only: pairingheap_remove_first_None_iff)
    ultimately show ?thesis by (simp add: drain_candidates.simps)
  next
    case (Some r)
    then obtain c h' where r: "pairingheap_remove_first h = Some (c, h')" by (cases r) auto
    from pairingheap_remove_first_mset [OF r] 1 [OF r refl] r show ?thesis
      by (subst drain_candidates.simps) simp
  qed
qed

lemma drain_candidates_sorted:
  "far.heap_inv h \<Longrightarrow>
     sorted_wrt (\<lambda>a b. float8_le (sc_distance b) (sc_distance a)) (drain_candidates h)"
proof (induction h rule: drain_candidates.induct)
  case (1 h)
  show ?case
  proof (cases "pairingheap_remove_first h")
    case (Some r)
    then obtain c h' where r: "pairingheap_remove_first h = Some (c, h')" by (cases r) auto
    from far_remove_first [OF 1(2) r] 1(1) [OF r refl] r show ?thesis
      by (subst drain_candidates.simps) (auto simp: drain_candidates_mset [symmetric])
  qed (simp add: drain_candidates.simps)
qed

subsection \<open>Well-formed indexes\<close>

definition etup_at :: "'v relation \<Rightarrow> ItemPointerData \<Rightarrow> 'v HnswElementTupleData option" where
  "etup_at index tid =
     (case ReadItem index (ItemPointerGetBlockNumber tid) (ItemPointerGetOffsetNumber tid) of
        Inr (ETup etup) \<Rightarrow> Some etup | _ \<Rightarrow> None)"

definition ntup_at :: "'v relation \<Rightarrow> ItemPointerData \<Rightarrow> HnswNeighborTupleData option" where
  "ntup_at index tid =
     (case ReadItem index (ItemPointerGetBlockNumber tid) (ItemPointerGetOffsetNumber tid) of
        Inr (NTup ntup) \<Rightarrow> Some ntup | _ \<Rightarrow> None)"

text \<open>The element tuple at a TID that has not been marked deleted.\<close>

definition live_at :: "'v relation \<Rightarrow> ItemPointerData \<Rightarrow> 'v HnswElementTupleData \<Rightarrow> bool" where
  "live_at index tid etup \<longleftrightarrow> etup_at index tid = Some etup \<and> et_deleted etup = 0"

text \<open>
  The state of the index between operations: an element that is not deleted has a value and a
  neighbor tuple of its version with a slot for every connection, and neighbor TIDs refer to
  elements that are not deleted.
\<close>

definition ntup_ok ::
  "'v relation \<Rightarrow> nat \<Rightarrow> 'v HnswElementTupleData \<Rightarrow> HnswNeighborTupleData \<Rightarrow> bool" where
  "ntup_ok index m etup ntup \<longleftrightarrow>
     nt_version ntup = et_version etup \<and>
     unat (nt_count ntup) = (unat (et_level etup) + 2) * m \<and>
     length (nt_indextids ntup) = (unat (et_level etup) + 2) * m \<and>
     (\<forall>t \<in> set (nt_indextids ntup). ItemPointerIsValid t \<longrightarrow> (\<exists>e. live_at index t e))"

definition index_ok :: "'v relation \<Rightarrow> nat \<Rightarrow> bool" where
  "index_ok index m \<longleftrightarrow>
     (\<forall>tid etup. live_at index tid etup \<longrightarrow>
        length (et_heaptids etup) = HNSW_HEAPTIDS \<and> et_data etup \<noteq> None \<and>
        (\<exists>ntup. ntup_at index (et_neighbortid etup) = Some ntup \<and> ntup_ok index m etup ntup))"

text \<open>The TIDs of an element's neighbors at layer \<open>lc\<close>.\<close>

definition layer_tids ::
  "'v relation \<Rightarrow> nat \<Rightarrow> nat \<Rightarrow> 'v HnswElementTupleData \<Rightarrow> ItemPointerData list" where
  "layer_tids index m lc etup =
     (case ntup_at index (et_neighbortid etup) of
        None \<Rightarrow> []
      | Some ntup \<Rightarrow>
          takeWhile ItemPointerIsValid
            (take (HnswGetLayerM m lc) (drop ((unat (et_level etup) - lc) * m) (nt_indextids ntup))))"

text \<open>The distance the search computes for an element tuple; a null query gives zero.\<close>

definition tuple_distance :: "'v option \<Rightarrow> 'v HnswSupport \<Rightarrow> 'v HnswElementTupleData \<Rightarrow> float8" where
  "tuple_distance q support etup =
     (case q of None \<Rightarrow> 0
      | Some qv \<Rightarrow> (case et_data etup of None \<Rightarrow> 0
          | Some v \<Rightarrow> (case HnswGetDistance qv v support of Inl _ \<Rightarrow> 0 | Inr d \<Rightarrow> d)))"

text \<open>The distance function is defined and not \<^verbatim>\<open>NaN\<close> on the values of the index.\<close>

definition distances_ok :: "'v relation \<Rightarrow> 'v option \<Rightarrow> 'v HnswSupport \<Rightarrow> bool" where
  "distances_ok index q support \<longleftrightarrow>
     (\<forall>qv tid etup v. q = Some qv \<longrightarrow> live_at index tid etup \<longrightarrow> et_data etup = Some v \<longrightarrow>
        (\<exists>d. HnswGetDistance qv v support = Inr d \<and> \<not> float8_isnan d))"

text \<open>The page arrays of the trace have room for every page of the index.\<close>

definition element_blocks :: "'v relation \<Rightarrow> BlockNumber set" where
  "element_blocks index = {b. b \<noteq> 0 \<and> unat b - 1 < length (rd_blocks index)}"

definition trace_safe :: "'v relation \<Rightarrow> HnswTraceStats option \<Rightarrow> bool" where
  "trace_safe index trace \<longleftrightarrow>
     (\<forall>t. trace = Some t \<longrightarrow>
        (\<exists>bs. elog.logged t bs \<and> set bs \<subseteq> element_blocks index) \<and>
        (\<exists>bs. nlog.logged t bs \<and> set bs \<subseteq> element_blocks index) \<and>
        int (length (rd_blocks index)) \<le> ts_element_pages_capacity t \<and>
        int (length (rd_blocks index)) \<le> ts_neighbor_pages_capacity t)"

lemma live_at_ReadItem:
  assumes "live_at index tid etup"
  shows "ReadItem index (ItemPointerGetBlockNumber tid) (ItemPointerGetOffsetNumber tid) = Inr (ETup etup)"
    "et_deleted etup = 0"
  using assms by (auto simp: live_at_def etup_at_def split: sum.splits hnsw_item.splits)

lemma live_at_unique: "live_at index tid e \<Longrightarrow> live_at index tid e' \<Longrightarrow> e = e'"
  by (simp add: live_at_def)

lemma ReadItem_block: "ReadItem index b off = Inr x \<Longrightarrow> b \<in> element_blocks index"
  by (auto simp: ReadItem_def ReadBuffer_def element_blocks_def HNSW_METAPAGE_BLKNO_def split: if_splits)

lemma ntup_at_ReadItem:
  "ntup_at index tid = Some ntup \<Longrightarrow>
     ReadItem index (ItemPointerGetBlockNumber tid) (ItemPointerGetOffsetNumber tid) = Inr (NTup ntup)"
  by (auto simp: ntup_at_def split: sum.splits hnsw_item.splits)

lemma card_element_blocks: "card (element_blocks index) \<le> length (rd_blocks index)"
proof -
  have "(\<lambda>b. unat b - 1) ` element_blocks index \<subseteq> {..<length (rd_blocks index)}"
    by (auto simp: element_blocks_def)
  moreover have "inj_on (\<lambda>b. unat b - 1) (element_blocks index)"
  proof (rule inj_onI)
    fix x y :: BlockNumber
    assume "x \<in> element_blocks index" "y \<in> element_blocks index" "unat x - 1 = unat y - 1"
    then have "unat x = unat y" by (auto simp: element_blocks_def unat_gt_0 [symmetric])
    then show "x = y" by (simp add: word_unat_eq_iff)
  qed
  ultimately have "card (element_blocks index) \<le> card {..<length (rd_blocks index)}"
    by (intro card_inj_on_le) auto
  then show ?thesis by simp
qed

subsection \<open>Recording pages is safe\<close>

lemma logged_frame [simp]:
  "elog.logged (t\<lparr>ts_distance_compute_count := n\<rparr>) bs = elog.logged t bs"
  "nlog.logged (t\<lparr>ts_distance_compute_count := n\<rparr>) bs = nlog.logged t bs"
  "elog.logged (t\<lparr>ts_visited_nodes := n\<rparr>) bs = elog.logged t bs"
  "nlog.logged (t\<lparr>ts_visited_nodes := n\<rparr>) bs = nlog.logged t bs"
  by (simp_all add: elog.logged_def nlog.logged_def)

lemma trace_safe_counters [simp]:
  "trace_safe index (map_option (\<lambda>t. t\<lparr>ts_distance_compute_count := f t\<rparr>) tr) = trace_safe index tr"
  "trace_safe index (map_option (\<lambda>t. t\<lparr>ts_visited_nodes := f t\<rparr>) tr) = trace_safe index tr"
  by (cases tr; simp add: trace_safe_def)+

lemma element_log_frame:
  assumes "HnswTraceRecordElementPage (Some t) b = Inr tr"
  obtains t' where "tr = Some t'" "nlog.logged t' = nlog.logged t"
    "ts_neighbor_pages_capacity t' = ts_neighbor_pages_capacity t"
    "ts_distance_compute_count t' = ts_distance_compute_count t" "ts_visited_nodes t' = ts_visited_nodes t"
    "ts_heap_fetch_count t' = ts_heap_fetch_count t" "ts_returned_tids t' = ts_returned_tids t"
  using assms
  by (auto simp: HnswTraceRecordElementPage_def element_page_run_def Let_def nlog.logged_def fun_eq_iff
      split: if_splits)

lemma neighbor_log_frame:
  assumes "HnswTraceRecordNeighborPage (Some t) b = Inr tr"
  obtains t' where "tr = Some t'" "elog.logged t' = elog.logged t"
    "ts_element_pages_capacity t' = ts_element_pages_capacity t"
    "ts_distance_compute_count t' = ts_distance_compute_count t" "ts_visited_nodes t' = ts_visited_nodes t"
    "ts_heap_fetch_count t' = ts_heap_fetch_count t" "ts_returned_tids t' = ts_returned_tids t"
    "ts_index_element_loads t' = ts_index_element_loads t"
  using assms
  by (auto simp: HnswTraceRecordNeighborPage_def neighbor_page_run_def Let_def elog.logged_def fun_eq_iff
      split: if_splits)

lemma room_for_block:
  assumes "set bs \<subseteq> element_blocks index" "b \<in> element_blocks index"
  shows "card (set (bs @ [b])) \<le> length (rd_blocks index)"
proof -
  have "card (set (bs @ [b])) \<le> card (element_blocks index)"
    using assms by (intro card_mono) auto
  then show ?thesis using card_element_blocks [of index] by linarith
qed

lemma record_element_safe:
  assumes "trace_safe index tr" "b \<in> element_blocks index"
  shows "\<exists>tr'. HnswTraceRecordElementPage tr b = Inr tr' \<and> trace_safe index tr'"
proof (cases tr)
  case (Some t)
  then obtain bs where bs: "elog.logged t bs" "set bs \<subseteq> element_blocks index"
    and cap: "int (length (rd_blocks index)) \<le> ts_element_pages_capacity t"
    using assms(1) by (auto simp: trace_safe_def)
  have "int (card (set (bs @ [b]))) \<le> ts_element_pages_capacity t"
    using room_for_block [OF bs(2) assms(2)] cap by linarith
  from elog.logged_step [OF bs(1) this] obtain t' where t': "element_log t b = Inr t'"
      "elog.logged t' (bs @ [b])" "ts_element_pages_capacity t' = ts_element_pages_capacity t"
    by blast
  then have r: "HnswTraceRecordElementPage (Some t) b = Inr (Some t')"
    by (auto simp: element_log_def)
  from r obtain "nlog.logged t' = nlog.logged t" "ts_neighbor_pages_capacity t' = ts_neighbor_pages_capacity t"
    by (rule element_log_frame) auto
  then have "trace_safe index (Some t')"
    using assms bs t' Some unfolding trace_safe_def by (auto intro!: exI [of _ "bs @ [b]"])
  with r Some show ?thesis by blast
qed (simp add: HnswTraceRecordElementPage_def trace_safe_def)

lemma record_neighbor_safe:
  assumes "trace_safe index tr" "b \<in> element_blocks index"
  shows "\<exists>tr'. HnswTraceRecordNeighborPage tr b = Inr tr' \<and> trace_safe index tr'"
proof (cases tr)
  case (Some t)
  then obtain bs where bs: "nlog.logged t bs" "set bs \<subseteq> element_blocks index"
    and cap: "int (length (rd_blocks index)) \<le> ts_neighbor_pages_capacity t"
    using assms(1) by (auto simp: trace_safe_def)
  have "int (card (set (bs @ [b]))) \<le> ts_neighbor_pages_capacity t"
    using room_for_block [OF bs(2) assms(2)] cap by linarith
  from nlog.logged_step [OF bs(1) this] obtain t' where t': "neighbor_log t b = Inr t'"
      "nlog.logged t' (bs @ [b])" "ts_neighbor_pages_capacity t' = ts_neighbor_pages_capacity t"
    by blast
  then have r: "HnswTraceRecordNeighborPage (Some t) b = Inr (Some t')"
    by (auto simp: neighbor_log_def)
  from r obtain "elog.logged t' = elog.logged t" "ts_element_pages_capacity t' = ts_element_pages_capacity t"
    by (rule neighbor_log_frame) auto
  then have "trace_safe index (Some t')"
    using assms bs t' Some unfolding trace_safe_def by (auto intro!: exI [of _ "bs @ [b]"])
  with r Some show ?thesis by blast
qed (simp add: HnswTraceRecordNeighborPage_def trace_safe_def)

subsection \<open>Element memory\<close>

text \<open>Memory only grows during a search: elements once loaded stay as they are.\<close>

definition mem_extends :: "'v memory \<Rightarrow> 'v memory \<Rightarrow> bool" where
  "mem_extends mem mem' \<longleftrightarrow> (\<forall>p e. mem_elems mem p = Some e \<longrightarrow> mem_elems mem' p = Some e)"

lemma mem_extends_refl [simp]: "mem_extends mem mem"
  by (simp add: mem_extends_def)

lemma mem_extends_trans: "mem_extends a b \<Longrightarrow> mem_extends b c \<Longrightarrow> mem_extends a c"
  by (simp add: mem_extends_def)

lemma HnswPtrAccess_Inr_iff [simp]: "HnswPtrAccess mem p = Inr e \<longleftrightarrow> mem_elems mem p = Some e"
  by (simp add: HnswPtrAccess_def)

lemma HnswPtrAccess_Some [simp]: "mem_elems mem p = Some e \<Longrightarrow> HnswPtrAccess mem p = Inr e"
  by simp

lemma mem_ok_fresh:
  assumes "mem_ok mem" "mem_addr mem (mem_count mem) = Some p"
  shows "mem_elems mem p = None"
proof (rule ccontr)
  assume "mem_elems mem p \<noteq> None"
  then obtain i where "i < mem_count mem" "mem_addr mem i = Some p"
    using assms(1) unfolding mem_ok_def by blast
  with assms show False unfolding mem_ok_def by blast
qed

lemma HnswAlloc_cases:
  assumes "mem_ok mem"
  obtains "HnswAlloc mem e = Inl out_of_memory"
  | p mem' where "HnswAlloc mem e = Inr (p, mem')" "mem_elems mem p = None" "mem_ok mem'"
      "mem_elems mem' = (mem_elems mem)(p \<mapsto> e)" "mem_extends mem mem'"
proof (cases "mem_addr mem (mem_count mem)")
  case None
  then show ?thesis using that(1) by (simp add: HnswAlloc_def)
next
  case (Some p)
  let ?mem' = "mem\<lparr>mem_elems := (mem_elems mem)(p \<mapsto> e), mem_count := Suc (mem_count mem)\<rparr>"
  have fresh: "mem_elems mem p = None" by (rule mem_ok_fresh [OF assms Some])
  have "mem_ok ?mem'"
    using assms Some by (auto simp: mem_ok_def less_Suc_eq)
  then show ?thesis
    using that(2) [of p ?mem'] Some fresh by (auto simp: HnswAlloc_def mem_extends_def)
qed

lemma element_store_ok:
  "mem_ok mem \<Longrightarrow> mem_elems mem p \<noteq> None \<Longrightarrow> mem_ok (element_store mem p e)"
  by (auto simp: mem_ok_def element_store_def)

subsection \<open>Loading elements and neighborhoods\<close>

definition etid :: "'v HnswElementData \<Rightarrow> ItemPointerData" where
  "etid e = ItemPointerSet (he_blkno e) (he_offno e)"

text \<open>An element in memory that holds what its tuple says.\<close>

definition loaded :: "'v HnswElementData \<Rightarrow> 'v HnswElementTupleData \<Rightarrow> bool" where
  "loaded e etup \<longleftrightarrow>
     he_level e = et_level etup \<and> he_version e = et_version etup \<and>
     he_neighborPage e = ItemPointerGetBlockNumber (et_neighbortid etup) \<and>
     he_neighborOffno e = ItemPointerGetOffsetNumber (et_neighbortid etup) \<and>
     he_heaptids e = takeWhile ItemPointerIsValid (et_heaptids etup)"

text \<open>The hypotheses of the correctness theorems on the arguments of a search.\<close>

definition search_ok :: "'v search_args \<Rightarrow> 'v relation \<Rightarrow> bool" where
  "search_ok a index \<longleftrightarrow>
     sa_index a = Some index \<and> index_ok index (sa_m a) \<and>
     distances_ok index (sa_q a) (sa_support a) \<and> 0 < sa_ef a \<and> sa_m a \<le> HNSW_MAX_M"

lemma element_distance_live:
  assumes "distances_ok index q support" "live_at index tid etup" "et_data etup \<noteq> None"
  shows "\<exists>f. element_distance True q etup support tr =
      Inr (tuple_distance q support etup, map_option (\<lambda>t. t\<lparr>ts_distance_compute_count := f t\<rparr>) tr)"
    "\<not> float8_isnan (tuple_distance q support etup)"
proof -
  show "\<exists>f. element_distance True q etup support tr =
      Inr (tuple_distance q support etup, map_option (\<lambda>t. t\<lparr>ts_distance_compute_count := f t\<rparr>) tr)"
  proof (cases q)
    case None
    then show ?thesis
      by (intro exI [of _ ts_distance_compute_count]) (simp add: element_distance_def tuple_distance_def option.map_ident)
  next
    case (Some qv)
    with assms show ?thesis
      by (fastforce simp: element_distance_def tuple_distance_def distances_ok_def)
  qed
  have "\<not> float8_isnan 0" by (simp add: float8_isnan_def fisnan_def fmag_def)
  with assms show "\<not> float8_isnan (tuple_distance q support etup)"
    by (fastforce simp: tuple_distance_def distances_ok_def split: option.splits)
qed

lemma init_and_load:
  fixes mem :: "'v memory" and b off loadVec
  assumes "mem_ok mem" "length (et_heaptids etup) = HNSW_HEAPTIDS"
  defines "r \<equiv> bindE (HnswInitElementFromBlock mem b off) (\<lambda>(p, mem1).
      bindE (HnswPtrAccess mem1 p) (\<lambda>e.
      bindE (HnswLoadElementFromTuple e etup True loadVec) (\<lambda>e'.
      Inr (Some p, element_store mem1 p e'))))"
  shows "r = Inl out_of_memory \<or>
    (\<exists>p mem' e. r = Inr (Some p, mem') \<and> mem_ok mem' \<and> mem_extends mem mem' \<and>
       mem_elems mem' p = Some e \<and> etid e = ItemPointerSet b off \<and> loaded e etup)"
proof (cases rule: HnswAlloc_cases [OF assms(1), of "blank_element\<lparr>he_blkno := b, he_offno := off,
    he_neighbors := None, he_value := None\<rparr>"])
  case 1
  then show ?thesis by (simp add: r_def HnswInitElementFromBlock_def)
next
  case (2 p mem1)
  let ?e0 = "blank_element\<lparr>he_blkno := b, he_offno := off, he_neighbors := None, he_value := None\<rparr>"
  obtain e where e: "HnswLoadElementFromTuple ?e0 etup True loadVec = Inr e"
      "etid e = ItemPointerSet b off" "loaded e etup"
    by (simp add: HnswLoadElementFromTuple_eq [OF assms(2)] etid_def loaded_def)
  have "HnswPtrAccess mem1 p = Inr ?e0" using 2(4) by simp
  then have "r = Inr (Some p, element_store mem1 p e)"
    using 2(1) e(1) by (simp add: r_def HnswInitElementFromBlock_def)
  moreover have "mem_ok (element_store mem1 p e)" "mem_extends mem (element_store mem1 p e)"
    using 2 element_store_ok [of mem1 p e] by (auto simp: mem_extends_def element_store_def)
  ultimately show ?thesis using e(2,3) by (auto simp: element_store_def)
qed

lemma load_unvisited_disk:
  assumes ok: "search_ok a index" and live: "live_at index tid etup"
    and mem: "mem_ok (ss_mem st)" and tr: "trace_safe index (ss_trace st)"
  defines "d \<equiv> tuple_distance (sa_q a) (sa_support a) etup"
  shows "load_unvisited a aa fd (UTid tid) st = Inl out_of_memory \<or>
    (\<exists>eo tr' mem'. load_unvisited a aa fd (UTid tid) st =
         Inr (d, eo, st\<lparr>ss_trace := tr', ss_mem := mem'\<rparr>) \<and>
       mem_ok mem' \<and> mem_extends (ss_mem st) mem' \<and> trace_safe index tr' \<and>
       (eo = None \<longrightarrow> \<not> aa \<and> \<not> float8_lt d fd) \<and>
       (\<forall>p. eo = Some p \<longrightarrow> (\<exists>e. mem_elems mem' p = Some e \<and> etid e = tid \<and> loaded e etup)))"
proof -
  let ?b = "ItemPointerGetBlockNumber tid" and ?off = "ItemPointerGetOffsetNumber tid"
  let ?max = "if aa \<or> ss_discarded st \<noteq> None then None else Some fd"
  have et: "length (et_heaptids etup) = HNSW_HEAPTIDS" "et_data etup \<noteq> None"
    using ok live by (auto simp: search_ok_def index_ok_def)
  obtain f where dist: "element_distance True (sa_q a) etup (sa_support a) (ss_trace st) =
      Inr (d, map_option (\<lambda>t. t\<lparr>ts_distance_compute_count := f t\<rparr>) (ss_trace st))"
    using element_distance_live(1) [OF _ live et(2)] ok unfolding d_def search_ok_def by blast
  have "?b \<in> element_blocks index" using live_at_ReadItem(1) [OF live] by (rule ReadItem_block)
  then obtain tr' where rec: "HnswTraceRecordElementPage
      (map_option (\<lambda>t. t\<lparr>ts_distance_compute_count := f t\<rparr>) (ss_trace st)) ?b = Inr tr'"
    and tr': "trace_safe index tr'"
    using record_element_safe [of index "map_option (\<lambda>t. t\<lparr>ts_distance_compute_count := f t\<rparr>) (ss_trace st)"]
      tr by auto
  note eval = live_at_ReadItem [OF live] dist rec ok [unfolded search_ok_def]
  show ?thesis
  proof (cases "?max = None \<or> float8_lt d (the ?max)")
    case True
    from init_and_load [OF mem et(1), of ?b ?off "sa_inserting a"] True eval tr' show ?thesis
      by (elim disjE exE conjE)
        (auto simp: HnswLoadElementImpl_def split del: if_split)
  next
    case False
    with eval have "load_unvisited a aa fd (UTid tid) st =
        Inr (d, None, st\<lparr>ss_trace := tr', ss_mem := ss_mem st\<rparr>)"
      by (auto simp: HnswLoadElementImpl_def)
    moreover have "\<not> aa \<and> \<not> float8_lt d fd" using False by (auto split: if_splits)
    ultimately show ?thesis using tr' mem mem_extends_refl [of "ss_mem st"] by blast
  qed
qed

lemma load_unvisited_neighbors:
  assumes ok: "search_ok a index" and live: "live_at index tid etup" and l: "loaded e etup"
    and lc: "sa_lc a \<le> unat (et_level etup)" and tr: "trace_safe index tr"
  shows "\<exists>us tr'. HnswLoadUnvisitedFromDisk e v index (sa_m a) (HnswGetLayerM (sa_m a) (sa_lc a))
        (sa_lc a) tr =
      Inr (map UTid us, v\<lparr>vh_tids := vh_tids v \<union> set (layer_tids index (sa_m a) (sa_lc a) etup)\<rparr>, tr') \<and>
    set us = set (layer_tids index (sa_m a) (sa_lc a) etup) - vh_tids v \<and> distinct us \<and>
    trace_safe index tr' \<and> (\<forall>t \<in> set us. \<exists>e. live_at index t e)"
proof -
  let ?m = "sa_m a" and ?lc = "sa_lc a" and ?L = "unat (et_level etup)"
  let ?lm = "HnswGetLayerM ?m ?lc"
  from ok live obtain ntup where n: "ntup_at index (et_neighbortid etup) = Some ntup"
    and nok: "ntup_ok index ?m etup ntup"
    by (fastforce simp: search_ok_def index_ok_def)
  have read: "ReadItem index (he_neighborPage e) (he_neighborOffno e) = Inr (NTup ntup)"
    using ntup_at_ReadItem [OF n] l by (simp add: loaded_def)
  obtain tr' where rec: "HnswTraceRecordNeighborPage tr (he_neighborPage e) = Inr tr'" "trace_safe index tr'"
    using record_neighbor_safe [OF tr ReadItem_block [OF read]] by blast
  have start: "(int ?L - int ?lc) * int ?m = int ((?L - ?lc) * ?m)"
    using lc by (simp only: of_nat_mult of_nat_diff)
  have fits: "(?L - ?lc) * ?m + ?lm \<le> (?L + 2) * ?m"
    by (rule layer_fits [OF lc])
  let ?tids = "take ?lm (drop ((?L - ?lc) * ?m) (nt_indextids ntup))"
  have tids: "HnswLoadNeighborTids e index ?m ?lm ?lc tr = Inr (Some ?tids, tr')"
    using read rec(1) l nok fits
    by (simp only: HnswLoadNeighborTids_def Let_def loaded_def ntup_ok_def start nat_int)
      (simp del: of_nat_mult)
  obtain us v' where u: "unvisited_tids ?tids (vh_tids v) = (us, v')" by (rule prod.exhaust)
  have lay: "layer_tids index ?m ?lc etup = takeWhile ItemPointerIsValid ?tids"
    by (simp add: layer_tids_def n)
  have us: "v' = vh_tids v \<union> set (layer_tids index ?m ?lc etup)" "set us = v' - vh_tids v" "distinct us"
    using unvisited_tids_spec [OF u] unfolding lay by blast+
  have "\<exists>e. live_at index t e" if "t \<in> set us" for t
  proof -
    from that us(1,2) have "t \<in> set (takeWhile ItemPointerIsValid ?tids)" unfolding lay by blast
    then have "t \<in> set (nt_indextids ntup)" "ItemPointerIsValid t"
      by (blast dest: set_takeWhileD in_set_takeD in_set_dropD)+
    then show ?thesis using nok by (auto simp: ntup_ok_def)
  qed
  moreover have "?lm \<le> HNSW_MAX_M * 2" using ok by (simp add: search_ok_def HnswGetLayerM_def)
  then have "HnswLoadUnvisitedFromDisk e v index ?m ?lm ?lc tr = Inr (map UTid us, v\<lparr>vh_tids := v'\<rparr>, tr')"
    using tids u by (simp add: HnswLoadUnvisitedFromDisk_def)
  ultimately show ?thesis using us rec(2) by blast
qed

subsection \<open>The invariant of the search\<close>

definition cand_tid :: "'v memory \<Rightarrow> HnswSearchCandidate \<Rightarrow> ItemPointerData" where
  "cand_tid mem sc =
     (case mem_elems mem (sc_element sc) of None \<Rightarrow> ItemPointerSetInvalid | Some e \<Rightarrow> etid e)"

text \<open>A candidate is a loaded element of the layer with its distance.\<close>

definition cand_ok ::
  "'v search_args \<Rightarrow> 'v relation \<Rightarrow> 'v memory \<Rightarrow> HnswSearchCandidate \<Rightarrow> bool" where
  "cand_ok a index mem sc \<longleftrightarrow>
     (\<exists>e etup. mem_elems mem (sc_element sc) = Some e \<and> live_at index (etid e) etup \<and> loaded e etup \<and>
        sa_lc a \<le> unat (et_level etup) \<and>
        sc_distance sc = tuple_distance (sa_q a) (sa_support a) etup)"

text \<open>
  An element that was looked at is among the results, or there are enough results and none is
  further away.
\<close>

definition covered ::
  "'v search_args \<Rightarrow> 'v relation \<Rightarrow> 'v memory \<Rightarrow> HnswSearchCandidate multiset \<Rightarrow> nat
    \<Rightarrow> ItemPointerData \<Rightarrow> bool" where
  "covered a index mem W wlen tid \<longleftrightarrow>
     (\<forall>etup. live_at index tid etup \<longrightarrow> sa_lc a \<le> unat (et_level etup) \<longrightarrow>
        (\<exists>sc \<in># W. cand_tid mem sc = tid) \<or>
        sa_ef a \<le> wlen \<and>
        (\<forall>sc \<in># W. float8_le (sc_distance sc) (tuple_distance (sa_q a) (sa_support a) etup)))"

definition expanded ::
  "'v search_args \<Rightarrow> 'v relation \<Rightarrow> 'v memory \<Rightarrow> ItemPointerData set \<Rightarrow> HnswSearchCandidate \<Rightarrow> bool" where
  "expanded a index mem v sc \<longleftrightarrow>
     (\<forall>etup. live_at index (cand_tid mem sc) etup \<longrightarrow>
        set (layer_tids index (sa_m a) (sa_lc a) etup) \<subseteq> v)"

text \<open>
  \<open>V0\<close> are elements visited before this search, \<open>X\<close> those found by the candidate being expanded but
  not yet looked at.
\<close>

definition search_inv ::
  "'v search_args \<Rightarrow> 'v relation \<Rightarrow> ItemPointerData set \<Rightarrow> ItemPointerData set \<Rightarrow> 'v search_state \<Rightarrow> bool" where
  "search_inv a index V0 X st \<longleftrightarrow>
     near.heap_inv (ss_C st) \<and> far.heap_inv (ss_W st) \<and> mset_heap (ss_W st) \<noteq> {#} \<and>
     (\<forall>sc. sc \<in># mset_heap (ss_C st) \<or> sc \<in># mset_heap (ss_W st) \<longrightarrow> cand_ok a index (ss_mem st) sc) \<and>
     mem_ok (ss_mem st) \<and> trace_safe index (ss_trace st) \<and>
     (\<not> sa_skip a \<longrightarrow> size (mset_heap (ss_W st)) = min (ss_wlen st) (sa_ef a)) \<and>
     (\<forall>tid \<in> vh_tids (ss_v st) - V0 - X.
        covered a index (ss_mem st) (mset_heap (ss_W st)) (ss_wlen st) tid) \<and>
     (\<forall>sc \<in># mset_heap (ss_W st).
        sc \<in># mset_heap (ss_C st) \<or> expanded a index (ss_mem st) (vh_tids (ss_v st)) sc)"

lemma cand_ok_tid:
  "cand_ok a index mem sc \<Longrightarrow> \<exists>etup. live_at index (cand_tid mem sc) etup \<and>
     sa_lc a \<le> unat (et_level etup) \<and> sc_distance sc = tuple_distance (sa_q a) (sa_support a) etup"
  by (auto simp: cand_ok_def cand_tid_def)

lemma cand_ok_extends:
  assumes "cand_ok a index mem sc" "mem_extends mem mem'"
  shows "cand_ok a index mem' sc" "cand_tid mem' sc = cand_tid mem sc"
  using assms by (auto simp: cand_ok_def cand_tid_def mem_extends_def split: option.splits)

lemma cand_ok_number:
  assumes "search_ok a index" "cand_ok a index mem sc"
  shows "sc \<in> num_cands"
proof -
  obtain etup where e: "live_at index (cand_tid mem sc) etup"
      "sc_distance sc = tuple_distance (sa_q a) (sa_support a) etup"
    using cand_ok_tid [OF assms(2)] by blast
  moreover have "et_data etup \<noteq> None" using assms(1) e(1) by (auto simp: search_ok_def index_ok_def)
  ultimately show ?thesis
    using element_distance_live(2) [OF _ e(1)] assms(1) by (simp add: search_ok_def)
qed

text \<open>
  How coverage survives the change of the results from \<open>W\<close> to \<open>W'\<close> when \<open>e\<close> is accepted: every old or
  new candidate is kept or beaten by all that are kept.
\<close>

lemma covered_accept:
  assumes W: "\<And>x. x \<in># add_mset e W \<Longrightarrow>
        x \<in># W' \<or> sa_ef a \<le> wlen' \<and> (\<forall>y \<in># W'. float8_le (sc_distance y) (sc_distance x))"
    and sub: "set_mset W' \<subseteq> insert e (set_mset W)" and wlen: "wlen \<le> wlen'"
    and acc: "float8_lt (sc_distance e) (sc_distance f) \<or> wlen < sa_ef a" and f: "f \<in># W"
    and ok: "\<And>x. x \<in># add_mset e W \<Longrightarrow> cand_ok a index mem x"
    and tid: "tid = cand_tid mem e \<or> covered a index mem W wlen tid"
  shows "covered a index mem W' wlen' tid"
  unfolding covered_def
proof (intro allI impI)
  fix etup
  assume etup: "live_at index tid etup" "sa_lc a \<le> unat (et_level etup)"
  let ?d = "tuple_distance (sa_q a) (sa_support a) etup"
  have in_W: "(\<exists>sc \<in># W'. cand_tid mem sc = tid) \<or>
      sa_ef a \<le> wlen' \<and> (\<forall>sc \<in># W'. float8_le (sc_distance sc) ?d)"
    if x: "x \<in># add_mset e W" "cand_tid mem x = tid" for x
    using W [OF x(1)] cand_ok_tid [OF ok [OF x(1)]] x(2) etup(1) live_at_unique by metis
  from tid show "(\<exists>sc \<in># W'. cand_tid mem sc = tid) \<or>
      sa_ef a \<le> wlen' \<and> (\<forall>sc \<in># W'. float8_le (sc_distance sc) ?d)"
  proof
    assume "covered a index mem W wlen tid"
    then consider x where "x \<in># W" "cand_tid mem x = tid"
      | "sa_ef a \<le> wlen" "\<forall>sc \<in># W. float8_le (sc_distance sc) ?d"
      using etup by (auto simp: covered_def)
    then show ?thesis
    proof cases
      case 2
      with acc f have "float8_le (sc_distance e) ?d" by (auto simp: float_key_simps)
      with 2 sub wlen show ?thesis by (auto simp: subset_iff)
    qed (use in_W in auto)
  qed (use in_W in auto)
qed

lemma search_inv_heaps:
  assumes "search_inv a index V0 X st"
  shows "near.heap_inv (ss_C st)" "far.heap_inv (ss_W st)" "mset_heap (ss_W st) \<noteq> {#}"
    "\<And>sc. sc \<in># mset_heap (ss_C st) \<Longrightarrow> cand_ok a index (ss_mem st) sc"
    "\<And>sc. sc \<in># mset_heap (ss_W st) \<Longrightarrow> cand_ok a index (ss_mem st) sc"
    "mem_ok (ss_mem st)" "trace_safe index (ss_trace st)"
    "\<not> sa_skip a \<Longrightarrow> size (mset_heap (ss_W st)) = min (ss_wlen st) (sa_ef a)"
  using assms by (simp_all add: search_inv_def)

lemma accept_inv_update:
  assumes inv: "search_inv a index V0 X st" and ok: "search_ok a index"
    and cand: "cand_ok a index (ss_mem st) e"
    and first: "pairingheap_first (ss_W st) = Some f"
    and acc: "float8_lt (sc_distance e) (sc_distance f) \<or> ss_wlen st < sa_ef a"
    and st': "ss_C st' = pairingheap_add (ss_C st) e" "ss_mem st' = ss_mem st"
      "ss_trace st' = ss_trace st" "ss_v st' = ss_v st" "ss_wlen st \<le> ss_wlen st'"
    and W': "far.heap_inv (ss_W st')" "mset_heap (ss_W st') \<noteq> {#}"
      "set_mset (mset_heap (ss_W st')) \<subseteq> insert e (set_mset (mset_heap (ss_W st)))"
      "\<And>x. x \<in># add_mset e (mset_heap (ss_W st)) \<Longrightarrow> x \<in># mset_heap (ss_W st') \<or>
         sa_ef a \<le> ss_wlen st' \<and>
         (\<forall>y \<in># mset_heap (ss_W st'). float8_le (sc_distance y) (sc_distance x))"
      "\<not> sa_skip a \<Longrightarrow> size (mset_heap (ss_W st')) = min (ss_wlen st') (sa_ef a)"
  shows "search_inv a index V0 (X - {cand_tid (ss_mem st) e}) st'"
proof -
  note h = search_inv_heaps [OF inv]
  have "near.heap_inv (ss_C st')"
    using near.heap_inv_add [OF h(1) cand_ok_number [OF ok cand]] st'(1) by simp
  moreover have all_ok: "cand_ok a index (ss_mem st) x" if "x \<in># add_mset e (mset_heap (ss_W st))" for x
    using that h(5) cand by auto
  moreover have "covered a index (ss_mem st') (mset_heap (ss_W st')) (ss_wlen st') tid"
    if "tid \<in> vh_tids (ss_v st') - V0 - (X - {cand_tid (ss_mem st) e})" for tid
  proof -
    have "tid = cand_tid (ss_mem st) e \<or>
        covered a index (ss_mem st) (mset_heap (ss_W st)) (ss_wlen st) tid"
      using that st'(4) inv by (auto simp: search_inv_def)
    from covered_accept [OF W'(4,3) st'(5) acc pairingheap_first_in [OF first] all_ok this]
    show ?thesis using st'(2) by simp
  qed
  moreover have "sc \<in># mset_heap (ss_C st') \<or> expanded a index (ss_mem st') (vh_tids (ss_v st')) sc"
    if "sc \<in># mset_heap (ss_W st')" for sc
    using that W'(3) st' inv by (auto simp: search_inv_def subset_iff)
  ultimately show ?thesis
    using h st' W' unfolding search_inv_def by (auto simp: subset_iff)
qed

lemma accept_inv:
  assumes inv: "search_inv a index V0 X st" and ok: "search_ok a index"
    and cand: "cand_ok a index (ss_mem st) e"
    and first: "pairingheap_first (ss_W st) = Some f"
    and acc: "float8_lt (sc_distance e) (sc_distance f) \<or> ss_wlen st < sa_ef a"
  shows "\<exists>st'. accept_candidate a e st = Inr st' \<and>
    search_inv a index V0 (X - {cand_tid (ss_mem st) e}) st'"
proof -
  note h = search_inv_heaps [OF inv]
  let ?W = "pairingheap_add (ss_W st) e"
  let ?st1 = "st\<lparr>ss_C := pairingheap_add (ss_C st) e, ss_W := ?W\<rparr>"
  have hW: "far.heap_inv ?W" by (rule far.heap_inv_add [OF h(2) cand_ok_number [OF ok cand]])
  note update = accept_inv_update [OF inv ok cand first acc]
  obtain count where c: "CountElement (sa_skip a) (ss_mem st) (sc_element e) = Inr count"
    and skip: "\<not> sa_skip a \<Longrightarrow> count"
    using cand by (cases "sa_skip a") (auto simp: CountElement_def cand_ok_def)
  show ?thesis
  proof (cases "count \<and> Suc (ss_wlen st) > sa_ef a")
    case True
    obtain d W' where r: "pairingheap_remove_first ?W = Some (d, W')"
      using pairingheap_remove_first_None_iff [of ?W] by (cases "pairingheap_remove_first ?W") auto
    note far_remove_first [OF hW r]
    moreover from this have sz: "size (mset_heap W') = size (mset_heap (ss_W st))"
      by (metis mset_heap_add size_add_mset nat.inject)
    moreover from sz h(3) have "mset_heap W' \<noteq> {#}" by (metis size_eq_0_iff_empty)
    moreover have "x \<in># mset_heap W' \<or> x = d" if "x \<in># add_mset e (mset_heap (ss_W st))" for x
      using that calculation(2) by (metis insert_iff mset_heap_add set_mset_add_mset_insert)
    moreover have "set_mset (mset_heap W') \<subseteq> insert e (set_mset (mset_heap (ss_W st)))"
      using calculation(2) by (metis mset_heap_add set_mset_add_mset_insert subset_insertI)
    ultimately have "search_inv a index V0 (X - {cand_tid (ss_mem st) e})
        (discard_candidate d (?st1\<lparr>ss_wlen := Suc (ss_wlen st), ss_W := W'\<rparr>))"
      using True h(8) by (intro update) auto
    then show ?thesis using c True r by (simp add: accept_candidate_def)
  next
    case False
    let ?st2 = "if count then ?st1\<lparr>ss_wlen := Suc (ss_wlen st)\<rparr> else ?st1"
    have "search_inv a index V0 (X - {cand_tid (ss_mem st) e}) ?st2"
      using False h(8) skip hW by (intro update) auto
    then show ?thesis using c False by (cases count) (simp_all add: accept_candidate_def)
  qed
qed

lemma search_inv_extend:
  assumes inv: "search_inv a index V0 X st" and ext: "mem_extends (ss_mem st) mem'"
    and "mem_ok mem'" "trace_safe index tr'"
  shows "search_inv a index V0 X (st\<lparr>ss_trace := tr', ss_mem := mem'\<rparr>)"
proof -
  note h = search_inv_heaps [OF inv]
  have W: "cand_ok a index mem' sc" "cand_tid mem' sc = cand_tid (ss_mem st) sc"
    if "sc \<in># mset_heap (ss_W st)" for sc
    using cand_ok_extends [OF h(5) [OF that] ext] by simp_all
  have C: "cand_ok a index mem' sc" if "sc \<in># mset_heap (ss_C st)" for sc
    using cand_ok_extends [OF h(4) [OF that] ext] by simp
  have "covered a index mem' (mset_heap (ss_W st)) (ss_wlen st) tid"
    if "covered a index (ss_mem st) (mset_heap (ss_W st)) (ss_wlen st) tid" for tid
    using that W(2) unfolding covered_def by metis
  moreover have "expanded a index mem' v sc"
    if "expanded a index (ss_mem st) v sc" "sc \<in># mset_heap (ss_W st)" for v sc
    using that W(2) unfolding expanded_def by metis
  ultimately show ?thesis
    using inv assms(3,4) W(1) C unfolding search_inv_def by simp blast
qed

lemma search_inv_looked_at:
  assumes "search_inv a index V0 X st"
    and "covered a index (ss_mem st) (mset_heap (ss_W st)) (ss_wlen st) tid"
  shows "search_inv a index V0 (X - {tid}) st"
  using assms unfolding search_inv_def by blast

lemma search_inv_discard [simp]:
  "search_inv a index V0 X (discard_candidate sc st) = search_inv a index V0 X st"
  by (simp add: search_inv_def)

lemma covered_reject:
  assumes inv: "search_inv a index V0 X st" and first: "pairingheap_first (ss_W st) = Some f"
    and live: "live_at index tid etup" and num: "\<not> float8_isnan (tuple_distance (sa_q a) (sa_support a) etup)"
    and rej: "\<not> (float8_lt (tuple_distance (sa_q a) (sa_support a) etup) (sc_distance f) \<or> ss_wlen st < sa_ef a)"
  shows "covered a index mem (mset_heap (ss_W st)) (ss_wlen st) tid"
proof -
  note f = far_first [OF search_inv_heaps(2) [OF inv] first]
  have "float8_le (sc_distance sc) (tuple_distance (sa_q a) (sa_support a) etup)"
    if "sc \<in># mset_heap (ss_W st)" for sc
    using f(3) [OF that] f(2) rej num by (auto simp: float_key_simps)
  then show ?thesis
    using rej live_at_unique [OF live] unfolding covered_def by auto
qed

lemma visit_inv:
  assumes ok: "search_ok a index" and inv: "search_inv a index V0 X st"
    and live: "live_at index tid etup"
  shows "visit_neighbor a (UTid tid) st = Inl out_of_memory \<or>
    (\<exists>st'. visit_neighbor a (UTid tid) st = Inr st' \<and> search_inv a index V0 (X - {tid}) st')"
proof -
  note h = search_inv_heaps [OF inv]
  let ?d = "tuple_distance (sa_q a) (sa_support a) etup" and ?aa = "ss_wlen st < sa_ef a"
  obtain f where f: "pairingheap_first (ss_W st) = Some f"
    using h(3) pairingheap_first_None_iff [of "ss_W st"] by (cases "pairingheap_first (ss_W st)") auto
  have "et_data etup \<noteq> None" using ok live by (auto simp: search_ok_def index_ok_def)
  then have num: "\<not> float8_isnan ?d"
    using element_distance_live(2) [OF _ live] ok by (simp add: search_ok_def)
  from load_unvisited_disk [OF ok live h(6,7), of ?aa "sc_distance f"]
  consider "load_unvisited a ?aa (sc_distance f) (UTid tid) st = Inl out_of_memory"
    | eo tr mem where
      "load_unvisited a ?aa (sc_distance f) (UTid tid) st = Inr (?d, eo, st\<lparr>ss_trace := tr, ss_mem := mem\<rparr>)"
      "mem_ok mem" "mem_extends (ss_mem st) mem" "trace_safe index tr"
      "eo = None \<longrightarrow> \<not> ?aa \<and> \<not> float8_lt ?d (sc_distance f)"
      "\<forall>p. eo = Some p \<longrightarrow> (\<exists>e. mem_elems mem p = Some e \<and> etid e = tid \<and> loaded e etup)"
    by blast
  then show ?thesis
  proof cases
    case 1
    then show ?thesis by (simp add: visit_neighbor_def f del: load_unvisited.simps)
  next
    case (2 eo tr mem)
    let ?st1 = "st\<lparr>ss_trace := tr, ss_mem := mem\<rparr>"
    have eval: "visit_neighbor a (UTid tid) st =
        (case eo of None \<Rightarrow> Inr ?st1
         | Some p \<Rightarrow>
             if \<not> (float8_lt ?d (sc_distance f) \<or> ?aa)
             then Inr (discard_candidate (HnswInitSearchCandidate p ?d) ?st1)
             else bindE (HnswPtrAccess mem p) (\<lambda>el. if unat (he_level el) < sa_lc a then Inr ?st1
               else accept_candidate a (HnswInitSearchCandidate p ?d) ?st1))"
      by (simp only: visit_neighbor_def f 2(1) Let_def ofOption_simps bindE_simps prod.case)
        (cases eo; simp)
    have inv1: "search_inv a index V0 X ?st1" by (rule search_inv_extend [OF inv 2(3,2,4)])
    have f1: "pairingheap_first (ss_W ?st1) = Some f" using f by simp
    show ?thesis
    proof (cases "float8_lt ?d (sc_distance f) \<or> ?aa")
      case False
      have "covered a index (ss_mem ?st1) (mset_heap (ss_W ?st1)) (ss_wlen ?st1) tid"
        by (rule covered_reject [OF inv1 f1 live num]) (use False in simp)
      from search_inv_looked_at [OF inv1 this] False show ?thesis
        by (cases eo) (simp_all add: eval)
    next
      case True
      with 2(5,6) obtain p e where p: "eo = Some p" "mem_elems mem p = Some e" "etid e = tid" "loaded e etup"
        by (cases eo) auto
      show ?thesis
      proof (cases "unat (he_level e) < sa_lc a")
        case low: True
        then have "covered a index (ss_mem ?st1) (mset_heap (ss_W ?st1)) (ss_wlen ?st1) tid"
          using p(4) live_at_unique [OF live] by (auto simp: covered_def loaded_def)
        from search_inv_looked_at [OF inv1 this] True low p show ?thesis
          by (simp add: eval)
      next
        case high: False
        let ?e = "HnswInitSearchCandidate p ?d"
        have c: "cand_ok a index (ss_mem ?st1) ?e" "cand_tid (ss_mem ?st1) ?e = tid"
          using p high live by (auto simp: cand_ok_def cand_tid_def HnswInitSearchCandidate_def loaded_def)
        have "float8_lt (sc_distance ?e) (sc_distance f) \<or> ss_wlen ?st1 < sa_ef a"
          using True by (simp add: HnswInitSearchCandidate_def)
        from accept_inv [OF inv1 ok c(1) f1 this] c(2) True high p show ?thesis
          by (auto simp: eval)
      qed
    qed
  qed
qed

lemma visit_all_inv:
  assumes ok: "search_ok a index"
  shows "search_inv a index V0 X st \<Longrightarrow> \<forall>t \<in> set us. \<exists>e. live_at index t e \<Longrightarrow>
    foldE (visit_neighbor a) (map UTid us) st = Inl out_of_memory \<or>
    (\<exists>st'. foldE (visit_neighbor a) (map UTid us) st = Inr st' \<and> search_inv a index V0 (X - set us) st')"
proof (induction us arbitrary: X st)
  case (Cons u us)
  from Cons.prems obtain e where "live_at index u e" by auto
  from visit_inv [OF ok Cons.prems(1) this] show ?case
  proof (elim disjE exE conjE)
    fix st1
    assume st1: "visit_neighbor a (UTid u) st = Inr st1" "search_inv a index V0 (X - {u}) st1"
    have "X - set (u # us) = X - {u} - set us" by auto
    with Cons.IH [OF st1(2)] Cons.prems(2) st1(1) show ?thesis by simp
  qed simp
qed simp

text \<open>The state when the main loop ends.\<close>

definition search_done ::
  "'v search_args \<Rightarrow> 'v relation \<Rightarrow> ItemPointerData set \<Rightarrow> 'v search_state \<Rightarrow> bool" where
  "search_done a index V0 st \<longleftrightarrow>
     search_inv a index V0 {} st \<and>
     (\<forall>sc \<in># mset_heap (ss_W st). expanded a index (ss_mem st) (vh_tids (ss_v st)) sc)"

lemma expanded_mono: "expanded a index mem v sc \<Longrightarrow> v \<subseteq> v' \<Longrightarrow> expanded a index mem v' sc"
  by (auto simp: expanded_def)

lemma expand_inv:
  assumes ok: "search_ok a index" and inv: "search_inv a index V0 {} st"
    and rem: "pairingheap_remove_first (ss_C st) = Some (c, C')"
  shows "\<exists>us st1. expand_candidate a c (st\<lparr>ss_C := C'\<rparr>) = Inr (map UTid us, st1) \<and>
    search_inv a index V0 (set us) st1 \<and> (\<forall>t \<in> set us. \<exists>e. live_at index t e)"
proof -
  note h = search_inv_heaps [OF inv] and r = near_remove_first [OF search_inv_heaps(1) [OF inv] rem]
  have "cand_ok a index (ss_mem st) c" using h(4) r(2) by simp
  then obtain e etup where e: "mem_elems (ss_mem st) (sc_element c) = Some e" "live_at index (etid e) etup"
      "loaded e etup" "sa_lc a \<le> unat (et_level etup)"
    by (auto simp: cand_ok_def)
  let ?N = "set (layer_tids index (sa_m a) (sa_lc a) etup)"
  from load_unvisited_neighbors [OF ok e(2,3,4) h(7), of "ss_v st"] obtain us tr where
    l: "HnswLoadUnvisitedFromDisk e (ss_v st) index (sa_m a) (HnswGetLayerM (sa_m a) (sa_lc a)) (sa_lc a)
          (ss_trace st) = Inr (map UTid us, (ss_v st)\<lparr>vh_tids := vh_tids (ss_v st) \<union> ?N\<rparr>, tr)"
    and us: "set us = ?N - vh_tids (ss_v st)" "trace_safe index tr" "\<forall>t \<in> set us. \<exists>e. live_at index t e"
    by blast
  define st1 where "st1 = st\<lparr>ss_C := C', ss_v := (ss_v st)\<lparr>vh_tids := vh_tids (ss_v st) \<union> ?N\<rparr>,
      ss_tuples := map_option (\<lambda>n. n + int (length us)) (ss_tuples st),
      ss_trace := map_option (\<lambda>t. t\<lparr>ts_visited_nodes := ts_visited_nodes t + int (length us)\<rparr>) tr\<rparr>"
  have ex: "expand_candidate a c (st\<lparr>ss_C := C'\<rparr>) = Inr (map UTid us, st1)"
    using ok e(1) l by (simp add: expand_candidate_def search_ok_def Let_def st1_def)
  have "expanded a index (ss_mem st) (vh_tids (ss_v st1)) c"
    using live_at_unique [OF e(2)] e(1) by (auto simp: expanded_def cand_tid_def st1_def)
  then have "sc \<in># mset_heap C' \<or> expanded a index (ss_mem st) (vh_tids (ss_v st1)) sc"
    if "sc \<in># mset_heap (ss_W st)" for sc
    using inv that r(2) expanded_mono [of a index "ss_mem st" "vh_tids (ss_v st)" sc "vh_tids (ss_v st1)"]
    by (auto simp: search_inv_def st1_def)
  then have "search_inv a index V0 (set us) st1"
    using inv r us(1,2) unfolding search_inv_def by (auto simp: st1_def)
  with ex us(3) show ?thesis by blast
qed

lemma step_inv:
  assumes ok: "search_ok a index" and inv: "search_inv a index V0 {} st"
    and ne: "\<not> pairingheap_is_empty (ss_C st)"
  shows "search_step a st = Inl out_of_memory \<or>
    (\<exists>continue st'. search_step a st = Inr (continue, st') \<and>
       (if continue then search_inv a index V0 {} st' else search_done a index V0 st'))"
proof -
  note h = search_inv_heaps [OF inv]
  obtain c C' where rem: "pairingheap_remove_first (ss_C st) = Some (c, C')"
    using ne pairingheap_remove_first_None_iff [of "ss_C st"]
    by (cases "pairingheap_remove_first (ss_C st)") (auto simp: pairingheap_is_empty_iff)
  note r = near_remove_first [OF h(1) rem]
  obtain f where f: "pairingheap_first (ss_W st) = Some f"
    using h(3) pairingheap_first_None_iff [of "ss_W st"] by (cases "pairingheap_first (ss_W st)") auto
  show ?thesis
  proof (cases "float8_lt (sc_distance f) (sc_distance c)")
    case True
    have "expanded a index (ss_mem st) (vh_tids (ss_v st)) sc" if sc: "sc \<in># mset_heap (ss_W st)" for sc
    proof -
      have "sc \<notin># mset_heap (ss_C st)"
        using r(4) [of sc] far_first(3) [OF h(2) f sc] True by (auto simp: float_key_simps)
      then show ?thesis using inv sc by (auto simp: search_inv_def)
    qed
    then have "search_done a index V0 (st\<lparr>ss_C := C'\<rparr>)"
      using inv r by (auto simp: search_done_def search_inv_def)
    moreover have "search_step a st = Inr (False, st\<lparr>ss_C := C'\<rparr>)"
      using rem f True by (simp add: search_step_def)
    ultimately show ?thesis by auto
  next
    case False
    obtain us st1 where e: "expand_candidate a c (st\<lparr>ss_C := C'\<rparr>) = Inr (map UTid us, st1)"
      and i: "search_inv a index V0 (set us) st1" "\<forall>t \<in> set us. \<exists>e. live_at index t e"
      using expand_inv [OF ok inv rem] by blast
    have "search_step a st = bindE (foldE (visit_neighbor a) (map UTid us) st1) (\<lambda>st2. Inr (True, st2))"
      using False rem f e by (simp add: search_step_def)
    with visit_all_inv [OF ok i] show ?thesis by (elim disjE exE conjE) auto
  qed
qed

lemma loop_inv:
  assumes ok: "search_ok a index"
  shows "search_inv a index V0 {} st \<Longrightarrow> search_loop a st = Inl out_of_memory \<or>
    (\<exists>st'. search_loop a st = Inr st' \<and> search_done a index V0 st')"
  using ok
proof (induction a st rule: search_loop.induct)
  case (1 a st)
  show ?case
  proof (cases "pairingheap_is_empty (ss_C st)")
    case True
    then have "search_done a index V0 st"
      using 1(2) by (auto simp: search_done_def search_inv_def pairingheap_is_empty_iff)
    with True show ?thesis by (subst (1 2) search_loop.simps) simp
  next
    case False
    have eq: "search_loop a st = bindE (search_step a st) (\<lambda>(continue, st').
        if continue then search_loop a st' else Inr st')"
      using False by (subst search_loop.simps) simp
    from step_inv [OF 1(3,2) False] show ?thesis
    proof (elim disjE exE conjE)
      fix continue st'
      assume s: "search_step a st = Inr (continue, st')"
        and i: "if continue then search_inv a index V0 {} st' else search_done a index V0 st'"
      show ?thesis
      proof (cases continue)
        case True
        from 1(1) [OF False s refl True _ 1(3)] i True show ?thesis by (simp add: eq s)
      qed (use i in \<open>simp add: eq s\<close>)
    qed (simp add: eq)
  qed
qed

subsection \<open>The whole search\<close>

lemma add_entry_point_ok:
  assumes ok: "search_ok a index" and cand: "cand_ok a index (ss_mem st) sc"
    and h: "near.heap_inv (ss_C st)" "far.heap_inv (ss_W st)"
  shows "\<exists>st'. add_entry_point a init sc st = Inr st' \<and> near.heap_inv (ss_C st') \<and> far.heap_inv (ss_W st') \<and>
    mset_heap (ss_C st') = add_mset sc (mset_heap (ss_C st)) \<and>
    mset_heap (ss_W st') = add_mset sc (mset_heap (ss_W st)) \<and>
    (\<not> sa_skip a \<longrightarrow> ss_wlen st' = Suc (ss_wlen st)) \<and>
    ss_mem st' = ss_mem st \<and> ss_trace st' = ss_trace st \<and>
    vh_tids (ss_v st') = (if init then insert (cand_tid (ss_mem st) sc) (vh_tids (ss_v st))
                          else vh_tids (ss_v st))"
proof -
  from cand obtain e where e: "mem_elems (ss_mem st) (sc_element sc) = Some e"
    by (auto simp: cand_ok_def)
  have "sc \<in> num_cands" by (rule cand_ok_number [OF ok cand])
  with e h ok show ?thesis
    by (auto simp: add_entry_point_def AddToVisited_def CountElement_def cand_tid_def etid_def Let_def
        search_ok_def intro: near.heap_inv_add far.heap_inv_add)
qed

lemma entry_points_ok:
  assumes ok: "search_ok a index"
  shows "near.heap_inv (ss_C st) \<Longrightarrow> far.heap_inv (ss_W st) \<Longrightarrow>
    \<forall>sc \<in> set ep. cand_ok a index (ss_mem st) sc \<Longrightarrow>
    \<exists>st'. foldE (add_entry_point a init) ep st = Inr st' \<and> near.heap_inv (ss_C st') \<and> far.heap_inv (ss_W st') \<and>
      mset_heap (ss_C st') = mset ep + mset_heap (ss_C st) \<and>
      mset_heap (ss_W st') = mset ep + mset_heap (ss_W st) \<and>
      (\<not> sa_skip a \<longrightarrow> ss_wlen st' = length ep + ss_wlen st) \<and>
      ss_mem st' = ss_mem st \<and> ss_trace st' = ss_trace st \<and>
      vh_tids (ss_v st') = (if init then cand_tid (ss_mem st) ` set ep \<union> vh_tids (ss_v st)
                            else vh_tids (ss_v st))"
proof (induction ep arbitrary: st)
  case (Cons sc ep)
  from add_entry_point_ok [OF ok _ Cons.prems(1,2), of sc init] Cons.prems(3) obtain st1 where
    st1: "add_entry_point a init sc st = Inr st1" "near.heap_inv (ss_C st1)" "far.heap_inv (ss_W st1)"
      "mset_heap (ss_C st1) = add_mset sc (mset_heap (ss_C st))"
      "mset_heap (ss_W st1) = add_mset sc (mset_heap (ss_W st))"
      "\<not> sa_skip a \<longrightarrow> ss_wlen st1 = Suc (ss_wlen st)"
      "ss_mem st1 = ss_mem st" "ss_trace st1 = ss_trace st"
      "vh_tids (ss_v st1) = (if init then insert (cand_tid (ss_mem st) sc) (vh_tids (ss_v st))
                             else vh_tids (ss_v st))"
    by auto
  from Cons.IH [OF st1(2,3)] Cons.prems(3) st1 show ?case by auto
qed simp

text \<open>The elements visited before the search, as seen from a call of \<^verbatim>\<open>HnswSearchLayer\<close>.\<close>

definition visited_before ::
  "HnswSearchCandidate list \<Rightarrow> visited_hash option \<Rightarrow> bool \<Rightarrow> 'v memory \<Rightarrow> ItemPointerData set" where
  "visited_before ep v initVisited mem =
     (if v = None \<or> initVisited then {} else vh_tids (the v) - cand_tid mem ` set ep)"

lemma entry_inv:
  assumes ok: "search_ok a index" and mem: "mem_ok mem" and tr: "trace_safe index trace"
    and ep: "ep \<noteq> []" "\<forall>sc \<in> set ep. cand_ok a index mem sc" "\<not> sa_skip a \<longrightarrow> length ep \<le> sa_ef a"
  shows "\<exists>st. foldE (add_entry_point a (v = None \<or> init)) ep
      (search_init v discarded (v = None \<or> init) tuples trace mem) = Inr st \<and>
    search_inv a index (visited_before ep v init mem) {} st"
proof -
  let ?i = "v = None \<or> init" and ?st0 = "search_init v discarded (v = None \<or> init) tuples trace mem"
  have h0: "near.heap_inv (ss_C ?st0)" "far.heap_inv (ss_W ?st0)" "mset_heap (ss_C ?st0) = {#}"
    "mset_heap (ss_W ?st0) = {#}" "ss_wlen ?st0 = 0" "ss_mem ?st0 = mem" "ss_trace ?st0 = trace"
    "vh_tids (ss_v ?st0) = (if ?i then {} else vh_tids (the v))"
    by (auto simp: search_init_def InitVisited_def)
  have cand: "\<forall>sc \<in> set ep. cand_ok a index (ss_mem ?st0) sc" using ep(2) h0(6) by simp
  obtain st where
    st: "foldE (add_entry_point a ?i) ep ?st0 = Inr st" "near.heap_inv (ss_C st)" "far.heap_inv (ss_W st)"
      "mset_heap (ss_C st) = mset ep" "mset_heap (ss_W st) = mset ep"
      "\<not> sa_skip a \<longrightarrow> ss_wlen st = length ep" "ss_mem st = mem" "ss_trace st = trace"
      "vh_tids (ss_v st) = (if ?i then cand_tid mem ` set ep else vh_tids (the v))"
    using entry_points_ok [OF ok h0(1,2) cand, of ?i] unfolding h0(3-8)
    by (elim exE conjE) (rule that, simp_all split: if_splits, auto)
  have "covered a index mem (mset ep) (ss_wlen st) tid"
    if "tid \<in> vh_tids (ss_v st) - visited_before ep v init mem" for tid
    using that st(9) by (auto simp: visited_before_def covered_def split: if_splits)
  then have "search_inv a index (visited_before ep v init mem) {} st"
    using st ep mem tr by (auto simp: search_inv_def)
  with st(1) show ?thesis by blast
qed

lemma search_layer_done:
  assumes "search_ok a index" "mem_ok mem" "trace_safe index trace"
    and "ep \<noteq> []" "\<forall>sc \<in> set ep. cand_ok a index mem sc" "\<not> sa_skip a \<longrightarrow> length ep \<le> sa_ef a"
  shows "HnswSearchLayer a ep v discarded init tuples trace mem = Inl out_of_memory \<or>
    (\<exists>st. HnswSearchLayer a ep v discarded init tuples trace mem = Inr (drain_candidates (ss_W st), st) \<and>
       search_done a index (visited_before ep v init mem) st)"
proof -
  obtain st0 where st0: "foldE (add_entry_point a (v = None \<or> init)) ep
      (search_init v discarded (v = None \<or> init) tuples trace mem) = Inr st0"
    "search_inv a index (visited_before ep v init mem) {} st0"
    using entry_inv [OF assms] by blast
  then have "HnswSearchLayer a ep v discarded init tuples trace mem =
      bindE (search_loop a st0) (\<lambda>st1. Inr (drain_candidates (ss_W st1), st1))"
    by (simp add: HnswSearchLayer_def)
  with loop_inv [OF assms(1) st0(2)] show ?thesis by (elim disjE exE conjE) auto
qed

lemma search_done_result:
  assumes "search_done a index V0 st"
  defines "w \<equiv> drain_candidates (ss_W st)"
  shows "w \<noteq> []" "sorted_wrt (\<lambda>a b. float8_le (sc_distance b) (sc_distance a)) w"
    "\<not> sa_skip a \<Longrightarrow> length w = min (ss_wlen st) (sa_ef a)"
    "\<And>sc. sc \<in> set w \<Longrightarrow> cand_ok a index (ss_mem st) sc"
    "mem_ok (ss_mem st)" "trace_safe index (ss_trace st)"
    "\<And>tid. tid \<in> vh_tids (ss_v st) - V0 \<Longrightarrow> covered a index (ss_mem st) (mset w) (ss_wlen st) tid"
    "\<And>sc. sc \<in> set w \<Longrightarrow> expanded a index (ss_mem st) (vh_tids (ss_v st)) sc"
proof -
  note inv = assms(1) [unfolded search_done_def, THEN conjunct1]
  note h = search_inv_heaps [OF inv]
  have w: "mset w = mset_heap (ss_W st)" by (simp add: w_def drain_candidates_mset)
  then have s: "set w = set_mset (mset_heap (ss_W st))" "length w = size (mset_heap (ss_W st))"
    by (metis set_mset_mset) (metis size_mset w)
  show "w \<noteq> []" using w h(3) by auto
  show "sorted_wrt (\<lambda>a b. float8_le (sc_distance b) (sc_distance a)) w"
    unfolding w_def by (rule drain_candidates_sorted [OF h(2)])
  show "length w = min (ss_wlen st) (sa_ef a)" if "\<not> sa_skip a" using h(8) [OF that] s(2) by simp
  show "cand_ok a index (ss_mem st) sc" if "sc \<in> set w" for sc using h(5) that s(1) by simp
  show "mem_ok (ss_mem st)" "trace_safe index (ss_trace st)" by (rule h(6), rule h(7))
  show "covered a index (ss_mem st) (mset w) (ss_wlen st) tid" if "tid \<in> vh_tids (ss_v st) - V0" for tid
    using inv that w by (auto simp: search_inv_def)
  show "expanded a index (ss_mem st) (vh_tids (ss_v st)) sc" if "sc \<in> set w" for sc
    using assms(1) that s(1) by (simp add: search_done_def)
qed

end
