(* ===== verification/Example_Index.thy ===== *)
theory Example_Index
  imports Hnsw_Search_Correct "HOL-Library.Code_Target_Nat"
begin

section \<open>A small index\<close>

text \<open>
  An index with two elements at level 0 that are each other's only neighbor, on one page, with
  \<^verbatim>\<open>m = 2\<close>. The values are integers and the distance is 0 for equal values and 1 otherwise. The
  witnesses of the theorems on searches, scans and updates run on it.
\<close>

definition ex_distance :: "int \<Rightarrow> int \<Rightarrow> float8 result" where
  "ex_distance x y = Inr (if x = y then 0 else 0x3FF0000000000000)"

definition ex_tid :: "OffsetNumber \<Rightarrow> ItemPointerData" where
  "ex_tid off = ItemPointerSet 1 off"

definition ex_etup :: "OffsetNumber \<Rightarrow> int \<Rightarrow> OffsetNumber \<Rightarrow> int HnswElementTupleData" where
  "ex_etup heapoff v noff =
     \<lparr>et_type = 1, et_level = 0, et_deleted = 0, et_version = 1,
      et_heaptids = ItemPointerSet 0 heapoff # replicate 9 ItemPointerSetInvalid,
      et_neighbortid = ex_tid noff, et_data = Some v\<rparr>"

definition ex_ntup :: "OffsetNumber \<Rightarrow> HnswNeighborTupleData" where
  "ex_ntup off =
     \<lparr>nt_type = 2, nt_version = 1, nt_count = 4,
      nt_indextids = ex_tid off # replicate 3 ItemPointerSetInvalid\<rparr>"

definition ex_page :: "int hnsw_page" where
  "ex_page =
     \<lparr>pd_has_free_lines = False, pd_lower = 40, pd_upper = 7960, pd_special = 8184,
      pd_linp = [\<lparr>lp_off = 8104, lp_flags = 1, lp_len = 80\<rparr>, \<lparr>lp_off = 8072, lp_flags = 1, lp_len = 32\<rparr>,
                 \<lparr>lp_off = 7992, lp_flags = 1, lp_len = 80\<rparr>, \<lparr>lp_off = 7960, lp_flags = 1, lp_len = 32\<rparr>],
      pd_data = [8104 \<mapsto> ETup (ex_etup 1 10 2), 8072 \<mapsto> NTup (ex_ntup 3),
                 7992 \<mapsto> ETup (ex_etup 2 20 4), 7960 \<mapsto> NTup (ex_ntup 1)],
      pd_opaque = \<lparr>po_nextblkno = InvalidBlockNumber, po_unused = 0, po_page_id = HNSW_PAGE_ID\<rparr>\<rparr>"

definition ex_index :: "int relation" where
  "ex_index =
     \<lparr>rd_options = None, rd_distance_proc = ex_distance, rd_norm_proc = None, rd_type_info_proc = None,
      rd_l2_normalize = Inr, rd_varsize = (\<lambda>_. 8),
      rd_meta = \<lparr>mp_magicNumber = HNSW_MAGIC_NUMBER, mp_version = HNSW_VERSION, mp_dimensions = 1, mp_m = 2,
                 mp_efConstruction = 64, mp_entryBlkno = 1, mp_entryOffno = 1, mp_entryLevel = 0,
                 mp_insertPage = 1\<rparr>,
      rd_blocks = [ex_page]\<rparr>"

text \<open>Allocations at increasing addresses, up to a limit.\<close>

definition ex_memory :: "int memory" where
  "ex_memory =
     \<lparr>mem_elems = Map.empty, mem_count = 0,
      mem_addr = (\<lambda>i. if i < 1000 then Some (word_of_nat (128 * Suc i)) else None)\<rparr>"

definition ex_args :: "int search_args" where
  "ex_args =
     \<lparr>sa_q = Some 20, sa_ef = 2, sa_lc = 0, sa_index = Some ex_index, sa_support = HnswInitSupport ex_index,
      sa_m = 2, sa_inserting = False, sa_skip = False\<rparr>"

text \<open>The entry point of the index loaded into memory.\<close>

definition ex_loaded :: "OffsetNumber \<Rightarrow> OffsetNumber \<Rightarrow> OffsetNumber \<Rightarrow> int HnswElementData" where
  "ex_loaded off heapoff noff =
     blank_element\<lparr>he_blkno := 1, he_offno := off, he_version := 1, he_neighborPage := 1,
       he_neighborOffno := noff, he_heaptids := [ItemPointerSet 0 heapoff]\<rparr>"

definition ex_mem1 :: "int memory" where
  "ex_mem1 = ex_memory\<lparr>mem_elems := [128 \<mapsto> ex_loaded 1 1 2], mem_count := 1\<rparr>"

definition ex_entry :: HnswSearchCandidate where
  "ex_entry = \<lparr>sc_element = 128, sc_distance = 0x3FF0000000000000\<rparr>"

subsection \<open>Facts about it\<close>

text \<open>The page is the one that adding the four tuples to a new page gives.\<close>

lemma ex_page_built:
  "foldE (\<lambda>(item, sz) p. bindE (PageAddItem p item sz 0 False False) (\<lambda>(off, p'). Inr p'))
     [(ETup (ex_etup 1 10 2), 80), (NTup (ex_ntup 3), 32), (ETup (ex_etup 2 20 4), 80),
      (NTup (ex_ntup 1), 32)] HnswInitPage = Inr ex_page"
  by (simp add: PageAddItem_def PageAddItemExtended_def place_item_def HnswInitPage_def PageInit_def
      page_pointers_ok_def PageGetMaxOffsetNumber_def OffsetNumberIsValid_def OffsetNumberNext_def
      InvalidOffsetNumber_def ex_page_def hnsw_size_defs MAXALIGN_def Let_def)

lemma ex_page_inv: "page_inv ex_page"
proof -
  have all: "(\<forall>i < Suc (Suc (Suc (Suc 0))). P i) \<longleftrightarrow> P 0 \<and> P 1 \<and> P 2 \<and> P 3" for P
    by (simp add: All_less_Suc numeral_2_eq_2 numeral_3_eq_3) blast
  show ?thesis
    by (simp add: page_inv_def page_pointers_ok_def ex_page_def lp_ok_def lp_disjoint_def hnsw_size_defs
        MAXALIGN_def all)
qed

lemma ex_page_tuples:
  "page_tuples ex_page =
     [(ETup (ex_etup 1 10 2), 80), (NTup (ex_ntup 3), 32), (ETup (ex_etup 2 20 4), 80), (NTup (ex_ntup 1), 32)]"
  by (simp add: page_tuples_def ex_page_def)

lemma ex_ReadItem:
  "ReadItem ex_index b off =
     (if b = 0 then Inl (BadAccess ''metapage'')
      else if b \<noteq> 1 then Inl (Elog ''could not read block'')
      else if off = 1 then Inr (ETup (ex_etup 1 10 2)) else if off = 2 then Inr (NTup (ex_ntup 3))
      else if off = 3 then Inr (ETup (ex_etup 2 20 4)) else if off = 4 then Inr (NTup (ex_ntup 1))
      else Inl (BadAccess ''PageGetItemId''))"
proof -
  have b: "(unat b = 1) = (b = 1)" "(unat b = 0) = (b = 0)" by (simp_all add: word_unat_eq_iff)
  have o: "(unat off = 0) = (off = 0)" "(unat off = 1) = (off = 1)" "(unat off = 2) = (off = 2)"
    "(unat off = 3) = (off = 3)" "(unat off = 4) = (off = 4)" by (simp_all add: word_unat_eq_iff)
  have "PageGetTuple ex_page off =
      (if off = 1 then Inr (ETup (ex_etup 1 10 2)) else if off = 2 then Inr (NTup (ex_ntup 3))
       else if off = 3 then Inr (ETup (ex_etup 2 20 4)) else if off = 4 then Inr (NTup (ex_ntup 1))
       else Inl (BadAccess ''PageGetItemId''))"
  proof -
    consider "unat off \<in> {0, 1, 2, 3, 4}" | "unat off > 4" by fastforce
    then show ?thesis
      using o
      by cases (auto simp: PageGetTuple_def PageGetItemId_def PageGetItem_def array_get_def ex_page_def)
  qed
  moreover have "unat b - 1 < 1 \<longleftrightarrow> b = 0 \<or> b = 1" using b by linarith
  ultimately show ?thesis
    by (auto simp: ReadItem_def ReadBuffer_def HNSW_METAPAGE_BLKNO_def ex_index_def)
qed

lemma ex_live_at:
  "live_at ex_index tid etup \<longleftrightarrow>
     tid = ex_tid 1 \<and> etup = ex_etup 1 10 2 \<or> tid = ex_tid 3 \<and> etup = ex_etup 2 20 4"
proof -
  have t: "tid = ex_tid off \<longleftrightarrow> ItemPointerGetBlockNumber tid = 1 \<and> ItemPointerGetOffsetNumber tid = off" for off
    by (metis ItemPointerSet_Get ItemPointerSet_fields ex_tid_def)
  show ?thesis
    unfolding t by (auto simp: live_at_def etup_at_def ex_ReadItem ex_etup_def)
qed

lemma ex_ntup_at: "ntup_at ex_index (ex_tid 2) = Some (ex_ntup 3)" "ntup_at ex_index (ex_tid 4) = Some (ex_ntup 1)"
  by (simp_all add: ntup_at_def ex_tid_def ex_ReadItem)

lemma ex_tid_valid [simp]: "ItemPointerIsValid (ex_tid off) \<longleftrightarrow> off \<noteq> 0"
  by (simp add: ex_tid_def)

lemma ex_index_ok: "index_ok ex_index 2"
  unfolding index_ok_def ex_live_at ntup_ok_def
  by (auto simp: ex_etup_def ex_ntup_at HNSW_HEAPTIDS_def ex_ntup_def ex_live_at)

lemma ex_search_ok: "search_ok ex_args ex_index"
  using ex_index_ok
  by (simp add: search_ok_def ex_args_def distances_ok_def ex_live_at HnswGetDistance_def HnswInitSupport_def
      ex_index_def ex_distance_def float8_isnan_def fisnan_def fmag_def finf_def HNSW_MAX_M_def)

lemma unat_address: "n < 2 ^ 64 \<Longrightarrow> unat (word_of_nat n :: eptr) = n"
  by (simp add: unsigned_of_nat take_bit_nat_eq_self)

lemma ex_addr: "i < 1000 \<Longrightarrow> unat (word_of_nat (128 * Suc i) :: eptr) = 128 * Suc i"
  by (rule unat_address) simp

lemma ex_addr_inj:
  assumes "i < 1000" "j < 1000" "(word_of_nat (128 * Suc i) :: eptr) = word_of_nat (128 * Suc j)"
  shows "i = j"
proof -
  have "128 * Suc i = 128 * Suc j"
    using ex_addr [OF assms(1)] unfolding assms(3) ex_addr [OF assms(2)] by (rule sym)
  then show ?thesis by simp
qed

lemma ex_mem1_ok: "mem_ok ex_mem1"
proof -
  have "(word_of_nat (128 * Suc i) :: eptr) \<noteq> 0" if "i < 1000" for i
  proof
    assume "(word_of_nat (128 * Suc i) :: eptr) = 0"
    then show False using ex_addr [OF that] by (simp only: unsigned_0) simp
  qed
  then show ?thesis
    using ex_addr_inj unfolding mem_ok_def ex_mem1_def ex_memory_def
    by (auto simp del: of_nat_mult of_nat_Suc split: if_splits)
qed

lemma ex_entry_ok: "cand_ok ex_args ex_index ex_mem1 ex_entry"
proof -
  have "live_at ex_index (etid (ex_loaded 1 1 2)) (ex_etup 1 10 2)"
    by (simp add: ex_live_at etid_def ex_loaded_def ex_tid_def)
  moreover have "loaded (ex_loaded 1 1 2) (ex_etup 1 10 2)"
    by (simp add: loaded_def ex_loaded_def ex_etup_def ex_tid_def blank_element_def)
  moreover have "sc_distance ex_entry = tuple_distance (sa_q ex_args) (sa_support ex_args) (ex_etup 1 10 2)"
    by (simp add: ex_entry_def tuple_distance_def ex_args_def ex_etup_def HnswGetDistance_def
        HnswInitSupport_def ex_index_def ex_distance_def)
  moreover have "mem_elems ex_mem1 (sc_element ex_entry) = Some (ex_loaded 1 1 2)"
    by (simp add: ex_mem1_def ex_entry_def)
  ultimately show ?thesis unfolding cand_ok_def by (auto simp: ex_args_def)
qed

text \<open>Searching it for the value 20 from the entry point finds both elements.\<close>

lemma ex_search:
  "\<exists>st. HnswSearchLayer ex_args [ex_entry] None None True None None ex_mem1 =
      Inr ([ex_entry, \<lparr>sc_element = 256, sc_distance = 0\<rparr>], st) \<and>
    vh_tids (ss_v st) = {ex_tid 1, ex_tid 3} \<and> mem_elems (ss_mem st) 128 = Some (ex_loaded 1 1 2) \<and>
    mem_elems (ss_mem st) 256 = Some (ex_loaded 3 2 4)"
proof -
  have "map_sum id (\<lambda>(w, st). (w, vh_tids (ss_v st), mem_elems (ss_mem st) 128, mem_elems (ss_mem st) 256))
      (HnswSearchLayer ex_args [ex_entry] None None True None None ex_mem1) =
    Inr ([ex_entry, \<lparr>sc_element = 256, sc_distance = 0\<rparr>], {ex_tid 1, ex_tid 3},
         Some (ex_loaded 1 1 2), Some (ex_loaded 3 2 4))"
    by code_simp
  then show ?thesis by (cases "HnswSearchLayer ex_args [ex_entry] None None True None None ex_mem1") auto
qed

end
