(* ===== verification/Float_Arith.thy ===== *)
theory Float_Arith
  imports Float_Format
begin

section \<open>Floating-point arithmetic\<close>

text \<open>
  Addition and multiplication of a binary format, rounded to nearest with ties to even: the exact
  result is an integer times a power of two, which \<^const>\<open>fround_mag\<close> rounds. An operation without a
  meaningful result gives the quiet \<^verbatim>\<open>NaN\<close> with a clear sign.
\<close>

definition fnan :: "nat \<Rightarrow> nat \<Rightarrow> nat" where
  "fnan mb eb = finf mb eb + 2 ^ (mb - 1)"

definition fmul :: "nat \<Rightarrow> nat \<Rightarrow> nat \<Rightarrow> nat \<Rightarrow> nat" where
  "fmul mb eb x y =
     (let r = fmag mb eb x; s = fmag mb eb y; neg = (fsign mb eb x \<noteq> fsign mb eb y) in
      if fisnan mb eb x \<or> fisnan mb eb y then fnan mb eb
      else if fisinf mb eb x \<or> fisinf mb eb y
      then if r = 0 \<or> s = 0 then fnan mb eb else fpack mb eb neg (finf mb eb)
      else fpack mb eb neg (fround_mag mb eb (fsig mb r * fsig mb s) (fexp mb eb r + fexp mb eb s)))"

text \<open>The signed integer \<open>x\<close> stands for in units of \<open>2 ^ e\<close>, for \<open>e\<close> at most its exponent.\<close>

definition fscaled :: "nat \<Rightarrow> nat \<Rightarrow> int \<Rightarrow> nat \<Rightarrow> int" where
  "fscaled mb eb e x =
     (let r = fmag mb eb x; n = int (fsig mb r) * 2 ^ nat (fexp mb eb r - e)
      in if fsign mb eb x then - n else n)"

definition fadd :: "nat \<Rightarrow> nat \<Rightarrow> nat \<Rightarrow> nat \<Rightarrow> nat" where
  "fadd mb eb x y =
     (if fisnan mb eb x \<or> fisnan mb eb y then fnan mb eb
      else if fisinf mb eb x
      then if fisinf mb eb y \<and> fsign mb eb x \<noteq> fsign mb eb y then fnan mb eb
           else fpack mb eb (fsign mb eb x) (finf mb eb)
      else if fisinf mb eb y then fpack mb eb (fsign mb eb y) (finf mb eb)
      else
        let e = min (fexp mb eb (fmag mb eb x)) (fexp mb eb (fmag mb eb y));
            n = fscaled mb eb e x + fscaled mb eb e y
        in if n = 0 then fpack mb eb (fsign mb eb x \<and> fsign mb eb y) 0
           else fpack mb eb (n < 0) (fround_mag mb eb (nat \<bar>n\<bar>) e))"

definition float8_mul :: "float8 \<Rightarrow> float8 \<Rightarrow> float8" where
  "float8_mul x y = word_of_nat (fmul 52 11 (unat x) (unat y))"

definition float8_add :: "float8 \<Rightarrow> float8 \<Rightarrow> float8" where
  "float8_add x y = word_of_nat (fadd 52 11 (unat x) (unat y))"

text \<open>Conversions: \<^verbatim>\<open>(double) n\<close>, and \<^verbatim>\<open>(Size) x\<close> of a non-negative finite \<open>x\<close>, which drops the fraction.\<close>

definition float8_of_nat :: "nat \<Rightarrow> float8" where
  "float8_of_nat n = word_of_nat (fround_mag 52 11 n 0)"

definition float8_to_nat :: "float8 \<Rightarrow> nat" where
  "float8_to_nat x =
     (let r = fmag 52 11 (unat x); e = fexp 52 11 r
      in if 0 \<le> e then fsig 52 r * 2 ^ nat e else fsig 52 r div 2 ^ nat (- e))"

definition float8_infinity :: float8 where
  "float8_infinity = 0x7FF0000000000000"

definition float8_minus_infinity :: float8 where
  "float8_minus_infinity = 0xFFF0000000000000"

text \<open>Nothing is less than minus infinity.\<close>

lemma minus_infinity_least: "\<not> float8_lt x float8_minus_infinity"
proof (cases "float8_isnan x")
  case False
  have "fmag 52 11 (unat x) \<le> finf 52 11"
    using False by (simp add: float8_isnan_def fisnan_def)
  then have "float8_key float8_minus_infinity \<le> float8_key x"
    by (simp add: float8_key_def fkey_def float8_minus_infinity_def fmag_def fsign_def finf_def)
  then show ?thesis by (simp add: float8_lt_key)
qed (simp add: float8_lt_key)

end
