(* ===== verification/Hnsw_Scan.thy ===== *)
theory Hnsw_Scan
  imports Hnsw_Search_Correct Float_Arith
begin

section \<open>Index scans (src/hnswscan.c)\<close>

text \<open>
  An ordered scan: the first call of \<^verbatim>\<open>hnswgettuple\<close> searches the index, every call hands out one heap
  TID, and an iterative scan resumes the search with the candidates it had discarded. The memory
  argument is the scan's \<^verbatim>\<open>tmpCtx\<close>. Locks are left out. What the code reads of the rest of the system is an
  argument: the settings, the buffer counters with the clock, and \<^verbatim>\<open>MemoryContextMemAllocated\<close> as a
  function of the memory.
\<close>

datatype HnswIterativeScanMode =
  HNSW_ITERATIVE_SCAN_OFF | HNSW_ITERATIVE_SCAN_RELAXED | HNSW_ITERATIVE_SCAN_STRICT

record hnsw_settings =
  gs_ef_search :: nat
  gs_iterative_scan :: HnswIterativeScanMode
  gs_max_scan_tuples :: int
  gs_scan_mem_multiplier :: float8
  gs_trace_enabled :: bool
  gs_work_mem :: nat

text \<open>One look at \<^verbatim>\<open>pgBufferUsage\<close> and the clock.\<close>

record observation =
  ob_hit :: int
  ob_read :: int
  ob_time :: int

text \<open>
  \<open>so_trace\<close> is \<open>None\<close> while the trace is the uninitialized memory \<^verbatim>\<open>palloc\<close> returned, and using it then is
  an invalid access. \<open>so_v\<close> is \<open>None\<close> for \<^verbatim>\<open>v.tids == NULL\<close>.
\<close>

record 'v HnswScanOpaqueData =
  so_typeInfo :: "'v HnswTypeInfo"
  so_first :: bool
  so_w :: "HnswSearchCandidate list"
  so_v :: "visited_hash option"
  so_discarded :: "HnswSearchCandidate pairingheap option"
  so_q :: "'v option"
  so_m :: nat
  so_tuples :: int
  so_previousDistance :: float8
  so_maxMemory :: nat
  so_support :: "'v HnswSupport"
  so_trace :: "HnswTraceStats option"
  so_query_id :: int

text \<open>A scan key is its argument, \<open>None\<close> under \<^verbatim>\<open>SK_ISNULL\<close>. The key arrays are \<open>None\<close> for \<^verbatim>\<open>NULL\<close>.\<close>

type_synonym 'v ScanKeyData = "'v option"

record 'v IndexScanDescData =
  sd_numberOfKeys :: nat
  sd_numberOfOrderBys :: nat
  sd_keyData :: "'v ScanKeyData list option"
  sd_orderByData :: "'v ScanKeyData list option"
  sd_mvcc :: bool
  sd_nsearches :: "int option"
  sd_xs_heaptid :: ItemPointerData
  sd_xs_recheck :: bool
  sd_xs_recheckorderby :: bool
  sd_opaque :: "'v HnswScanOpaqueData option"

subsection \<open>Searching\<close>

definition scan_args ::
  "'v option \<Rightarrow> nat \<Rightarrow> nat \<Rightarrow> 'v relation \<Rightarrow> 'v HnswSupport \<Rightarrow> nat \<Rightarrow> 'v search_args" where
  "scan_args q ef lc index support m =
     \<lparr>sa_q = q, sa_ef = ef, sa_lc = lc, sa_index = Some index, sa_support = support, sa_m = m,
      sa_inserting = False, sa_skip = False\<rparr>"

text \<open>The argument \<^verbatim>\<open>hnsw_trace_enabled ? &so->trace : NULL\<close>, and what a call leaves in \<^verbatim>\<open>so->trace\<close>.\<close>

definition trace_arg :: "hnsw_settings \<Rightarrow> 'v HnswScanOpaqueData \<Rightarrow> HnswTraceStats option result" where
  "trace_arg gs so =
     (if \<not> gs_trace_enabled gs then Inr None
      else case so_trace so of None \<Rightarrow> Inl (BadAccess ''trace'') | Some t \<Rightarrow> Inr (Some t))"

definition trace_back ::
  "HnswTraceStats option \<Rightarrow> 'v HnswScanOpaqueData \<Rightarrow> 'v HnswScanOpaqueData" where
  "trace_back trace so = (case trace of None \<Rightarrow> so | Some t \<Rightarrow> so\<lparr>so_trace := Some t\<rparr>)"

text \<open>The search of the layers \<open>lcs\<close> above the ground layer, one candidate each.\<close>

fun scan_descent ::
  "'v option \<Rightarrow> 'v relation \<Rightarrow> 'v HnswSupport \<Rightarrow> nat \<Rightarrow> nat list
    \<Rightarrow> HnswSearchCandidate list \<times> HnswTraceStats option \<times> 'v memory
    \<Rightarrow> (HnswSearchCandidate list \<times> HnswTraceStats option \<times> 'v memory) result" where
  "scan_descent q index support m [] (ep, trace, mem) = Inr (ep, trace, mem)"
| "scan_descent q index support m (lc # lcs) (ep, trace, mem) =
     bindE (HnswSearchLayer (scan_args q 1 lc index support m) ep None None True None trace mem)
       (\<lambda>(w, st). scan_descent q index support m lcs (w, ss_trace st, ss_mem st))"

definition GetScanItems ::
  "hnsw_settings \<Rightarrow> 'v relation \<Rightarrow> 'v HnswScanOpaqueData \<Rightarrow> 'v option \<Rightarrow> 'v memory
    \<Rightarrow> (HnswSearchCandidate list \<times> 'v HnswScanOpaqueData \<times> 'v memory) result" where
  "GetScanItems gs index so0 v mem =
     bindE (HnswGetMetaPageInfo index True mem) (\<lambda>(m, entryPoint, mem1).
     let so = so0\<lparr>so_q := v, so_m := m\<rparr>; support = so_support so in
     case entryPoint of
       None \<Rightarrow> Inr ([], so, mem1)
     | Some entry \<Rightarrow>
         bindE (HnswEntryCandidate entry v (Some index) support False mem1) (\<lambda>(sc, mem2).
         bindE (HnswPtrAccess mem2 entry) (\<lambda>e.
         bindE (trace_arg gs so) (\<lambda>trace.
         bindE (scan_descent v index support m (rev [1..<Suc (unat (he_level e))]) ([sc], trace, mem2))
           (\<lambda>(ep, trace1, mem3).
         bindE (HnswSearchLayer (scan_args v (gs_ef_search gs) 0 index support m) ep
                  (Some InitVisited)
                  (if gs_iterative_scan gs \<noteq> HNSW_ITERATIVE_SCAN_OFF
                   then Some (pairingheap_allocate CompareNearestDiscardedCandidates) else None)
                  True (Some (so_tuples so)) trace1 mem3) (\<lambda>(w, st).
         Inr (w, trace_back (ss_trace st)
                (so\<lparr>so_v := Some (ss_v st),
                    so_discarded := (if gs_iterative_scan gs \<noteq> HNSW_ITERATIVE_SCAN_OFF
                                     then ss_discarded st else so_discarded so),
                    so_tuples := (case ss_tuples st of Some n \<Rightarrow> n | None \<Rightarrow> so_tuples so)\<rparr>),
              ss_mem st)))))))"

text \<open>The next batch: up to \<open>n\<close> candidates taken from the heap.\<close>

fun take_batch ::
  "nat \<Rightarrow> HnswSearchCandidate pairingheap \<Rightarrow> HnswSearchCandidate list \<times> HnswSearchCandidate pairingheap" where
  "take_batch 0 h = ([], h)"
| "take_batch (Suc n) h =
     (case pairingheap_remove_first h of
        None \<Rightarrow> ([], h)
      | Some (sc, h') \<Rightarrow> (let (ep, h'') = take_batch n h' in (sc # ep, h'')))"

text \<open>Called only when \<^verbatim>\<open>so->discarded\<close> is not \<^verbatim>\<open>NULL\<close>; \<open>discarded\<close> is that heap.\<close>

definition ResumeScanItems ::
  "hnsw_settings \<Rightarrow> 'v relation \<Rightarrow> HnswSearchCandidate pairingheap \<Rightarrow> 'v HnswScanOpaqueData \<Rightarrow> 'v memory
    \<Rightarrow> (HnswSearchCandidate list \<times> 'v HnswScanOpaqueData \<times> 'v memory) result" where
  "ResumeScanItems gs index discarded so mem =
     (if pairingheap_is_empty discarded then Inr ([], so, mem)
      else
        let batch_size = gs_ef_search gs; (ep, h) = take_batch batch_size discarded in
        bindE (ofOption (BadAccess ''v'') (so_v so)) (\<lambda>v.
        bindE (trace_arg gs so) (\<lambda>trace.
        bindE (HnswSearchLayer (scan_args (so_q so) batch_size 0 index (so_support so) (so_m so)) ep
                 (Some v) (Some h) False (Some (so_tuples so)) trace mem) (\<lambda>(w, st).
        Inr (w, trace_back (ss_trace st)
               (so\<lparr>so_v := Some (ss_v st), so_discarded := ss_discarded st,
                   so_tuples := (case ss_tuples st of Some n \<Rightarrow> n | None \<Rightarrow> so_tuples so)\<rparr>),
             ss_mem st)))))"

definition GetScanValue ::
  "'v ScanKeyData list \<Rightarrow> 'v HnswScanOpaqueData \<Rightarrow> 'v option result" where
  "GetScanValue orderByData so =
     bindE (array_get ''orderByData'' orderByData 0) (\<lambda>key.
     case key of
       None \<Rightarrow> Inr None
     | Some v \<Rightarrow>
         if su_normprocinfo (so_support so) \<noteq> None
         then bindE (HnswNormValue (so_typeInfo so) v) (\<lambda>v'. Inr (Some v'))
         else Inr (Some v))"

subsection \<open>A search hands out no more than it was given or newly visits\<close>

definition disc_size :: "HnswSearchCandidate pairingheap option \<Rightarrow> nat" where
  "disc_size d = (case d of None \<Rightarrow> 0 | Some h \<Rightarrow> size (mset_heap h))"

lemma disc_size_simps [simp]:
  "disc_size None = 0" "disc_size (Some h) = size (mset_heap h)"
  "disc_size (map_option (\<lambda>h. pairingheap_add h x) d) = (if d = None then 0 else Suc (disc_size d))"
  by (cases d; simp add: disc_size_def)+

definition search_size :: "'v search_state \<Rightarrow> nat" where
  "search_size st = size (mset_heap (ss_W st)) + disc_size (ss_discarded st) + unvisited_count (ss_v st)"

lemma discard_size: "disc_size (ss_discarded (discard_candidate sc st)) \<le> Suc (disc_size (ss_discarded st))"
  by (simp add: discard_candidate_def)

lemma accept_size:
  assumes "accept_candidate a e st = Inr st'"
  shows "search_size st' \<le> Suc (search_size st)"
proof -
  have "size (mset_heap W') = size (mset_heap (ss_W st))"
    if "pairingheap_remove_first (pairingheap_add (ss_W st) e) = Some (d, W')" for d W'
    using arg_cong [OF pairingheap_remove_first_mset [OF that], of size] by simp
  with assms show ?thesis
    by (auto simp: accept_candidate_def Let_def search_size_def discard_candidate_def split: if_splits)
qed

lemma visit_size:
  assumes "visit_neighbor a u st = Inr st'"
  shows "search_size st' \<le> Suc (search_size st)"
  using assms
proof (cases rule: visit_neighbor_cases)
  case (reject f d p st1)
  from load_unvisited_frame [OF reject(2)] discard_size [of "HnswInitSearchCandidate p d" st1] reject(4)
  show ?thesis by (simp add: search_size_def)
next
  case (accept f d p el st1)
  from load_unvisited_frame [OF accept(2)] accept_size [OF accept(6)] show ?thesis
    by (simp add: search_size_def)
next
  case (absent f d st1)
  from load_unvisited_frame [OF absent(2)] absent(3) show ?thesis by (simp add: search_size_def)
next
  case (low f d p el st1)
  from load_unvisited_frame [OF low(2)] low(5) show ?thesis by (simp add: search_size_def)
qed

lemma visits_size: "foldE (visit_neighbor a) us st = Inr st' \<Longrightarrow> search_size st' \<le> length us + search_size st"
proof (induction us arbitrary: st)
  case (Cons u us)
  then obtain s1 where s1: "visit_neighbor a u st = Inr s1" "foldE (visit_neighbor a) us s1 = Inr st'" by auto
  from visit_size [OF s1(1)] Cons.IH [OF s1(2)] show ?case by simp
qed simp

lemma expand_size:
  assumes "expand_candidate a c st = Inr (us, st')"
  shows "length us + search_size st' = search_size st"
proof -
  have "ss_W st' = ss_W st \<and> ss_discarded st' = ss_discarded st"
    using assms by (auto simp: expand_candidate_def Let_def)
  with expand_candidate_measure [OF assms] show ?thesis by (simp add: search_size_def)
qed

lemma step_size: "search_step a st = Inr (cont, st') \<Longrightarrow> search_size st' \<le> search_size st"
proof -
  assume "search_step a st = Inr (cont, st')"
  then obtain c C' f where c: "pairingheap_remove_first (ss_C st) = Some (c, C')"
    "pairingheap_first (ss_W st) = Some f"
    and step: "(if float8_lt (sc_distance f) (sc_distance c) then Inr (False, st\<lparr>ss_C := C'\<rparr>)
      else bindE (expand_candidate a c (st\<lparr>ss_C := C'\<rparr>)) (\<lambda>(us, st1).
        bindE (foldE (visit_neighbor a) us st1) (\<lambda>st2. Inr (True, st2)))) = Inr (cont, st')"
    by (auto simp: search_step_def)
  show ?thesis
  proof (cases "float8_lt (sc_distance f) (sc_distance c)")
    case True
    with step show ?thesis by (auto simp: search_size_def)
  next
    case False
    with step obtain us st1 where u: "expand_candidate a c (st\<lparr>ss_C := C'\<rparr>) = Inr (us, st1)"
      "foldE (visit_neighbor a) us st1 = Inr st'"
      by auto
    have "search_size (st\<lparr>ss_C := C'\<rparr>) = search_size st" by (simp add: search_size_def)
    with expand_size [OF u(1)] visits_size [OF u(2)] show ?thesis by linarith
  qed
qed

lemma loop_size: "search_loop a st = Inr st' \<Longrightarrow> search_size st' \<le> search_size st"
proof (induction a st rule: search_loop.induct)
  case (1 a st)
  show ?case
  proof (cases "pairingheap_is_empty (ss_C st)")
    case True
    with 1(2) have "st' = st" by (subst (asm) search_loop.simps) simp
    then show ?thesis by simp
  next
    case False
    with 1(2) obtain cont s1 where s: "search_step a st = Inr (cont, s1)"
      "(if cont then search_loop a s1 else Inr s1) = Inr st'"
      by (subst (asm) search_loop.simps) auto
    from step_size [OF s(1)] 1(1) [OF False s(1) refl] s(2) show ?thesis by (cases cont) auto
  qed
qed

lemma entry_points_size:
  "foldE (add_entry_point a False) ep st = Inr st' \<Longrightarrow> search_size st' = length ep + search_size st"
proof (induction ep arbitrary: st)
  case (Cons sc ep)
  then obtain s1 where s1: "add_entry_point a False sc st = Inr s1" "foldE (add_entry_point a False) ep s1 = Inr st'"
    by auto
  from s1(1) have "search_size s1 = Suc (search_size st)"
    by (auto simp: add_entry_point_def Let_def search_size_def split: if_splits)
  with Cons.IH [OF s1(2)] show ?case by simp
qed simp

lemma length_drain_candidates: "length (drain_candidates h) = size (mset_heap h)"
  by (metis drain_candidates_mset size_mset)

lemma resumed_search_size:
  assumes "HnswSearchLayer a ep (Some v) (Some h) False tuples trace mem = Inr (w, st)"
  shows "length w + disc_size (ss_discarded st) + unvisited_count (ss_v st) \<le>
    length ep + size (mset_heap h) + unvisited_count v"
proof -
  from assms obtain st0 where st0: "foldE (add_entry_point a False) ep
      (search_init (Some v) (Some h) False tuples trace mem) = Inr st0"
    and l: "search_loop a st0 = Inr st" "w = drain_candidates (ss_W st)"
    by (auto simp: HnswSearchLayer_def)
  have "search_size (search_init (Some v) (Some h) False tuples trace mem) = size (mset_heap h) + unvisited_count v"
    by (simp add: search_size_def search_init_def)
  with entry_points_size [OF st0] loop_size [OF l(1)] l(2) show ?thesis
    by (simp add: search_size_def length_drain_candidates)
qed

lemma take_batch_mset: "take_batch n h = (ep, h') \<Longrightarrow> mset_heap h = mset ep + mset_heap h'"
proof (induction n h arbitrary: ep h' rule: take_batch.induct)
  case (2 n h)
  show ?case
  proof (cases "pairingheap_remove_first h")
    case (Some r)
    obtain sc h1 where r: "r = (sc, h1)" by (rule prod.exhaust)
    obtain ep1 h2 where b: "take_batch n h1 = (ep1, h2)" by (rule prod.exhaust)
    from 2(1) [OF Some r [symmetric] b] pairingheap_remove_first_mset [of h sc h1] 2(2) Some r b show ?thesis by auto
  qed (use 2(2) in auto)
qed auto

subsection \<open>Handing out tuples\<close>

text \<open>
  \<open>scan_outcome\<close>: how a round of the loop of \<^verbatim>\<open>hnswgettuple\<close> ends. \<open>scan_refill\<close> is its first part, which gets new
  candidates when there are none (false: leave the loop); \<open>scan_fetch\<close> the rest. The element without heap
  TIDs is freed in an iterative scan.
\<close>

datatype scan_outcome = SBreak | SContinue | SReturn ItemPointerData

definition scan_refill ::
  "hnsw_settings \<Rightarrow> ('v memory \<Rightarrow> nat) \<Rightarrow> 'v relation \<Rightarrow> 'v HnswScanOpaqueData \<Rightarrow> 'v memory
    \<Rightarrow> (bool \<times> 'v HnswScanOpaqueData \<times> 'v memory) result" where
  "scan_refill gs allocated index so mem =
     (if so_w so \<noteq> [] then Inr (True, so, mem)
      else if gs_iterative_scan gs = HNSW_ITERATIVE_SCAN_OFF then Inr (False, so, mem)
      else case so_discarded so of
        None \<Rightarrow> Inr (False, so, mem)
      | Some h \<Rightarrow>
          if so_tuples so \<ge> gs_max_scan_tuples gs \<or> allocated mem > so_maxMemory so
          then (case pairingheap_remove_first h of
                  None \<Rightarrow> Inr (False, so, mem)
                | Some (sc, h') \<Rightarrow> Inr (True, so\<lparr>so_w := [sc], so_discarded := Some h'\<rparr>, mem))
          else bindE (ResumeScanItems gs index h so mem) (\<lambda>(w, so1, mem1).
                 Inr (w \<noteq> [], so1\<lparr>so_w := w\<rparr>, mem1)))"

definition scan_fetch ::
  "hnsw_settings \<Rightarrow> 'v HnswScanOpaqueData \<Rightarrow> 'v memory
    \<Rightarrow> (scan_outcome \<times> 'v HnswScanOpaqueData \<times> 'v memory) result" where
  "scan_fetch gs so mem =
     (let sc = last (so_w so) in
      bindE (HnswPtrAccess mem (sc_element sc)) (\<lambda>element.
      if he_heaptids element = []
      then Inr (SContinue, so\<lparr>so_w := butlast (so_w so)\<rparr>,
                if gs_iterative_scan gs \<noteq> HNSW_ITERATIVE_SCAN_OFF
                then mem\<lparr>mem_elems := (mem_elems mem)(sc_element sc := None)\<rparr> else mem)
      else
        let heaptid = last (he_heaptids element);
            mem1 = element_store mem (sc_element sc) (element\<lparr>he_heaptids := butlast (he_heaptids element)\<rparr>)
        in if gs_iterative_scan gs = HNSW_ITERATIVE_SCAN_STRICT
           then if float8_lt (sc_distance sc) (so_previousDistance so) then Inr (SContinue, so, mem1)
                else Inr (SReturn heaptid, so\<lparr>so_previousDistance := sc_distance sc\<rparr>, mem1)
           else Inr (SReturn heaptid, so, mem1)))"

definition scan_round ::
  "hnsw_settings \<Rightarrow> ('v memory \<Rightarrow> nat) \<Rightarrow> 'v relation \<Rightarrow> 'v HnswScanOpaqueData \<Rightarrow> 'v memory
    \<Rightarrow> (scan_outcome \<times> 'v HnswScanOpaqueData \<times> 'v memory) result" where
  "scan_round gs allocated index so mem =
     bindE (scan_refill gs allocated index so mem) (\<lambda>(found, so1, mem1).
       if \<not> found then Inr (SBreak, so1, mem1) else scan_fetch gs so1 mem1)"

text \<open>
  The measure of the loop: candidates that are or may still become available; whether the list is
  empty; the heap TIDs of the element at its end.
\<close>

definition scan_stock :: "'v HnswScanOpaqueData \<Rightarrow> nat" where
  "scan_stock so = length (so_w so) + disc_size (so_discarded so) +
     (case so_v so of None \<Rightarrow> 0 | Some v \<Rightarrow> unvisited_count v)"

definition last_heaptids :: "'v HnswScanOpaqueData \<Rightarrow> 'v memory \<Rightarrow> nat" where
  "last_heaptids so mem =
     (case mem_elems mem (sc_element (last (so_w so))) of None \<Rightarrow> 0 | Some e \<Rightarrow> length (he_heaptids e))"

lemma scan_refill_cases:
  assumes "scan_refill gs allocated index so mem = Inr (found, so', mem')"
  obtains (kept) "so_w so \<noteq> []" "found" "so' = so" "mem' = mem"
  | (stop) "so_w so = []" "\<not> found" "so' = so" "mem' = mem"
  | (rest) h sc h' where "so_w so = []" "so_discarded so = Some h"
      "pairingheap_remove_first h = Some (sc, h')" "found"
      "so' = so\<lparr>so_w := [sc], so_discarded := Some h'\<rparr>" "mem' = mem"
  | (resume) h w so1 where "so_w so = []" "so_discarded so = Some h"
      "gs_iterative_scan gs \<noteq> HNSW_ITERATIVE_SCAN_OFF"
      "ResumeScanItems gs index h so mem = Inr (w, so1, mem')" "so' = so1\<lparr>so_w := w\<rparr>" "found = (w \<noteq> [])"
proof (cases "so_w so \<noteq> []")
  case True
  with assms show ?thesis by (intro kept) (simp_all add: scan_refill_def)
next
  case empty: False
  show ?thesis
  proof (cases "gs_iterative_scan gs = HNSW_ITERATIVE_SCAN_OFF \<or> so_discarded so = None")
    case True
    then have "scan_refill gs allocated index so mem = Inr (False, so, mem)"
      using empty by (auto simp: scan_refill_def)
    with assms empty show ?thesis by (intro stop) simp_all
  next
    case False
    then obtain h where it: "gs_iterative_scan gs \<noteq> HNSW_ITERATIVE_SCAN_OFF" "so_discarded so = Some h" by auto
    show ?thesis
    proof (cases "so_tuples so \<ge> gs_max_scan_tuples gs \<or> allocated mem > so_maxMemory so")
      case lim: True
      show ?thesis
      proof (cases "pairingheap_remove_first h")
        case None
        with assms empty it lim show ?thesis by (intro stop) (simp_all add: scan_refill_def)
      next
        case (Some r)
        obtain sc h' where "r = (sc, h')" by (rule prod.exhaust)
        with Some assms empty it lim show ?thesis by (intro rest [of h sc h']) (auto simp: scan_refill_def)
      qed
    next
      case False
      with assms empty it have "bindE (ResumeScanItems gs index h so mem) (\<lambda>(w, so1, mem1).
          Inr (w \<noteq> [], so1\<lparr>so_w := w\<rparr>, mem1)) = Inr (found, so', mem')"
        by (simp add: scan_refill_def)
      then obtain w so1 where "ResumeScanItems gs index h so mem = Inr (w, so1, mem')"
        "so' = so1\<lparr>so_w := w\<rparr>" "found = (w \<noteq> [])"
        by (elim bindE_InrE) (simp split: prod.splits)
      with empty it show ?thesis by (intro resume [of h w so1]) simp_all
    qed
  qed
qed

lemma ResumeScanItems_cases:
  assumes "ResumeScanItems gs index h so mem = Inr (w, so', mem')"
  obtains (empty) "pairingheap_is_empty h" "w = []" "so' = so" "mem' = mem"
  | (search) ep h1 v trace st where "\<not> pairingheap_is_empty h" "take_batch (gs_ef_search gs) h = (ep, h1)"
      "so_v so = Some v" "trace_arg gs so = Inr trace"
      "HnswSearchLayer (scan_args (so_q so) (gs_ef_search gs) 0 index (so_support so) (so_m so)) ep
         (Some v) (Some h1) False (Some (so_tuples so)) trace mem = Inr (w, st)"
      "so' = trace_back (ss_trace st)
         (so\<lparr>so_v := Some (ss_v st), so_discarded := ss_discarded st,
             so_tuples := (case ss_tuples st of Some n \<Rightarrow> n | None \<Rightarrow> so_tuples so)\<rparr>)"
      "mem' = ss_mem st"
proof (cases "pairingheap_is_empty h")
  case True
  with assms show ?thesis by (intro empty) (auto simp: ResumeScanItems_def)
next
  case False
  obtain ep h1 where b: "take_batch (gs_ef_search gs) h = (ep, h1)" by (rule prod.exhaust)
  with False assms search show ?thesis by (auto simp: ResumeScanItems_def Let_def)
qed

lemma trace_back_simps [simp]:
  "so_v (trace_back t so) = so_v so" "so_w (trace_back t so) = so_w so"
  "so_discarded (trace_back t so) = so_discarded so" "so_q (trace_back t so) = so_q so"
  "so_previousDistance (trace_back t so) = so_previousDistance so" "so_m (trace_back t so) = so_m so"
  "so_support (trace_back t so) = so_support so" "so_first (trace_back t so) = so_first so"
  "so_tuples (trace_back t so) = so_tuples so" "so_typeInfo (trace_back t so) = so_typeInfo so"
  by (cases t; simp add: trace_back_def)+

lemma ResumeScanItems_stock:
  assumes "ResumeScanItems gs index h so mem = Inr (w, so', mem')" "so_w so = []" "so_discarded so = Some h"
  shows "scan_stock (so'\<lparr>so_w := w\<rparr>) \<le> scan_stock so" "so_previousDistance so' = so_previousDistance so"
proof -
  from assms(1) have "scan_stock (so'\<lparr>so_w := w\<rparr>) \<le> scan_stock so \<and> so_previousDistance so' = so_previousDistance so"
  proof (cases rule: ResumeScanItems_cases)
    case empty
    with assms show ?thesis by (simp add: scan_stock_def)
  next
    case (search ep h1 v trace st)
    from resumed_search_size [OF search(5)] take_batch_mset [OF search(2)] search assms(2,3)
    show ?thesis by (simp add: scan_stock_def)
  qed
  then show "scan_stock (so'\<lparr>so_w := w\<rparr>) \<le> scan_stock so" "so_previousDistance so' = so_previousDistance so"
    by simp_all
qed

lemma scan_refill_stock:
  assumes "scan_refill gs allocated index so mem = Inr (found, so', mem')"
  shows "scan_stock so' \<le> scan_stock so \<and> (found \<longleftrightarrow> so_w so' \<noteq> []) \<and>
    (so_w so \<noteq> [] \<longrightarrow> so' = so \<and> mem' = mem) \<and> so_previousDistance so' = so_previousDistance so"
  using assms
proof (cases rule: scan_refill_cases)
  case (rest h sc h')
  from pairingheap_remove_first_mset [OF rest(3)] rest show ?thesis by (simp add: scan_stock_def)
next
  case (resume h w so1)
  from ResumeScanItems_stock [OF resume(4,1,2)] resume show ?thesis by simp
qed auto

definition scan_rel ::
  "(('v HnswScanOpaqueData \<times> 'v memory) \<times> ('v HnswScanOpaqueData \<times> 'v memory)) set" where
  "scan_rel = inv_image (less_than <*lex*> less_than <*lex*> less_than)
     (\<lambda>(so, mem). (scan_stock so, if so_w so = [] then 1 else 0, last_heaptids so mem))"

lemma wf_scan_rel [simp]: "wf scan_rel"
  unfolding scan_rel_def by (intro wf_inv_image wf_lex_prod wf_less_than)

lemma scan_round_decreases:
  assumes "scan_round gs allocated index so mem = Inr (SContinue, so', mem')"
  shows "((so', mem'), (so, mem)) \<in> scan_rel"
proof -
  from assms obtain so1 mem1 where r: "scan_refill gs allocated index so mem = Inr (True, so1, mem1)"
    and f: "scan_fetch gs so1 mem1 = Inr (SContinue, so', mem')"
    by (auto simp: scan_round_def split: if_splits)
  note st = scan_refill_stock [OF r]
  from f obtain e where e: "mem_elems mem1 (sc_element (last (so_w so1))) = Some e"
    by (auto simp: scan_fetch_def Let_def)
  show ?thesis
  proof (cases "he_heaptids e = []")
    case True
    with f e have "so' = so1\<lparr>so_w := butlast (so_w so1)\<rparr>" by (auto simp: scan_fetch_def Let_def split: if_splits)
    moreover have "0 < length (so_w so1)" using st by simp
    ultimately have "scan_stock so' < scan_stock so1" by (simp add: scan_stock_def)
    with st have "scan_stock so' < scan_stock so" by linarith
    then show ?thesis by (simp add: scan_rel_def)
  next
    case False
    with f e have "so' = so1" "last_heaptids so' mem' < last_heaptids so1 mem1"
      by (auto simp: scan_fetch_def Let_def last_heaptids_def element_store_def split: if_splits)
    with st show ?thesis by (cases "so_w so = []") (auto simp: scan_rel_def)
  qed
qed

function scan_loop ::
  "hnsw_settings \<Rightarrow> ('v memory \<Rightarrow> nat) \<Rightarrow> 'v relation \<Rightarrow> 'v HnswScanOpaqueData \<Rightarrow> 'v memory
    \<Rightarrow> (ItemPointerData option \<times> 'v HnswScanOpaqueData \<times> 'v memory) result" where
  "scan_loop gs allocated index so mem =
     bindE (scan_round gs allocated index so mem) (\<lambda>(outcome, so1, mem1).
       case outcome of
         SBreak \<Rightarrow> Inr (None, so1, mem1)
       | SContinue \<Rightarrow> scan_loop gs allocated index so1 mem1
       | SReturn heaptid \<Rightarrow> Inr (Some heaptid, so1, mem1))"
  by pat_completeness auto
termination
  by (relation "inv_image scan_rel (\<lambda>(gs, allocated, index, so, mem). (so, mem))")
    (auto intro: scan_round_decreases)

declare scan_loop.simps [simp del]

subsection \<open>Trace output\<close>

definition HNSW_TRACE_MAX_PAGES :: nat where "HNSW_TRACE_MAX_PAGES = 8192"
definition HNSW_TRACE_MAX_TIDS :: nat where "HNSW_TRACE_MAX_TIDS = 1000"

text \<open>
  \<open>counter\<close> is \<^verbatim>\<open>hnsw_trace_query_counter\<close>. The entries of the arrays have no meaning until they are written.
\<close>

definition HnswTraceInit ::
  "observation \<Rightarrow> int \<Rightarrow> 'v HnswScanOpaqueData \<Rightarrow> 'v HnswScanOpaqueData \<times> int" where
  "HnswTraceInit now counter so =
     (so\<lparr>so_trace := Some
          \<lparr>ts_latency = 0, ts_hnsw_search = 0, ts_heap_fetch = 0, ts_distance_compute_count = 0,
           ts_visited_nodes = 0, ts_heap_fetch_count = 0, ts_index_element_loads = 0,
           ts_index_element_page_runs = 0, ts_index_element_distinct_pages = 0,
           ts_last_element_page = InvalidBlockNumber, ts_index_neighbor_loads = 0,
           ts_index_neighbor_page_runs = 0, ts_index_neighbor_distinct_pages = 0,
           ts_last_neighbor_page = InvalidBlockNumber, ts_blks_hit_before = ob_hit now,
           ts_blks_read_before = ob_read now, ts_blks_hit_after = 0, ts_blks_read_after = 0,
           ts_idx_blks_hit = 0, ts_idx_blks_read = 0, ts_heap_blks_hit = 0, ts_heap_blks_read = 0,
           ts_element_pages_seen = replicate HNSW_TRACE_MAX_PAGES 0,
           ts_element_pages_capacity = int HNSW_TRACE_MAX_PAGES,
           ts_neighbor_pages_seen = replicate HNSW_TRACE_MAX_PAGES 0,
           ts_neighbor_pages_capacity = int HNSW_TRACE_MAX_PAGES,
           ts_returned_tids = replicate HNSW_TRACE_MAX_TIDS ItemPointerSetInvalid,
           ts_returned_tids_capacity = int HNSW_TRACE_MAX_TIDS,
           ts_scan_start = ob_time now, ts_in_index_time = 0\<rparr>,
         so_query_id := counter + 1\<rparr>,
      counter + 1)"

text \<open>
  The line \<^verbatim>\<open>HNSW_TRACE\<close>: the scan's number, the result count, the statistics (times in clock ticks) and the
  text of \<^verbatim>\<open>topk_ids\<close>. \<open>decimal\<close> is the conversion \<^verbatim>\<open>%u\<close>.
\<close>

fun decimal :: "nat \<Rightarrow> string" where
  "decimal n = (if n < 10 then [char_of (48 + n)] else decimal (n div 10) @ [char_of (48 + n mod 10)])"

declare decimal.simps [simp del]

definition tid_text :: "ItemPointerData \<Rightarrow> string" where
  "tid_text tid = [CHR 0x22, CHR ''(''] @ decimal (unat (ItemPointerGetBlockNumber tid)) @ '','' @
     decimal (unat (ItemPointerGetOffsetNumber tid)) @ [CHR '')'', CHR 0x22]"

fun tids_text :: "ItemPointerData list \<Rightarrow> string" where
  "tids_text [] = []"
| "tids_text [tid] = tid_text tid"
| "tids_text (tid # tids) = tid_text tid @ '','' @ tids_text tids"

record trace_line =
  tl_query_id :: int
  tl_topk :: int
  tl_stats :: HnswTraceStats
  tl_topk_ids :: string

definition HnswTraceEmit ::
  "observation \<Rightarrow> int \<Rightarrow> int \<Rightarrow> HnswTraceStats \<Rightarrow> (trace_line \<times> HnswTraceStats) result" where
  "HnswTraceEmit now query_id result_count t =
     (let latency = ob_time now - ts_scan_start t;
          heap_fetch = latency - ts_in_index_time t;
          ntids = nat (min (ts_heap_fetch_count t) (ts_returned_tids_capacity t));
          t1 = t\<lparr>ts_latency := latency,
                 ts_hnsw_search := ts_in_index_time t,
                 ts_heap_fetch := (if heap_fetch < 0 then 0 else heap_fetch),
                 ts_blks_hit_after := ob_hit now,
                 ts_blks_read_after := ob_read now,
                 ts_heap_blks_hit := (ob_hit now - ts_blks_hit_before t) - ts_idx_blks_hit t,
                 ts_heap_blks_read := (ob_read now - ts_blks_read_before t) - ts_idx_blks_read t\<rparr>
      in bindE (mapE (array_get ''returned_tids'' (ts_returned_tids t)) [0..<ntids]) (\<lambda>tids.
           Inr (\<lparr>tl_query_id = query_id, tl_topk = result_count, tl_stats = t1,
                 tl_topk_ids = ''['' @ tids_text tids @ '']''\<rparr>, t1)))"

text \<open>The accounting at the two ends of \<^verbatim>\<open>hnswgettuple\<close>.\<close>

definition trace_call :: "observation \<Rightarrow> observation \<Rightarrow> HnswTraceStats \<Rightarrow> HnswTraceStats" where
  "trace_call entry now t =
     t\<lparr>ts_idx_blks_hit := ts_idx_blks_hit t + (ob_hit now - ob_hit entry),
       ts_idx_blks_read := ts_idx_blks_read t + (ob_read now - ob_read entry),
       ts_in_index_time := ts_in_index_time t + (ob_time now - ob_time entry)\<rparr>"

definition trace_returned :: "ItemPointerData \<Rightarrow> HnswTraceStats \<Rightarrow> HnswTraceStats result" where
  "trace_returned heaptid t =
     bindE (if ts_heap_fetch_count t < ts_returned_tids_capacity t
            then array_set ''returned_tids'' (ts_returned_tids t) (nat (ts_heap_fetch_count t)) heaptid
            else Inr (ts_returned_tids t)) (\<lambda>tids.
     Inr (t\<lparr>ts_returned_tids := tids, ts_heap_fetch_count := ts_heap_fetch_count t + 1\<rparr>))"

subsection \<open>The access method functions\<close>

text \<open>The part of \<^verbatim>\<open>RelationGetIndexScan\<close> (\<^verbatim>\<open>genam.c\<close>) the scan uses; key arrays have no meaning before
  \<^verbatim>\<open>amrescan\<close>.\<close>

definition RelationGetIndexScan :: "nat \<Rightarrow> nat \<Rightarrow> 'v IndexScanDescData" where
  "RelationGetIndexScan nkeys norderbys =
     \<lparr>sd_numberOfKeys = nkeys, sd_numberOfOrderBys = norderbys,
      sd_keyData = (if nkeys > 0 then Some (replicate nkeys None) else None),
      sd_orderByData = (if norderbys > 0 then Some (replicate norderbys None) else None),
      sd_mvcc = False, sd_nsearches = None, sd_xs_heaptid = ItemPointerSetInvalid, sd_xs_recheck = False,
      sd_xs_recheckorderby = False, sd_opaque = None\<rparr>"

text \<open>
  \<^verbatim>\<open>hnswbeginscan\<close>. \<^verbatim>\<open>SIZE_MAX / 2\<close> as a double is \<open>2 ^ 63\<close>. The fields \<^verbatim>\<open>hnswrescan\<close> sets have no meaning yet.
\<close>

definition scan_max_memory :: "hnsw_settings \<Rightarrow> nat" where
  "scan_max_memory gs =
     (let maxMemory = float8_add (float8_mul (float8_mul (float8_of_nat (gs_work_mem gs))
                        (gs_scan_mem_multiplier gs)) (float8_of_nat 1024)) (float8_of_nat 256);
          limit = float8_of_nat (2 ^ 63 - 1)
      in float8_to_nat (if float8_lt maxMemory limit then maxMemory else limit))"

definition hnswbeginscan ::
  "hnsw_settings \<Rightarrow> 'v relation \<Rightarrow> nat \<Rightarrow> nat \<Rightarrow> 'v IndexScanDescData" where
  "hnswbeginscan gs index nkeys norderbys =
     (RelationGetIndexScan nkeys norderbys)
       \<lparr>sd_opaque := Some
          \<lparr>so_typeInfo = HnswGetTypeInfo index, so_first = False, so_w = [], so_v = None,
           so_discarded = None, so_q = None, so_m = 0, so_tuples = 0, so_previousDistance = 0,
           so_maxMemory = scan_max_memory gs, so_support = HnswInitSupport index, so_trace = None,
           so_query_id = 0\<rparr>\<rparr>"

definition copy_keys :: "'v ScanKeyData list option \<Rightarrow> nat \<Rightarrow> 'v ScanKeyData list option
    \<Rightarrow> 'v ScanKeyData list option result" where
  "copy_keys keys n old =
     (case keys of
        None \<Rightarrow> Inr old
      | Some ks \<Rightarrow> if n > 0 then if n \<le> length ks then Inr (Some (take n ks)) else Inl (BadAccess ''keys'')
                  else Inr old)"

text \<open>Resetting the memory context frees the arrays of an earlier trace.\<close>

definition hnswrescan ::
  "hnsw_settings \<Rightarrow> observation \<Rightarrow> int \<Rightarrow> 'v IndexScanDescData \<Rightarrow> 'v ScanKeyData list option
    \<Rightarrow> 'v ScanKeyData list option \<Rightarrow> 'v memory \<Rightarrow> ('v IndexScanDescData \<times> 'v memory \<times> int) result" where
  "hnswrescan gs now counter scan keys orderbys mem =
     bindE (ofOption (BadAccess ''opaque'') (sd_opaque scan)) (\<lambda>so0.
     let so1 = so0\<lparr>so_first := True, so_v := None, so_discarded := None, so_tuples := 0,
                   so_previousDistance := float8_minus_infinity, so_trace := None\<rparr>;
         mem1 = mem\<lparr>mem_elems := Map.empty\<rparr>;
         (so, counter1) = (if gs_trace_enabled gs then HnswTraceInit now counter so1 else (so1, counter))
     in bindE (copy_keys keys (sd_numberOfKeys scan) (sd_keyData scan)) (\<lambda>keyData.
        bindE (copy_keys orderbys (sd_numberOfOrderBys scan) (sd_orderByData scan)) (\<lambda>orderByData.
        Inr (scan\<lparr>sd_opaque := Some so, sd_keyData := keyData, sd_orderByData := orderByData\<rparr>,
             mem1, counter1))))"

definition scan_first ::
  "hnsw_settings \<Rightarrow> 'v relation \<Rightarrow> 'v IndexScanDescData \<Rightarrow> 'v HnswScanOpaqueData \<Rightarrow> 'v memory
    \<Rightarrow> ('v HnswScanOpaqueData \<times> 'v memory) result" where
  "scan_first gs index scan so mem =
     (case sd_orderByData scan of
        None \<Rightarrow> Inl (Elog ''cannot scan hnsw index without order'')
      | Some keys \<Rightarrow>
          if \<not> sd_mvcc scan then Inl (Elog ''non-MVCC snapshots are not supported with hnsw'')
          else bindE (GetScanValue keys so) (\<lambda>v.
               bindE (GetScanItems gs index so v mem) (\<lambda>(w, so1, mem1).
               Inr (so1\<lparr>so_w := w, so_first := False\<rparr>, mem1))))"

definition hnswgettuple ::
  "hnsw_settings \<Rightarrow> ('v memory \<Rightarrow> nat) \<Rightarrow> 'v relation \<Rightarrow> observation \<Rightarrow> observation
    \<Rightarrow> 'v IndexScanDescData \<Rightarrow> 'v memory \<Rightarrow> (bool \<times> 'v IndexScanDescData \<times> 'v memory) result" where
  "hnswgettuple gs allocated index entry now scan0 mem =
     bindE (ofOption (BadAccess ''opaque'') (sd_opaque scan0)) (\<lambda>so0.
     let scan = (if so_first so0
                 then scan0\<lparr>sd_nsearches := map_option (\<lambda>n. n + 1) (sd_nsearches scan0)\<rparr> else scan0)
     in bindE (if so_first so0 then scan_first gs index scan so0 mem else Inr (so0, mem)) (\<lambda>(so1, mem1).
        bindE (scan_loop gs allocated index so1 mem1) (\<lambda>(found, so2, mem2).
        bindE (trace_arg gs so2) (\<lambda>trace.
        case found of
          Some heaptid \<Rightarrow>
            bindE (case trace of None \<Rightarrow> Inr None
                   | Some t \<Rightarrow> bindE (trace_returned heaptid t) (\<lambda>t1. Inr (Some (trace_call entry now t1)))) (\<lambda>t2.
            Inr (True, scan\<lparr>sd_opaque := Some (trace_back t2 so2), sd_xs_heaptid := heaptid,
                            sd_xs_recheck := False, sd_xs_recheckorderby := False\<rparr>, mem2))
        | None \<Rightarrow>
            Inr (False, scan\<lparr>sd_opaque := Some (trace_back (map_option (trace_call entry now) trace) so2)\<rparr>,
                 mem2)))))"

text \<open>The line is emitted when the scan was started. \<^verbatim>\<open>result_count\<close> is cut to \<^verbatim>\<open>int\<close>.\<close>

definition hnswendscan ::
  "hnsw_settings \<Rightarrow> observation \<Rightarrow> 'v IndexScanDescData \<Rightarrow> (trace_line option \<times> 'v IndexScanDescData) result" where
  "hnswendscan gs now scan =
     bindE (ofOption (BadAccess ''opaque'') (sd_opaque scan)) (\<lambda>so.
     bindE (if gs_trace_enabled gs \<and> \<not> so_first so
            then bindE (ofOption (BadAccess ''trace'') (so_trace so)) (\<lambda>t.
                 bindE (HnswTraceEmit now (so_query_id so)
                          (sint (word_of_int (ts_heap_fetch_count t) :: 32 word)) t) (\<lambda>(line, t1).
                 Inr (Some line)))
            else Inr None) (\<lambda>line.
     Inr (line, scan\<lparr>sd_opaque := None\<rparr>)))"

end
