(* ===== verification/Example_Scan.thy ===== *)
theory Example_Scan
  imports Example_Index Hnsw_Scan
begin

section \<open>A scan of the small index\<close>

text \<open>Settings and a scan of the index of \<^verbatim>\<open>Example_Index\<close> for the value 20, used by the witnesses on scans.\<close>

definition ex_settings :: "HnswIterativeScanMode \<Rightarrow> hnsw_settings" where
  "ex_settings mode =
     \<lparr>gs_ef_search = 40, gs_iterative_scan = mode, gs_max_scan_tuples = 20000,
      gs_scan_mem_multiplier = 0x3FF0000000000000, gs_trace_enabled = False, gs_work_mem = 4096\<rparr>"

definition ex_now :: observation where
  "ex_now = \<lparr>ob_hit = 0, ob_read = 0, ob_time = 0\<rparr>"

definition ex_opaque :: "int HnswScanOpaqueData" where
  "ex_opaque =
     \<lparr>so_typeInfo = HnswGetTypeInfo ex_index, so_first = False, so_w = [], so_v = None, so_discarded = None,
      so_q = None, so_m = 0, so_tuples = 0, so_previousDistance = 0, so_maxMemory = 4194560,
      so_support = HnswInitSupport ex_index, so_trace = None, so_query_id = 0\<rparr>"

definition ex_scan0 :: "int IndexScanDescData" where
  "ex_scan0 = (RelationGetIndexScan 0 1)\<lparr>sd_mvcc := True, sd_opaque := Some ex_opaque\<rparr>"

definition ex_trace :: HnswTraceStats where
  "ex_trace = the (so_trace (fst (HnswTraceInit ex_now 0 ex_opaque)))"

lemma ex_trace_init: "so_trace (fst (HnswTraceInit ex_now 0 ex_opaque)) = Some ex_trace"
  by (simp add: ex_trace_def HnswTraceInit_def)

end
