(* ===== verification/Storage_Properties.thy ===== *)
theory Storage_Properties
  imports Example_Scan
begin

section \<open>Properties of the building blocks\<close>

text \<open>
  What the components below the graph algorithms promise: the pairing heap as a priority queue, the page
  operations on the list of tuples of a page, the tuples of the index as stored values, and the page
  counters of the trace. Each property is stated on the operations of the code and
  followed by an instance.
\<close>

subsection \<open>The pairing heap as a priority queue\<close>

text \<open>A run of additions (\<open>Some x\<close>) and removals (\<open>None\<close>) and what the removals return.\<close>

fun heap_run :: "'a option list \<Rightarrow> 'a pairingheap \<Rightarrow> 'a option list \<times> 'a pairingheap" where
  "heap_run [] h = ([], h)"
| "heap_run (Some x # ops) h = heap_run ops (pairingheap_add h x)"
| "heap_run (None # ops) h =
     (case pairingheap_remove_first h of
        None \<Rightarrow> (case heap_run ops h of (outs, h') \<Rightarrow> (None # outs, h'))
      | Some (x, h1) \<Rightarrow> (case heap_run ops h1 of (outs, h') \<Rightarrow> (Some x # outs, h')))"

text \<open>The specification on multisets: a removal returns an element that no other one precedes.\<close>

fun queue_run ::
  "('a \<Rightarrow> 'a \<Rightarrow> bool) \<Rightarrow> 'a option list \<Rightarrow> 'a option list \<Rightarrow> 'a multiset \<Rightarrow> 'a multiset \<Rightarrow> bool" where
  "queue_run le [] outs M M' \<longleftrightarrow> outs = [] \<and> M' = M"
| "queue_run le (Some x # ops) outs M M' \<longleftrightarrow> queue_run le ops outs (add_mset x M) M'"
| "queue_run le (None # ops) [] M M' \<longleftrightarrow> False"
| "queue_run le (None # ops) (None # outs) M M' \<longleftrightarrow> M = {#} \<and> queue_run le ops outs M M'"
| "queue_run le (None # ops) (Some x # outs) M M' \<longleftrightarrow>
     x \<in># M \<and> (\<forall>y \<in># M. le x y) \<and> queue_run le ops outs (M - {#x#}) M'"

lemma heap_run_queue:
  assumes "near.heap_inv h" "\<forall>sc. Some sc \<in> set ops \<longrightarrow> \<not> float8_isnan (sc_distance sc)"
    and "heap_run ops h = (outs, h')"
  shows "queue_run (\<lambda>a b. float8_le (sc_distance a) (sc_distance b)) ops outs (mset_heap h) (mset_heap h')"
  using assms
proof (induction ops h arbitrary: outs rule: heap_run.induct)
  case (2 x ops h)
  then show ?case by (simp add: near.heap_inv_add)
next
  case (3 ops h)
  show ?case
  proof (cases "pairingheap_remove_first h")
    case None
    then have "mset_heap h = {#}" by (simp only: pairingheap_remove_first_None_iff)
    with 3 None show ?thesis by (auto split: prod.splits)
  next
    case (Some r)
    then obtain x h1 where r: "pairingheap_remove_first h = Some (x, h1)" by (cases r) auto
    note rm = near_remove_first [OF 3(3) r]
    from 3(5) r obtain outs1 where o: "heap_run ops h1 = (outs1, h')" "outs = Some x # outs1"
      by (auto split: prod.splits)
    from 3(2) [OF r refl rm(1) _ o(1)] 3(4)
    have q: "queue_run (\<lambda>a b. float8_le (sc_distance a) (sc_distance b)) ops outs1 (mset_heap h1) (mset_heap h')"
      by simp
    have "\<forall>y \<in># mset_heap h. float8_le (sc_distance x) (sc_distance y)" using rm(4) by blast
    with q rm(2) show ?thesis unfolding o(2) by simp
  qed
qed simp

text \<open>
  C17: the pairing heap with \<^verbatim>\<open>CompareNearestCandidates\<close> refines a priority queue: whatever sequence of
  \<^verbatim>\<open>pairingheap_add\<close> and \<^verbatim>\<open>pairingheap_remove_first\<close> runs on a new heap, each removal returns a nearest one of
  the candidates then in the heap (and fails only on an empty heap), none is lost and none is duplicated.
\<close>

theorem pairingheap_priority_queue:
  assumes "\<forall>sc. Some sc \<in> set ops \<longrightarrow> \<not> float8_isnan (sc_distance sc)"
    and "heap_run ops (pairingheap_allocate CompareNearestCandidates) = (outs, h)"
  shows "queue_run (\<lambda>a b. float8_le (sc_distance a) (sc_distance b)) ops outs {#} (mset_heap h)"
  using heap_run_queue [OF near.heap_inv_allocate assms] by simp

theorem pairingheap_priority_queue_witness:
  "queue_run (\<lambda>a b. float8_le (sc_distance a) (sc_distance b))
     [Some \<lparr>sc_element = 1, sc_distance = 5\<rparr>, Some \<lparr>sc_element = 2, sc_distance = 3\<rparr>, None, None, None]
     [Some \<lparr>sc_element = 2, sc_distance = 3\<rparr>, Some \<lparr>sc_element = 1, sc_distance = 5\<rparr>, None] {#} {#}"
proof -
  have r: "heap_run [Some \<lparr>sc_element = 1, sc_distance = 5\<rparr>, Some \<lparr>sc_element = 2, sc_distance = 3\<rparr>, None, None, None]
      (pairingheap_allocate CompareNearestCandidates) =
    ([Some \<lparr>sc_element = 2, sc_distance = 3\<rparr>, Some \<lparr>sc_element = 1, sc_distance = 5\<rparr>, None],
     pairingheap_allocate CompareNearestCandidates)"
    by (simp add: pairingheap_remove_first_def pairingheap_add_def pairingheap_allocate_def merge_def
        link_nodes_def CompareNearestCandidates_def float8_lt_def flt_key fisnan_def fkey_def fmag_def fsign_def
        finf_def)
  show ?thesis
    using pairingheap_priority_queue [OF _ r]
    by (simp add: float8_isnan_def fisnan_def fmag_def finf_def)
qed

subsection \<open>Pages\<close>

text \<open>
  C13: \<^verbatim>\<open>PageAddItem\<close> appends: on a well-formed page a tuple that fits into \<^verbatim>\<open>PageGetFreeSpace\<close> is
  added under the next offset number, every other tuple keeps its offset number and its contents, and the page
  stays well-formed. A tuple that does not fit leaves the page unchanged and returns \<^verbatim>\<open>InvalidOffsetNumber\<close>. The
  aligned size must be below \<open>2 ^ 31\<close>: the code converts it to \<^verbatim>\<open>int\<close>.
\<close>

theorem PageAddItem_appends:
  assumes "page_inv p" "0 < sz" "MAXALIGN sz < 2 ^ 31"
  shows "if MAXALIGN sz \<le> PageGetFreeSpace p
    then \<exists>off q. PageAddItem p x sz InvalidOffsetNumber False False = Inr (off, q) \<and> page_inv q \<and>
      page_tuples q = page_tuples p @ [(x, sz)] \<and> unat off = length (page_tuples q) \<and>
      PageGetTuple q off = Inr x \<and> PageGetFreeSpace q = PageGetFreeSpace p - MAXALIGN sz - sizeof_ItemIdData
    else PageAddItem p x sz InvalidOffsetNumber False False = Inr (InvalidOffsetNumber, p)"
proof -
  have fit: "MAXALIGN sz \<le> PageGetFreeSpace p \<longleftrightarrow> MAXALIGN sz + 4 \<le> pd_upper p - pd_lower p"
    using assms(2) MAXALIGN_pos_iff [of sz] unfolding PageGetFreeSpace_inv [OF assms(1)] by linarith
  show ?thesis
  proof (cases "MAXALIGN sz \<le> PageGetFreeSpace p")
    case True
    let ?q = "added_page p x sz"
    note q = added_page_inv [OF assms(1,2) True [unfolded fit], of x]
    have len: "length (pd_linp ?q) = Suc (length (pd_linp p))"
      using q(2) length_page_tuples [of ?q] by simp
    have off: "unat (word_of_nat (Suc (length (pd_linp p))) :: OffsetNumber) = Suc (length (pd_linp p))"
      using page_inv_linp_bound [OF q(1)] len
      by (simp add: BLCKSZ_def unsigned_of_nat take_bit_nat_eq_self del: of_nat_Suc)
    have nz: "(word_of_nat (Suc (length (pd_linp p))) :: OffsetNumber) \<noteq> 0"
      using off by (metis unsigned_0 nat.distinct(1))
    have "PageGetTuple ?q (word_of_nat (Suc (length (pd_linp p)))) = Inr x"
      using PageGetTuple_inv [OF q(1) nz] off len unfolding q(2) by (simp add: nth_append)
    moreover have "PageGetFreeSpace ?q = PageGetFreeSpace p - MAXALIGN sz - sizeof_ItemIdData"
      unfolding PageGetFreeSpace_inv [OF q(1)] PageGetFreeSpace_inv [OF assms(1)]
      by (simp add: added_page_def sizeof_ItemIdData_def)
    ultimately show ?thesis
      using True fit PageAddItem_inv [OF assms(1,3), of x] q off len by simp
  qed (use fit PageAddItem_inv [OF assms(1,3), of x] in simp)
qed

theorem PageAddItem_appends_witness:
  "\<exists>off q. PageAddItem (HnswInitPage :: int hnsw_page) (NTup (ex_ntup 3)) 32 InvalidOffsetNumber False False = Inr (off, q) \<and>
     page_inv q \<and> page_tuples q = [(NTup (ex_ntup 3), 32)] \<and> unat off = 1 \<and> PageGetTuple q off = Inr (NTup (ex_ntup 3))"
proof -
  have p: "page_inv (HnswInitPage :: int hnsw_page)" "page_tuples (HnswInitPage :: int hnsw_page) = []"
    unfolding HnswInitPage_def by (rule page_inv_PageInit; simp add: hnsw_size_defs MAXALIGN_def)+
  have "MAXALIGN 32 \<le> PageGetFreeSpace (HnswInitPage :: int hnsw_page)" by code_simp
  moreover have "MAXALIGN 32 < 2 ^ 31" by (simp add: MAXALIGN_def)
  ultimately show ?thesis
    using PageAddItem_appends [OF p(1), of 32 "NTup (ex_ntup 3)"] p(2) by (auto simp del: length_page_tuples)
qed

text \<open>
  C12: \<^verbatim>\<open>PageIndexTupleOverwrite\<close> replaces one tuple in place, also by one of another length: if the new
  tuple fits into the space of the old one and the free space, exactly the tuple at that offset number changes,
  although other tuples may be moved, and the page stays well-formed; otherwise the page is unchanged and the
  result is false.
\<close>

theorem PageIndexTupleOverwrite_replaces:
  assumes "page_inv p" "0 < sz" "off \<noteq> InvalidOffsetNumber" "off \<le> PageGetMaxOffsetNumber p"
  shows "if MAXALIGN sz \<le> MAXALIGN (snd (page_tuples p ! (unat off - 1))) + PageGetExactFreeSpace p
    then \<exists>q. PageIndexTupleOverwrite p off x sz = Inr (True, q) \<and> page_inv q \<and>
      page_tuples q = (page_tuples p)[unat off - 1 := (x, sz)] \<and> PageGetTuple q off = Inr x
    else PageIndexTupleOverwrite p off x sz = Inr (False, p)"
proof -
  have off: "off \<noteq> 0" "unat off \<le> length (pd_linp p)"
    using assms(3,4) PageGetMaxOffsetNumber_inv [OF assms(1)]
    by (simp_all add: InvalidOffsetNumber_def word_le_nat_alt)
  have i: "unat off - 1 < length (pd_linp p)" using off unat_gt_0 [of off] by linarith
  let ?q = "overwritten_page p (unat off - 1) x sz"
  show ?thesis
  proof (cases "MAXALIGN sz \<le> MAXALIGN (snd (page_tuples p ! (unat off - 1))) + PageGetExactFreeSpace p")
    case True
    then have fit: "MAXALIGN sz \<le> MAXALIGN (lp_len (pd_linp p ! (unat off - 1))) + (pd_upper p - pd_lower p)"
      using i by (simp add: page_tuples_def PageGetExactFreeSpace_inv [OF assms(1)])
    note q = overwritten_page_inv [OF assms(1) i assms(2) fit, of x]
    have "length (pd_linp ?q) = length (pd_linp p)" using q(2) length_page_tuples [of ?q] by simp
    then have "PageGetTuple ?q off = Inr x"
      using PageGetTuple_inv [OF q(1) off(1)] off(2) i q(2) by simp
    with True q PageIndexTupleOverwrite_inv [OF assms(1) off, of x sz] show ?thesis by simp
  qed (use PageIndexTupleOverwrite_inv [OF assms(1) off, of x sz] in simp)
qed

theorem PageIndexTupleOverwrite_replaces_witness:
  "\<exists>q. PageIndexTupleOverwrite ex_page 2 (ETup (ex_etup 5 50 2)) 80 = Inr (True, q) \<and> page_inv q \<and>
     page_tuples q = [(ETup (ex_etup 1 10 2), 80), (ETup (ex_etup 5 50 2), 80), (ETup (ex_etup 2 20 4), 80), (NTup (ex_ntup 1), 32)]
     \<and> PageGetTuple q 2 = Inr (ETup (ex_etup 5 50 2))"
proof -
  have "MAXALIGN 80 \<le> MAXALIGN (snd (page_tuples ex_page ! (unat (2 :: OffsetNumber) - 1))) + PageGetExactFreeSpace ex_page"
    by code_simp
  moreover have "2 \<le> PageGetMaxOffsetNumber ex_page" by code_simp
  ultimately show ?thesis
    using PageIndexTupleOverwrite_replaces [OF ex_page_inv, of 80 2 "ETup (ex_etup 5 50 2)"]
    by (simp add: InvalidOffsetNumber_def ex_page_tuples)
qed

subsection \<open>Stored tuples\<close>

text \<open>The first element of the example in memory, connected to the second one.\<close>

definition ex_connected :: "int HnswElementData" where
  "ex_connected = (ex_loaded 1 1 2)\<lparr>he_neighbors := Some [\<lparr>na_closerSet = False,
     na_items = [\<lparr>hc_element = 256, hc_distance = 0, hc_closer = False\<rparr>], na_alloc = 4\<rparr>]\<rparr>"

definition ex_mem2 :: "int memory" where
  "ex_mem2 = ex_memory\<lparr>mem_elems := [128 \<mapsto> ex_connected, 256 \<mapsto> ex_loaded 3 2 4], mem_count := 2\<rparr>"

text \<open>
  C15: what \<^verbatim>\<open>HnswSetElementTuple\<close> writes, \<^verbatim>\<open>HnswLoadElementFromTuple\<close> reads back: the level, the
  version, the value, the place of the neighbor tuple, and the heap TIDs in their order, whatever was in the
  target before.
\<close>

theorem element_tuple_round_trip:
  assumes "HnswSetElementTuple etup e = Inr t" "length (he_heaptids e) \<le> HNSW_HEAPTIDS"
    and "\<forall>tid \<in> set (he_heaptids e). ItemPointerIsValid tid"
  shows "\<exists>e'. HnswLoadElementFromTuple e0 t True True = Inr e' \<and> he_level e' = he_level e \<and>
    he_version e' = he_version e \<and> he_deleted e' = 0 \<and> he_value e' = he_value e \<and>
    he_heaptids e' = he_heaptids e \<and> he_neighborPage e' = ItemPointerGetBlockNumber (et_neighbortid etup) \<and>
    he_neighborOffno e' = ItemPointerGetOffsetNumber (et_neighbortid etup) \<and>
    he_blkno e' = he_blkno e0 \<and> he_offno e' = he_offno e0"
  using element_tuple_fields [OF assms(1)] assms(2,3) by (simp add: HnswLoadElementFromTuple_eq)

theorem element_tuple_round_trip_witness:
  "\<exists>t e'. HnswSetElementTuple etup_zero ((ex_loaded 1 7 2)\<lparr>he_value := Some 42\<rparr>) = Inr t \<and>
     HnswLoadElementFromTuple (ex_loaded 3 5 4) t True True = Inr e' \<and> he_value e' = Some 42 \<and>
     he_heaptids e' = [ItemPointerSet 0 7] \<and> he_offno e' = 3"
proof -
  define e where "e = (ex_loaded 1 7 2)\<lparr>he_value := Some 42\<rparr>"
  obtain t where t: "HnswSetElementTuple etup_zero e = Inr t"
    by (auto simp: HnswSetElementTuple_def e_def)
  from element_tuple_round_trip [OF t, of "ex_loaded 3 5 4"] t show ?thesis
    unfolding e_def [symmetric] by (auto simp: e_def ex_loaded_def HNSW_HEAPTIDS_def)
qed

text \<open>
  C14: the neighbor tuple of an element at an allowed level, once stored, gives back for every layer the TIDs of the
  neighbors in that layer: the slot \<open>i\<close> holds the block and offset number of the element of the \<open>i\<close>-th connection, and the
  slots after the last connection hold the invalid TID. The layers do not overlap in the tuple, and the 16-bit
  count does not wrap around.
\<close>

theorem neighbor_tuple_round_trip:
  assumes "HnswSetNeighborTuple mem ntup e m = Inr t"
    and "ReadItem index (he_neighborPage e) (he_neighborOffno e) = Inr (NTup t)"
    and "lc \<le> unat (he_level e)" "unat (he_level e) \<le> HnswGetMaxLevel m" "2 \<le> m" "m \<le> HNSW_MAX_M"
  shows "\<exists>ns tids. he_neighbors e = Some ns \<and> lc < length ns \<and>
    HnswLoadNeighborTids e index m (HnswGetLayerM m lc) lc None = Inr (Some tids, None) \<and>
    length tids = HnswGetLayerM m lc \<and>
    (\<forall>i < length tids. if i < length (na_items (ns ! lc))
       then \<exists>n. mem_elems mem (hc_element (na_items (ns ! lc) ! i)) = Some n \<and>
              tids ! i = ItemPointerSet (he_blkno n) (he_offno n)
       else tids ! i = ItemPointerSetInvalid)"
proof -
  have "(unat (he_level e) + 2) * m < 2 ^ 16"
    using HnswGetMaxLevel_slots(1) [OF assms(5) _ assms(4)] assms(6) by (simp add: HNSW_MAX_M_def)
  from load_neighbor_tids_stored [OF assms(1-3) this] obtain na tids where
    na: "HnswGetNeighbors e lc = Inr na" "mapE (neighbor_slot mem na) [0..<HnswGetLayerM m lc] = Inr tids"
    and l: "HnswLoadNeighborTids e index m (HnswGetLayerM m lc) lc None = Inr (Some tids, None)"
    by (auto simp: neighbor_layer_def bindE_Inr_iff)
  from na(1) obtain ns where ns: "he_neighbors e = Some ns" "lc < length ns" "na = ns ! lc"
    by (auto simp: HnswGetNeighbors_def)
  have len: "length tids = HnswGetLayerM m lc" using mapE_length [OF na(2)] by simp
  have "neighbor_slot mem na i = Inr (tids ! i)" if "i < length tids" for i
    using mapE_nth [OF na(2), of i] that len by simp
  then have "\<forall>i < length tids. if i < length (na_items na)
       then \<exists>n. mem_elems mem (hc_element (na_items na ! i)) = Some n \<and> tids ! i = ItemPointerSet (he_blkno n) (he_offno n)
       else tids ! i = ItemPointerSetInvalid"
    by (fastforce simp: neighbor_slot_def split: if_splits)
  with ns l len show ?thesis by blast
qed

theorem neighbor_tuple_round_trip_witness:
  "\<exists>tids. HnswLoadNeighborTids ex_connected ex_index 2 4 0 None = Inr (Some tids, None) \<and>
     tids = ex_tid 3 # replicate 3 ItemPointerSetInvalid"
proof -
  have set: "HnswSetNeighborTuple ex_mem2 ntup_zero ex_connected 2 = Inr (ex_ntup 3)" by code_simp
  have rd: "ReadItem ex_index (he_neighborPage ex_connected) (he_neighborOffno ex_connected) = Inr (NTup (ex_ntup 3))"
    by (simp add: ex_ReadItem ex_connected_def ex_loaded_def)
  have ns: "he_neighbors ex_connected = Some [\<lparr>na_closerSet = False,
      na_items = [\<lparr>hc_element = 256, hc_distance = 0, hc_closer = False\<rparr>], na_alloc = 4\<rparr>]" "he_level ex_connected = 0"
    by (simp_all add: ex_connected_def ex_loaded_def blank_element_def)
  have el: "mem_elems ex_mem2 256 = Some (ex_loaded 3 2 4)" "ItemPointerSet (he_blkno (ex_loaded 3 2 4)) (he_offno (ex_loaded 3 2 4)) = ex_tid 3"
    by (simp_all add: ex_mem2_def ex_loaded_def ex_tid_def)
  have lm: "HnswGetLayerM 2 0 = 4" by (simp add: HnswGetLayerM_def)
  obtain tids where t: "HnswLoadNeighborTids ex_connected ex_index 2 4 0 None = Inr (Some tids, None)" "length tids = 4"
    and i: "\<forall>i < 4. if i < 1 then tids ! i = ex_tid 3 else tids ! i = ItemPointerSetInvalid"
    using neighbor_tuple_round_trip [OF set rd, of 0] by (auto simp: HNSW_MAX_M_def ns el lm cong: if_cong)
  have "tids = ex_tid 3 # replicate 3 ItemPointerSetInvalid"
  proof (rule nth_equalityI)
    fix k
    assume "k < length tids"
    then have "k < 4" using t(2) by simp
    with i show "tids ! k = (ex_tid 3 # replicate 3 ItemPointerSetInvalid) ! k"
      by (cases k) auto
  qed (simp add: t(2))
  with t(1) show ?thesis by blast
qed

text \<open>
  C16: a tuple of an element at any level up to \<^verbatim>\<open>HnswGetMaxLevel\<close> fits: adding the neighbor tuple to a new
  page does not fail, for every allowed \<^verbatim>\<open>m\<close>, and the level fits its 8-bit field.
\<close>

theorem neighbor_tuple_fits:
  assumes "HNSW_MIN_M \<le> m" "m \<le> HNSW_MAX_M" "lev \<le> HnswGetMaxLevel m"
  shows "\<exists>q. PageAddItem HnswInitPage (NTup t) (HNSW_NEIGHBOR_TUPLE_SIZE lev m) InvalidOffsetNumber False False = Inr (1, q) \<and>
    page_inv q \<and> PageGetTuple q 1 = Inr (NTup t) \<and> unat (word_of_nat lev :: 8 word) = lev"
proof -
  let ?sz = "HNSW_NEIGHBOR_TUPLE_SIZE lev m" and ?p = "HnswInitPage :: 'a hnsw_page"
  have m: "2 \<le> m" "m \<le> 100" using assms by (simp_all add: HNSW_MIN_M_def HNSW_MAX_M_def)
  have "unat (word_of_nat lev :: 8 word) = lev"
    using HnswGetMaxLevel_slots(2) [OF m assms(3)] by (simp add: unsigned_of_nat take_bit_nat_eq_self)
  have p: "page_inv ?p" "pd_linp ?p = []" "pd_upper ?p - pd_lower ?p = 8160"
    unfolding HnswInitPage_def
    by (rule page_inv_PageInit) (simp_all add: hnsw_size_defs MAXALIGN_def PageInit_def)
  have "MAXALIGN ?sz = ?sz" by (simp add: HNSW_NEIGHBOR_TUPLE_SIZE_def)
  then have fit: "MAXALIGN ?sz + 4 \<le> pd_upper ?p - pd_lower ?p"
    using neighbor_tuple_size_bound [OF m assms(3)] p(3) by simp
  have pos: "0 < ?sz" by (simp add: HNSW_NEIGHBOR_TUPLE_SIZE_def offsetof_indextids_def)
  note q = added_page_inv [OF p(1) pos fit, of "NTup t"]
  have "PageGetTuple (added_page ?p (NTup t) ?sz) 1 = Inr (NTup t)"
    using PageGetTuple_inv [OF q(1), of 1] unfolding q(2)
    by (simp add: page_tuples_def p(2)) (simp add: added_page_def p(2))
  moreover have "MAXALIGN ?sz < 2 ^ 31" using fit p(3) by simp
  ultimately show ?thesis
    using fit PageAddItem_inv [OF p(1), of ?sz "NTup t"] q(1) p(2) \<open>unat (word_of_nat lev :: 8 word) = lev\<close>
    by simp
qed

theorem neighbor_tuple_fits_witness:
  "\<exists>q. PageAddItem (HnswInitPage :: int hnsw_page) (NTup (ex_ntup 3)) (HNSW_NEIGHBOR_TUPLE_SIZE 82 16)
      InvalidOffsetNumber False False = Inr (1, q) \<and> page_inv q \<and> PageGetTuple q 1 = Inr (NTup (ex_ntup 3))"
  using neighbor_tuple_fits [of 16 82 "ex_ntup 3"]
  by (simp add: HNSW_MIN_M_def HNSW_MAX_M_def HnswGetMaxLevel_def hnsw_size_defs MAXALIGN_def)

subsection \<open>The page counters of the trace\<close>

text \<open>
  C18: \<^verbatim>\<open>HnswTraceRecordElementPage\<close>, called for a sequence of element pages from an initialized trace, counts the
  calls, the runs of equal consecutive pages and the distinct pages exactly, as long as no more than
  \<^verbatim>\<open>HNSW_TRACE_MAX_PAGES\<close> different pages occur.
\<close>

theorem element_pages_counted:
  assumes "so_trace (fst (HnswTraceInit now counter so)) = Some t" "card (set bs) \<le> HNSW_TRACE_MAX_PAGES"
  shows "\<exists>t'. foldE (\<lambda>b t. element_log t b) bs t = Inr t' \<and> ts_index_element_loads t' = int (length bs) \<and>
    ts_index_element_page_runs t' = int (length (remdups_adj bs)) \<and>
    ts_index_element_distinct_pages t' = int (card (set bs))"
proof -
  have "elog.logged t []" "int (card (set bs)) \<le> ts_element_pages_capacity t"
    using assms by (auto simp: HnswTraceInit_def elog.logged_def)
  from elog.logged_foldE [OF this(1), of bs] this(2) show ?thesis by (auto simp: elog.logged_def)
qed

theorem element_pages_counted_witness:
  "\<exists>t'. foldE (\<lambda>b t. element_log t b) [7, 7, 9, 7] ex_trace = Inr t' \<and> ts_index_element_loads t' = 4 \<and>
     ts_index_element_page_runs t' = 3 \<and> ts_index_element_distinct_pages t' = 2"
  using element_pages_counted [OF ex_trace_init, of "[7, 7, 9, 7]"]
  by (simp add: HNSW_TRACE_MAX_PAGES_def card_insert_if)

text \<open>
  C19: the array of pages seen overflows: once \<^verbatim>\<open>HNSW_TRACE_MAX_PAGES\<close> different pages have been recorded, the next
  new page is counted but not stored, and recording one more new page reads past the end of the array. So a
  traced scan of an index with 8194 or more element pages can read outside \<^verbatim>\<open>element_pages_seen\<close>.
\<close>

theorem element_pages_overrun:
  assumes "so_trace (fst (HnswTraceInit now counter so)) = Some t" "card (set bs) = HNSW_TRACE_MAX_PAGES"
    and "b \<notin> set bs" "c \<notin> set bs"
  shows "foldE (\<lambda>b t. element_log t b) (bs @ [b, c]) t = Inl (BadAccess ''pages_seen'')"
proof -
  have t: "elog.logged t []" "ts_element_pages_capacity t = int HNSW_TRACE_MAX_PAGES"
    using assms(1) by (auto simp: HnswTraceInit_def elog.logged_def)
  from elog.logged_foldE [OF t(1), of bs] assms(2) t(2) obtain t'
    where t': "foldE (\<lambda>b t. element_log t b) bs t = Inr t'" "elog.logged t' bs" by auto
  have "ts_element_pages_capacity t' = ts_element_pages_capacity t"
    using t'(1) by (rule foldE_inv) (simp_all add: elog.rec_counts)
  then have "bindE (element_log t' b) (\<lambda>t2. element_log t2 c) = Inl (BadAccess ''pages_seen'')"
    using elog.full_log_overruns [OF t'(2) _ assms(3,4)] assms(2) t(2) by simp
  with t'(1) show ?thesis by (cases "element_log t' b") (simp_all add: foldE_append)
qed

theorem element_pages_overrun_witness:
  "foldE (\<lambda>b t. element_log t b) (map word_of_nat [0..<8192] @ [8192, 8193]) ex_trace =
     Inl (BadAccess ''pages_seen'')"
proof -
  have u: "unat (word_of_nat n :: BlockNumber) = n" if "n < 8194" for n
    using that by (simp add: unsigned_of_nat take_bit_nat_eq_self)
  have inj: "inj_on (word_of_nat :: nat \<Rightarrow> BlockNumber) {..<8194}"
    by (rule inj_on_inverseI [where g = unat]) (simp add: u)
  have "card ((word_of_nat :: nat \<Rightarrow> BlockNumber) ` {0..<8192}) = HNSW_TRACE_MAX_PAGES"
    using card_image [OF inj_on_subset [OF inj, of "{0..<8192}"]]
    by (simp add: HNSW_TRACE_MAX_PAGES_def subset_iff)
  moreover have "k \<notin> word_of_nat ` {0..<8192}" if "8192 \<le> unat k" for k :: BlockNumber
    using u that by auto
  from this [of 8192] this [of 8193]
  have "(8192 :: BlockNumber) \<notin> word_of_nat ` {0..<8192}" "(8193 :: BlockNumber) \<notin> word_of_nat ` {0..<8192}"
    by simp_all
  ultimately show ?thesis
    using element_pages_overrun [OF ex_trace_init, of "map word_of_nat [0..<8192]" 8192 8193] by simp
qed

end
