(* ===== verification/Hnsw_Neighbors.thy ===== *)
theory Hnsw_Neighbors
  imports Hnsw_Search_Correct
begin

section \<open>Selecting neighbors (src/hnswutils.c)\<close>

text \<open>
  The heuristic that chooses the connections of an element (algorithm 4 of the HNSW paper), the
  update of a full neighbor array, and the search for the neighbors of a new element
  (algorithm 1). The candidate structures a caller passes to \<^verbatim>\<open>SelectNeighbors\<close> are updated in
  place (their \<^verbatim>\<open>closer\<close> flag); the model names each candidate by its position in the list \<open>c\<close>, so that
  lists of pointers to candidates become lists of positions.
\<close>

subsection \<open>Candidate order\<close>

definition CompareCandidateDistances :: "HnswCandidate \<Rightarrow> HnswCandidate \<Rightarrow> int" where
  "CompareCandidateDistances hca hcb =
     (if float4_lt (hc_distance hca) (hc_distance hcb) then 1
      else if float4_lt (hc_distance hcb) (hc_distance hca) then -1
      else if hc_element hca < hc_element hcb then 1
      else if hc_element hcb < hc_element hca then -1
      else 0)"

text \<open>
  \<^verbatim>\<open>list_sort\<close> as a stable insertion sort. The comparators above order candidates with numeric
  distances and different elements strictly, and then every sorting method gives this list.
\<close>

fun sort_insert :: "('a \<Rightarrow> 'a \<Rightarrow> int) \<Rightarrow> 'a \<Rightarrow> 'a list \<Rightarrow> 'a list" where
  "sort_insert cmp x [] = [x]"
| "sort_insert cmp x (y # ys) = (if cmp x y \<le> 0 then x # y # ys else y # sort_insert cmp x ys)"

definition list_sort :: "('a \<Rightarrow> 'a \<Rightarrow> int) \<Rightarrow> 'a list \<Rightarrow> 'a list" where
  "list_sort cmp xs = foldr (sort_insert cmp) xs []"

subsection \<open>SelectNeighbors\<close>

text \<open>The value of a candidate's element.\<close>

definition cand_value :: "'v memory \<Rightarrow> HnswCandidate \<Rightarrow> 'v result" where
  "cand_value mem hc =
     bindE (HnswPtrAccess mem (hc_element hc)) (\<lambda>e. ofOption (BadAccess ''value'') (he_value e))"

text \<open>\<open>r\<close> lists the candidates to compare \<open>e\<close> with.\<close>

fun check_closer :: "'v memory \<Rightarrow> 'v HnswSupport \<Rightarrow> 'v \<Rightarrow> float4 \<Rightarrow> HnswCandidate list \<Rightarrow> bool result" where
  "check_closer mem support eValue eDistance [] = Inr True"
| "check_closer mem support eValue eDistance (ri # r) =
     bindE (cand_value mem ri) (\<lambda>riValue.
     bindE (HnswGetDistance eValue riValue support) (\<lambda>d.
     if float4_le (float8_to_float4 d) eDistance then Inr False
     else check_closer mem support eValue eDistance r))"

definition CheckElementCloser ::
  "'v memory \<Rightarrow> HnswCandidate \<Rightarrow> HnswCandidate list \<Rightarrow> 'v HnswSupport \<Rightarrow> bool result" where
  "CheckElementCloser mem e r support =
     bindE (cand_value mem e) (\<lambda>eValue. check_closer mem support eValue (hc_distance e) r)"

text \<open>
  The local variables of the main loop. \<open>sn_c\<close> holds the candidates (with their flags), \<open>sn_w\<close> the
  positions still to process with the nearest last, \<open>sn_r\<close>, \<open>sn_wd\<close> and \<open>sn_added\<close> the positions
  selected, discarded and newly added.
\<close>

record select_state =
  sn_c :: "HnswCandidate list"
  sn_w :: "nat list"
  sn_r :: "nat list"
  sn_wd :: "nat list"
  sn_added :: "nat list"
  sn_removedAny :: bool

text \<open>The new flag of candidate \<open>i\<close>, with the updated \<open>added\<close> and \<open>removedAny\<close>.\<close>

definition update_closer ::
  "'v memory \<Rightarrow> 'v HnswSupport \<Rightarrow> bool \<Rightarrow> nat option \<Rightarrow> nat \<Rightarrow> select_state
    \<Rightarrow> (bool \<times> nat list \<times> bool) result" where
  "update_closer mem support mustCalculate newCandidate i s =
     (let c = sn_c s; e = c ! i; r = map ((!) c) (sn_r s); added = map ((!) c) (sn_added s) in
      if mustCalculate
      then bindE (CheckElementCloser mem e r support) (\<lambda>cl. Inr (cl, sn_added s, sn_removedAny s))
      else if sn_added s \<noteq> []
      then
        (if hc_closer e
         then bindE (CheckElementCloser mem e added support) (\<lambda>cl.
                Inr (cl, sn_added s, if cl then sn_removedAny s else True))
         else if sn_removedAny s
         then bindE (CheckElementCloser mem e r support) (\<lambda>cl.
                Inr (cl, if cl then sn_added s @ [i] else sn_added s, sn_removedAny s))
         else Inr (hc_closer e, sn_added s, sn_removedAny s))
      else if newCandidate = Some i
      then bindE (CheckElementCloser mem e r support) (\<lambda>cl.
             Inr (cl, if cl then sn_added s @ [i] else sn_added s, sn_removedAny s))
      else Inr (hc_closer e, sn_added s, sn_removedAny s))"

definition select_step ::
  "'v memory \<Rightarrow> 'v HnswSupport \<Rightarrow> bool \<Rightarrow> nat option \<Rightarrow> select_state \<Rightarrow> select_state result" where
  "select_step mem support mustCalculate newCandidate s =
     (let i = last (sn_w s); s1 = s\<lparr>sn_w := butlast (sn_w s)\<rparr> in
      bindE (update_closer mem support mustCalculate newCandidate i s1) (\<lambda>(cl, added, removedAny).
      let s2 = s1\<lparr>sn_c := (sn_c s1)[i := (sn_c s1 ! i)\<lparr>hc_closer := cl\<rparr>],
                  sn_added := added, sn_removedAny := removedAny\<rparr>
      in Inr (if cl then s2\<lparr>sn_r := sn_r s2 @ [i]\<rparr> else s2\<lparr>sn_wd := sn_wd s2 @ [i]\<rparr>)))"

lemma select_step_w: "select_step mem support mc nc s = Inr s' \<Longrightarrow> sn_w s' = butlast (sn_w s)"
  by (auto simp: select_step_def Let_def)

function select_loop ::
  "'v memory \<Rightarrow> 'v HnswSupport \<Rightarrow> nat \<Rightarrow> bool \<Rightarrow> nat option \<Rightarrow> select_state \<Rightarrow> select_state result" where
  "select_loop mem support lm mustCalculate newCandidate s =
     (if sn_w s \<noteq> [] \<and> length (sn_r s) < lm
      then bindE (select_step mem support mustCalculate newCandidate s)
             (select_loop mem support lm mustCalculate newCandidate)
      else Inr s)"
  by pat_completeness auto
termination
  by (relation "measure (\<lambda>(mem, support, lm, mc, nc, s). length (sn_w s))") (auto simp: select_step_w)

declare select_loop.simps [simp del]

text \<open>
  \<^verbatim>\<open>SelectNeighbors\<close>. The result: the selected candidates, the candidates with their new flags, the new
  \<^verbatim>\<open>*closerSet\<close> and \<^verbatim>\<open>*pruned\<close> (\<open>None\<close> when it is not set). Taking \<^verbatim>\<open>linitial(w)\<close> of an empty list is an
  invalid access.
\<close>

record select_result =
  sr_r :: "nat list"
  sr_c :: "HnswCandidate list"
  sr_closerSet :: bool
  sr_pruned :: "nat option"

definition SelectNeighbors ::
  "'v memory \<Rightarrow> HnswCandidate list \<Rightarrow> nat \<Rightarrow> 'v HnswSupport \<Rightarrow> bool \<Rightarrow> nat option \<Rightarrow> bool \<Rightarrow> bool
    \<Rightarrow> select_result result" where
  "SelectNeighbors mem c lm support closerSet newCandidate wantPruned sortCandidates =
     (if length c \<le> lm
      then Inr \<lparr>sr_r = [0..<length c], sr_c = c, sr_closerSet = closerSet, sr_pruned = None\<rparr>
      else
        let w = (if sortCandidates
                 then list_sort (\<lambda>i j. CompareCandidateDistances (c ! i) (c ! j)) [0..<length c]
                 else [0..<length c])
        in bindE (select_loop mem support lm (\<not> closerSet) newCandidate
                   \<lparr>sn_c = c, sn_w = w, sn_r = [], sn_wd = [], sn_added = [], sn_removedAny = False\<rparr>) (\<lambda>s.
           let keep = take (lm - length (sn_r s)) (sn_wd s);
               rest = drop (lm - length (sn_r s)) (sn_wd s)
           in bindE (if \<not> wantPruned then Inr None
                     else if rest \<noteq> [] then Inr (Some (hd rest))
                     else if sn_w s \<noteq> [] then Inr (Some (hd (sn_w s)))
                     else Inl (BadAccess ''linitial'')) (\<lambda>pruned.
              Inr \<lparr>sr_r = sn_r s @ keep, sr_c = sn_c s, sr_closerSet = sortCandidates, sr_pruned = pruned\<rparr>)))"

subsection \<open>Connections\<close>

text \<open>Appending to a neighbor array writes at \<^verbatim>\<open>items[length]\<close>.\<close>

definition append_item :: "HnswNeighborArray \<Rightarrow> HnswCandidate \<Rightarrow> HnswNeighborArray result" where
  "append_item a hc =
     (if length (na_items a) < na_alloc a then Inr (a\<lparr>na_items := na_items a @ [hc]\<rparr>)
      else Inl (BadAccess ''items''))"

definition AddConnections ::
  "'v HnswElementData \<Rightarrow> HnswCandidate list \<Rightarrow> nat \<Rightarrow> 'v HnswElementData result" where
  "AddConnections element neighbors lc =
     bindE (HnswGetNeighbors element lc) (\<lambda>a.
     bindE (foldE (\<lambda>hc a. append_item a hc) neighbors a) (\<lambda>a'.
     HnswSetNeighbors element lc a'))"

text \<open>The search for the pruned element in the array.\<close>

fun find_element :: "HnswCandidate list \<Rightarrow> eptr \<Rightarrow> nat \<Rightarrow> nat option" where
  "find_element [] p i = None"
| "find_element (hc # hcs) p i = (if hc_element hc = p then Some i else find_element hcs p (Suc i))"

text \<open>
  \<^verbatim>\<open>HnswUpdateConnection\<close>: the new array and what is stored in \<^verbatim>\<open>*updateIdx\<close> (\<open>None\<close>: left as it was). The
  flag \<^verbatim>\<open>closer\<close> of \<^verbatim>\<open>newHc\<close> is not initialized; \<open>garbage\<close> is its value.
\<close>

definition HnswUpdateConnection ::
  "'v memory \<Rightarrow> HnswNeighborArray \<Rightarrow> eptr \<Rightarrow> float4 \<Rightarrow> nat \<Rightarrow> 'v HnswSupport \<Rightarrow> bool
    \<Rightarrow> (HnswNeighborArray \<times> int option) result" where
  "HnswUpdateConnection mem neighbors newElement distance lm support garbage =
     (let newHc = \<lparr>hc_element = newElement, hc_distance = distance, hc_closer = garbage\<rparr>;
          n = length (na_items neighbors)
      in if n < lm
         then bindE (append_item neighbors newHc) (\<lambda>a. Inr (a, Some (-2)))
         else
           bindE (SelectNeighbors mem (na_items neighbors @ [newHc]) lm support (na_closerSet neighbors)
                    (Some n) True True) (\<lambda>sr.
           let a = neighbors\<lparr>na_items := take n (sr_c sr), na_closerSet := sr_closerSet sr\<rparr>
           in case sr_pruned sr of
                None \<Rightarrow> Inr (a, None)
              | Some k \<Rightarrow>
                  (case find_element (na_items a) (hc_element (sr_c sr ! k)) 0 of
                     None \<Rightarrow> Inr (a, None)
                   | Some i \<Rightarrow> Inr (a\<lparr>na_items := (na_items a)[i := sr_c sr ! n]\<rparr>, Some (int i)))))"

fun RemoveElements ::
  "'v memory \<Rightarrow> HnswCandidate list \<Rightarrow> 'v HnswElementData option \<Rightarrow> HnswCandidate list result" where
  "RemoveElements mem [] skipElement = Inr []"
| "RemoveElements mem (hc # w) skipElement =
     bindE (HnswPtrAccess mem (hc_element hc)) (\<lambda>hce.
     bindE (RemoveElements mem w skipElement) (\<lambda>w2.
     Inr (if (case skipElement of None \<Rightarrow> False
              | Some se \<Rightarrow> he_blkno hce = he_blkno se \<and> he_offno hce = he_offno se)
          then w2
          else if he_heaptids hce \<noteq> [] then hc # w2 else w2)))"

subsection \<open>Finding the neighbors of an element\<close>

text \<open>The hash of an element address in memory: the finalizer of MurmurHash3, cut to 32 bits.\<close>

unbundle bit_operations_syntax

definition murmurhash64 :: "64 word \<Rightarrow> 64 word" where
  "murmurhash64 data =
     (let h1 = data XOR drop_bit 33 data;
          h2 = h1 * 0xff51afd7ed558ccd;
          h3 = h2 XOR drop_bit 33 h2;
          h4 = h3 * 0xc4ceb9fe1a85ec53
      in h4 XOR drop_bit 33 h4)"

definition hash_pointer :: "eptr \<Rightarrow> 32 word" where
  "hash_pointer p = ucast (murmurhash64 p)"

definition PrecomputeHash :: "'v memory \<Rightarrow> eptr \<Rightarrow> 'v memory result" where
  "PrecomputeHash mem element =
     bindE (HnswPtrAccess mem element) (\<lambda>e. Inr (element_store mem element (e\<lparr>he_hash := hash_pointer element\<rparr>)))"

text \<open>The arguments every layer search of \<^verbatim>\<open>HnswFindElementNeighbors\<close> is called with.\<close>

definition insert_args ::
  "'v option \<Rightarrow> nat \<Rightarrow> nat \<Rightarrow> 'v relation option \<Rightarrow> 'v HnswSupport \<Rightarrow> nat \<Rightarrow> bool \<Rightarrow> 'v search_args" where
  "insert_args q ef lc index support m existing =
     \<lparr>sa_q = q, sa_ef = ef, sa_lc = lc, sa_index = index, sa_support = support, sa_m = m,
      sa_inserting = True, sa_skip = existing\<rparr>"

text \<open>First phase: greedy search from layer \<open>lc\<close> down to the layer above \<open>level\<close>.\<close>

fun greedy_descent ::
  "'v option \<Rightarrow> 'v relation option \<Rightarrow> 'v HnswSupport \<Rightarrow> nat \<Rightarrow> bool \<Rightarrow> nat list
    \<Rightarrow> HnswSearchCandidate list \<times> 'v memory \<Rightarrow> (HnswSearchCandidate list \<times> 'v memory) result" where
  "greedy_descent q index support m existing [] (ep, mem) = Inr (ep, mem)"
| "greedy_descent q index support m existing (lc # lcs) (ep, mem) =
     bindE (HnswSearchLayer (insert_args q 1 lc index support m existing) ep None None True None None mem)
       (\<lambda>(w, st). greedy_descent q index support m existing lcs (w, ss_mem st))"

text \<open>The \<^verbatim>\<open>closer\<close> flag of the converted candidates has no meaning yet.\<close>

definition candidates_of :: "HnswSearchCandidate list \<Rightarrow> HnswCandidate list" where
  "candidates_of w =
     map (\<lambda>sc. \<lparr>hc_element = sc_element sc, hc_distance = float8_to_float4 (sc_distance sc),
               hc_closer = False\<rparr>) w"

text \<open>Second phase: one layer of the loop that connects the element.\<close>

definition connect_layer ::
  "eptr \<Rightarrow> 'v option \<Rightarrow> nat \<Rightarrow> 'v relation option \<Rightarrow> 'v HnswSupport \<Rightarrow> nat \<Rightarrow> bool \<Rightarrow> nat
    \<Rightarrow> HnswSearchCandidate list \<times> 'v memory \<Rightarrow> (HnswSearchCandidate list \<times> 'v memory) result" where
  "connect_layer element q ef index support m existing lc = (\<lambda>(ep, mem).
     bindE (HnswSearchLayer (insert_args q ef lc index support m existing) ep None None True None None mem)
       (\<lambda>(w, st).
     let mem1 = ss_mem st in
     bindE (HnswPtrAccess mem1 element) (\<lambda>e.
     bindE (if index = None then Inr (candidates_of w)
            else RemoveElements mem1 (candidates_of w) (if existing then Some e else None)) (\<lambda>lw.
     bindE (HnswGetNeighbors e lc) (\<lambda>a.
     bindE (SelectNeighbors mem1 lw (HnswGetLayerM m lc) support (na_closerSet a) None False False) (\<lambda>sr.
     bindE (HnswSetNeighbors e lc (a\<lparr>na_closerSet := sr_closerSet sr\<rparr>)) (\<lambda>e1.
     bindE (AddConnections e1 (map ((!) (sr_c sr)) (sr_r sr)) lc) (\<lambda>e2.
     Inr (w, element_store mem1 element e2)))))))))"

definition HnswFindElementNeighbors ::
  "eptr \<Rightarrow> eptr option \<Rightarrow> 'v relation option \<Rightarrow> 'v HnswSupport \<Rightarrow> nat \<Rightarrow> nat \<Rightarrow> bool \<Rightarrow> 'v memory
    \<Rightarrow> 'v memory result" where
  "HnswFindElementNeighbors element entryPoint index support m efConstruction existing mem0 =
     bindE (HnswPtrAccess mem0 element) (\<lambda>e0.
     bindE (if index = None then PrecomputeHash mem0 element else Inr mem0) (\<lambda>mem1.
     case entryPoint of
       None \<Rightarrow> Inr mem1
     | Some entry \<Rightarrow>
         let q = he_value e0; level = unat (he_level e0) in
         bindE (HnswEntryCandidate entry q index support True mem1) (\<lambda>(sc, mem2).
         bindE (HnswPtrAccess mem2 entry) (\<lambda>en.
         let entryLevel = unat (he_level en) in
         bindE (greedy_descent q index support m existing (rev [Suc level..<Suc entryLevel]) ([sc], mem2))
           (\<lambda>ep_mem.
         let top = min level entryLevel;
             ef = (if existing then Suc efConstruction else efConstruction)
         in bindE (foldE (connect_layer element q ef index support m existing) (rev [0..<Suc top]) ep_mem)
              (\<lambda>(ep, mem3). Inr mem3))))))"

end
