(* ===== verification/Page_Walk.thy ===== *)
theory Page_Walk
  imports Hnsw_Storage
begin

section \<open>Walking the chain of pages\<close>

text \<open>
  Inserts and vacuum follow the links \<^verbatim>\<open>nextblkno\<close> from page to page. Nothing in the code bounds
  such a loop, so an operation that contains one has a result of type \<open>'a result option\<close>: \<open>None\<close> means that it
  does not return. \<open>bindO\<close> sequences such operations. \<open>chain_ok\<close> is the shape the code gives the chain: every
  new page is linked from the last one, so the pages are linked in the order of their numbers.
\<close>

definition bindO :: "'a result option \<Rightarrow> ('a \<Rightarrow> 'b result option) \<Rightarrow> 'b result option" where
  "bindO r f = (case r of None \<Rightarrow> None | Some (Inl e) \<Rightarrow> Some (Inl e) | Some (Inr x) \<Rightarrow> f x)"

lemma bindO_simps [simp]:
  "bindO None f = None"
  "bindO (Some (Inl e)) f = Some (Inl e)"
  "bindO (Some (Inr x)) f = f x"
  by (simp_all add: bindO_def)

lemma bindO_Some_iff:
  "bindO r f = Some (Inr y) \<longleftrightarrow> (\<exists>x. r = Some (Inr x) \<and> f x = Some (Inr y))"
  by (auto simp: bindO_def split: option.splits sum.splits)

lemma bindO_InrE [elim!]:
  assumes "bindO r f = Some (Inr y)"
  obtains x where "r = Some (Inr x)" "f x = Some (Inr y)"
  using assms by (auto simp: bindO_Some_iff)

fun foldO :: "('a \<Rightarrow> 's \<Rightarrow> 's result option) \<Rightarrow> 'a list \<Rightarrow> 's \<Rightarrow> 's result option" where
  "foldO f [] s = Some (Inr s)"
| "foldO f (x # xs) s = bindO (f x s) (foldO f xs)"

text \<open>\<open>step blkno s\<close> processes one page and gives the number of the next one.\<close>

partial_function (option) page_walk ::
  "(BlockNumber \<Rightarrow> 's \<Rightarrow> (BlockNumber \<times> 's) result) \<Rightarrow> BlockNumber \<Rightarrow> 's \<Rightarrow> 's result option" where
  [code]: "page_walk step blkno s =
     (if \<not> BlockNumberIsValid blkno then Some (Inr s)
      else case step blkno s of
        Inl e \<Rightarrow> Some (Inl e)
      | Inr r \<Rightarrow> page_walk step (fst r) (snd r))"

declare page_walk.simps [simp del]

text \<open>The offset numbers of a page, in the order of the loops over them.\<close>

definition page_offsets :: "('i, 'o) page \<Rightarrow> OffsetNumber list" where
  "page_offsets p = map word_of_nat [1..<Suc (unat (PageGetMaxOffsetNumber p))]"

definition page_next :: "'v relation \<Rightarrow> nat \<Rightarrow> BlockNumber" where
  "page_next index i = po_nextblkno (pd_opaque (rd_blocks index ! i))"

definition chain_ok :: "'v relation \<Rightarrow> bool" where
  "chain_ok index \<longleftrightarrow>
     rd_blocks index \<noteq> [] \<and> length (rd_blocks index) < 2 ^ 32 - 1 \<and>
     (\<forall>i < length (rd_blocks index). page_next index i =
        (if Suc i < length (rd_blocks index) then word_of_nat (i + 2) else InvalidBlockNumber))"

text \<open>Along such a chain a walk visits every page from its start once, in order, and ends.\<close>

lemma block_of_nat:
  assumes "i < 2 ^ 32 - 1"
  shows "unat (word_of_nat i :: BlockNumber) = i" "BlockNumberIsValid (word_of_nat i)"
proof -
  show u: "unat (word_of_nat i :: BlockNumber) = i"
    using assms by (simp add: unsigned_of_nat take_bit_nat_eq_self)
  show "BlockNumberIsValid (word_of_nat i)"
  proof (rule ccontr)
    assume "\<not> BlockNumberIsValid (word_of_nat i)"
    then have "unat (word_of_nat i :: BlockNumber) = unat (0xFFFFFFFF :: BlockNumber)"
      by (simp add: BlockNumberIsValid_def InvalidBlockNumber_def)
    with u assms show False by simp
  qed
qed

lemma page_walk_chain:
  fixes step :: "BlockNumber \<Rightarrow> 's \<Rightarrow> (BlockNumber \<times> 's) result"
  assumes n: "n < 2 ^ 32 - 1" and start: "P i s" "i < n"
    and step: "\<And>j s. P j s \<Longrightarrow> j < n \<Longrightarrow>
      (\<exists>e. step (word_of_nat (Suc j)) s = Inl e \<and> Q e) \<or>
      (\<exists>s'. step (word_of_nat (Suc j)) s =
         Inr (if Suc j < n then word_of_nat (j + 2) else InvalidBlockNumber, s') \<and> P (Suc j) s')"
  shows "(\<exists>e. page_walk step (word_of_nat (Suc i)) s = Some (Inl e) \<and> Q e) \<or>
    (\<exists>s'. page_walk step (word_of_nat (Suc i)) s = Some (Inr s') \<and> P n s')"
  using start
proof (induction "n - i" arbitrary: i s)
  case (Suc k)
  have v: "BlockNumberIsValid (word_of_nat (Suc i))" using Suc.prems n by (intro block_of_nat) simp
  from step [OF Suc.prems] show ?case
  proof (elim disjE exE conjE)
    fix e
    assume "step (word_of_nat (Suc i)) s = Inl e" "Q e"
    then show ?thesis using v by (subst (1 2) page_walk.simps) auto
  next
    fix s'
    assume s: "step (word_of_nat (Suc i)) s =
      Inr (if Suc i < n then word_of_nat (i + 2) else InvalidBlockNumber, s')" "P (Suc i) s'"
    show ?thesis
    proof (cases "Suc i < n")
      case True
      with Suc.hyps(1) [of "Suc i" s'] Suc.hyps(2) s v show ?thesis
        by (subst (1 2) page_walk.simps) auto
    next
      case False
      with Suc.prems(2) have "n = Suc i" by simp
      with s v show ?thesis
        by (subst (1 2) page_walk.simps) (simp add: page_walk.simps BlockNumberIsValid_def)
    qed
  qed
qed simp

end
