(* ===== verification/Hnsw_Insert.thy ===== *)
theory Hnsw_Insert
  imports Hnsw_Neighbors Page_Walk
begin

section \<open>Inserting a tuple (src/hnswinsert.c)\<close>

text \<open>
  The functions of \<^verbatim>\<open>hnswinsert.c\<close>. The relation is passed through the operations. A page that is changed
  goes back to its block before the next page is taken, so that two names of one page (\<^verbatim>\<open>npage == page\<close>) see
  each other's changes. The flag \<^verbatim>\<open>building\<close> only chooses between marking a buffer dirty and writing it to the
  log; it has no counterpart here. An error leaves the relation to the caller's transaction.
\<close>

definition GetInsertPage :: "'v relation \<Rightarrow> BlockNumber" where
  "GetInsertPage index = mp_insertPage (rd_meta index)"

subsection \<open>Finding room\<close>

text \<open>
  \<^verbatim>\<open>HnswFreeOffset\<close>: the loop over the offsets, with \<^verbatim>\<open>*newInsertPage\<close> as state. A hit gives \<^verbatim>\<open>*nbuf\<close>,
  \<^verbatim>\<open>*freeOffno\<close>, \<^verbatim>\<open>*freeNeighborOffno\<close> and \<^verbatim>\<open>*tupleVersion\<close>.
\<close>

type_synonym free_slot = "BlockNumber \<times> OffsetNumber \<times> OffsetNumber \<times> 8 word"

fun free_offset_loop ::
  "'v relation \<Rightarrow> BlockNumber \<Rightarrow> 'v hnsw_page \<Rightarrow> nat \<Rightarrow> nat \<Rightarrow> OffsetNumber list \<Rightarrow> BlockNumber
    \<Rightarrow> (free_slot option \<times> BlockNumber) result" where
  "free_offset_loop index buf page etupSize ntupSize [] newInsertPage = Inr (None, newInsertPage)"
| "free_offset_loop index buf page etupSize ntupSize (offno # offnos) newInsertPage =
     bindE (PageGetItemId page offno) (\<lambda>eitemid.
     bindE (PageGetItem page eitemid) (\<lambda>item.
     if \<not> HnswIsElementTuple item
     then free_offset_loop index buf page etupSize ntupSize offnos newInsertPage
     else bindE (as_etup item) (\<lambda>etup.
       if et_deleted etup \<noteq> 0
       then
         let elementPage = buf;
             neighborPage = ItemPointerGetBlockNumber (et_neighbortid etup);
             neighborOffno = ItemPointerGetOffsetNumber (et_neighbortid etup);
             newInsertPage1 = (if \<not> BlockNumberIsValid newInsertPage then elementPage else newInsertPage)
         in bindE (if neighborPage = elementPage then Inr page else ReadBuffer index neighborPage) (\<lambda>npage.
            bindE (PageGetItemId npage neighborOffno) (\<lambda>nitemid.
            let pageFree = lp_len eitemid + PageGetExactFreeSpace page;
                npageFree = lp_len nitemid +
                  (if neighborPage \<noteq> elementPage then PageGetExactFreeSpace npage
                   else if pageFree \<ge> etupSize then pageFree - etupSize else 0)
            in if pageFree \<ge> etupSize \<and> npageFree \<ge> ntupSize
               then Inr (Some (neighborPage, offno, neighborOffno, et_version etup), newInsertPage1)
               else free_offset_loop index buf page etupSize ntupSize offnos newInsertPage1))
       else free_offset_loop index buf page etupSize ntupSize offnos newInsertPage)))"

definition HnswFreeOffset ::
  "'v relation \<Rightarrow> BlockNumber \<Rightarrow> 'v hnsw_page \<Rightarrow> nat \<Rightarrow> nat \<Rightarrow> BlockNumber
    \<Rightarrow> (free_slot option \<times> BlockNumber) result" where
  "HnswFreeOffset index buf page etupSize ntupSize newInsertPage =
     free_offset_loop index buf page etupSize ntupSize (page_offsets page) newInsertPage"

text \<open>A new page, linked from the page in block \<open>blkno\<close>.\<close>

definition HnswInsertAppendPage :: "'v relation \<Rightarrow> BlockNumber \<Rightarrow> (BlockNumber \<times> 'v relation) result" where
  "HnswInsertAppendPage index blkno =
     bindE (HnswNewBuffer index) (\<lambda>(nbuf, index1).
     bindE (ReadBuffer index1 blkno) (\<lambda>page.
     Inr (nbuf, WriteBuffer index1 blkno (page\<lparr>pd_opaque := (pd_opaque page)\<lparr>po_nextblkno := nbuf\<rparr>\<rparr>))))"

text \<open>
  Where the two tuples go: the relation with any new pages, the block of the element, the block of the
  neighbors, the offsets and version of a reused pair of tuples, and \<^verbatim>\<open>newInsertPage\<close>.
\<close>

record 'v placement =
  pl_index :: "'v relation"
  pl_buf :: BlockNumber
  pl_nbuf :: BlockNumber
  pl_free :: "(OffsetNumber \<times> OffsetNumber \<times> 8 word) option"
  pl_newInsertPage :: BlockNumber

datatype 'v page_choice = Chosen "'v placement" | NextPage BlockNumber BlockNumber

text \<open>The end of the chain: a new page, and one more for the neighbors if both do not fit on one.\<close>

definition append_choice :: "'v relation \<Rightarrow> nat \<Rightarrow> BlockNumber \<Rightarrow> BlockNumber \<Rightarrow> 'v page_choice result" where
  "append_choice index combinedSize currentPage newInsertPage =
     bindE (HnswInsertAppendPage index currentPage) (\<lambda>(buf, index1).
     bindE (ReadBuffer index1 buf) (\<lambda>page.
     if PageGetFreeSpace page < combinedSize
     then bindE (HnswInsertAppendPage index1 buf) (\<lambda>(nbuf, index2).
            Inr (Chosen \<lparr>pl_index = index2, pl_buf = buf, pl_nbuf = nbuf, pl_free = None,
                         pl_newInsertPage = newInsertPage\<rparr>))
     else Inr (Chosen \<lparr>pl_index = index1, pl_buf = buf, pl_nbuf = buf, pl_free = None,
                       pl_newInsertPage = newInsertPage\<rparr>)))"

definition try_page ::
  "'v relation \<Rightarrow> nat \<Rightarrow> nat \<Rightarrow> nat \<Rightarrow> nat \<Rightarrow> BlockNumber \<Rightarrow> BlockNumber \<Rightarrow> 'v page_choice result" where
  "try_page index etupSize ntupSize combinedSize minCombinedSize currentPage newInsertPage =
     bindE (ReadBuffer index currentPage) (\<lambda>page.
     let newInsertPage1 =
       (if \<not> BlockNumberIsValid newInsertPage \<and> PageGetFreeSpace page \<ge> minCombinedSize
        then currentPage else newInsertPage)
     in if PageGetFreeSpace page \<ge> combinedSize
        then Inr (Chosen \<lparr>pl_index = index, pl_buf = currentPage, pl_nbuf = currentPage, pl_free = None,
                          pl_newInsertPage = newInsertPage1\<rparr>)
        else bindE (HnswFreeOffset index currentPage page etupSize ntupSize newInsertPage1)
          (\<lambda>(free, newInsertPage2).
          case free of
            Some (nbuf, freeOffno, freeNeighborOffno, tupleVersion) \<Rightarrow>
              Inr (Chosen \<lparr>pl_index = index, pl_buf = currentPage, pl_nbuf = nbuf,
                           pl_free = Some (freeOffno, freeNeighborOffno, tupleVersion),
                           pl_newInsertPage = newInsertPage2\<rparr>)
          | None \<Rightarrow>
              let nextblkno = po_nextblkno (pd_opaque page) in
              if combinedSize > HNSW_MAX_SIZE \<and> PageGetFreeSpace page \<ge> etupSize \<and>
                 \<not> BlockNumberIsValid nextblkno
              then bindE (HnswInsertAppendPage index currentPage) (\<lambda>(nbuf, index1).
                     Inr (Chosen \<lparr>pl_index = index1, pl_buf = currentPage, pl_nbuf = nbuf, pl_free = None,
                                  pl_newInsertPage = newInsertPage2\<rparr>))
              else if BlockNumberIsValid nextblkno then Inr (NextPage nextblkno newInsertPage2)
              else append_choice index combinedSize currentPage newInsertPage2))"

partial_function (option) find_page ::
  "(BlockNumber \<Rightarrow> BlockNumber \<Rightarrow> 'v page_choice result) \<Rightarrow> BlockNumber \<Rightarrow> BlockNumber
    \<Rightarrow> 'v placement result option" where
  [code]: "find_page try currentPage newInsertPage =
     (case try currentPage newInsertPage of
        Inl e \<Rightarrow> Some (Inl e)
      | Inr (Chosen pl) \<Rightarrow> Some (Inr pl)
      | Inr (NextPage nextblkno newInsertPage1) \<Rightarrow> find_page try nextblkno newInsertPage1)"

declare find_page.simps [simp del]

subsection \<open>Adding the element\<close>

definition add_failed :: pg_error where
  "add_failed = Elog ''failed to add index item''"

text \<open>Both ways of storing a tuple in a block, with the check of the caller.\<close>

definition overwrite_item ::
  "'v relation \<Rightarrow> BlockNumber \<Rightarrow> OffsetNumber \<Rightarrow> 'v hnsw_item \<Rightarrow> nat \<Rightarrow> 'v relation result" where
  "overwrite_item index blkno offno item sz =
     bindE (ReadBuffer index blkno) (\<lambda>page.
     bindE (PageIndexTupleOverwrite page offno item sz) (\<lambda>(ok, page').
     if ok then Inr (WriteBuffer index blkno page') else Inl add_failed))"

definition append_item_at ::
  "'v relation \<Rightarrow> BlockNumber \<Rightarrow> OffsetNumber \<Rightarrow> 'v hnsw_item \<Rightarrow> nat \<Rightarrow> 'v relation result" where
  "append_item_at index blkno offno item sz =
     bindE (ReadBuffer index blkno) (\<lambda>page.
     bindE (PageAddItem page item sz InvalidOffsetNumber False False) (\<lambda>(off, page').
     if off = offno then Inr (WriteBuffer index blkno page') else Inl add_failed))"

definition store_tuples ::
  "'v placement \<Rightarrow> 'v HnswElementData \<Rightarrow> 'v HnswElementTupleData \<Rightarrow> HnswNeighborTupleData \<Rightarrow> nat \<Rightarrow> nat
    \<Rightarrow> ('v relation \<times> 'v HnswElementData) result" where
  "store_tuples pl e etup ntup etupSize ntupSize =
     bindE (ReadBuffer (pl_index pl) (pl_buf pl)) (\<lambda>page.
     let e1 = e\<lparr>he_blkno := pl_buf pl, he_neighborPage := pl_nbuf pl\<rparr>;
         e2 = (case pl_free pl of
                 Some (freeOffno, freeNeighborOffno, tupleVersion) \<Rightarrow>
                   e1\<lparr>he_offno := freeOffno, he_neighborOffno := freeNeighborOffno\<rparr>
               | None \<Rightarrow>
                   let offno = OffsetNumberNext (PageGetMaxOffsetNumber page) in
                   e1\<lparr>he_offno := offno,
                      he_neighborOffno := if pl_nbuf pl = pl_buf pl then OffsetNumberNext offno
                                          else FirstOffsetNumber\<rparr>);
         version = (case pl_free pl of Some (_, _, tupleVersion) \<Rightarrow> Some tupleVersion | None \<Rightarrow> None);
         etup1 = (case version of None \<Rightarrow> etup | Some ver \<Rightarrow> etup\<lparr>et_version := ver\<rparr>);
         ntup1 = (case version of None \<Rightarrow> ntup | Some ver \<Rightarrow> ntup\<lparr>nt_version := ver\<rparr>);
         etup2 = etup1\<lparr>et_neighbortid := ItemPointerSet (he_neighborPage e2) (he_neighborOffno e2)\<rparr>
     in if pl_free pl \<noteq> None
        then bindE (overwrite_item (pl_index pl) (pl_buf pl) (he_offno e2) (ETup etup2) etupSize) (\<lambda>index1.
             bindE (overwrite_item index1 (pl_nbuf pl) (he_neighborOffno e2) (NTup ntup1) ntupSize) (\<lambda>index2.
             Inr (index2, e2)))
        else bindE (append_item_at (pl_index pl) (pl_buf pl) (he_offno e2) (ETup etup2) etupSize) (\<lambda>index1.
             bindE (append_item_at index1 (pl_nbuf pl) (he_neighborOffno e2) (NTup ntup1) ntupSize) (\<lambda>index2.
             Inr (index2, e2))))"

text \<open>The last component is the value stored in \<^verbatim>\<open>*updatedInsertPage\<close>, \<open>None\<close> if it is not set.\<close>

definition AddElementOnDisk ::
  "'v relation \<Rightarrow> 'v memory \<Rightarrow> eptr \<Rightarrow> nat \<Rightarrow> BlockNumber
    \<Rightarrow> ('v relation \<times> 'v memory \<times> BlockNumber option) result option" where
  "AddElementOnDisk index mem p m insertPage =
     bindO (Some (HnswPtrAccess mem p)) (\<lambda>e.
     bindO (Some (ofOption (BadAccess ''value'') (he_value e))) (\<lambda>v.
     let etupSize = HNSW_ELEMENT_TUPLE_SIZE (rd_varsize index v);
         ntupSize = HNSW_NEIGHBOR_TUPLE_SIZE (unat (he_level e)) m;
         combinedSize = etupSize + ntupSize + sizeof_ItemIdData;
         minCombinedSize = etupSize + HNSW_NEIGHBOR_TUPLE_SIZE 0 m + sizeof_ItemIdData
     in bindO (Some (HnswSetElementTuple etup_zero e)) (\<lambda>etup.
        bindO (Some (HnswSetNeighborTuple mem ntup_zero e m)) (\<lambda>ntup.
        bindO (find_page (try_page index etupSize ntupSize combinedSize minCombinedSize)
                 insertPage InvalidBlockNumber) (\<lambda>pl.
        bindO (Some (store_tuples pl e etup ntup etupSize ntupSize)) (\<lambda>(index1, e1).
        let newInsertPage = (if \<not> BlockNumberIsValid (pl_newInsertPage pl) then he_neighborPage e1
                             else pl_newInsertPage pl)
        in Some (Inr (index1, element_store mem p e1,
             if BlockNumberIsValid newInsertPage \<and> newInsertPage \<noteq> insertPage
             then Some newInsertPage else None))))))))"

subsection \<open>Updating the neighbors\<close>

text \<open>The fields of the candidates other than the element have no meaning yet.\<close>

fun load_neighbors :: "ItemPointerData list \<Rightarrow> HnswNeighborArray \<Rightarrow> 'v memory
    \<Rightarrow> (HnswNeighborArray \<times> 'v memory) result" where
  "load_neighbors [] neighbors mem = Inr (neighbors, mem)"
| "load_neighbors (indextid # indextids) neighbors mem =
     (if \<not> ItemPointerIsValid indextid then Inr (neighbors, mem)
      else bindE (HnswInitElementFromBlock mem (ItemPointerGetBlockNumber indextid)
                    (ItemPointerGetOffsetNumber indextid)) (\<lambda>(e, mem1).
           bindE (append_item neighbors \<lparr>hc_element = e, hc_distance = 0, hc_closer = False\<rparr>) (\<lambda>neighbors1.
           load_neighbors indextids neighbors1 mem1)))"

definition HnswLoadNeighbors ::
  "'v HnswElementData \<Rightarrow> 'v relation \<Rightarrow> nat \<Rightarrow> nat \<Rightarrow> nat \<Rightarrow> 'v memory
    \<Rightarrow> (HnswNeighborArray \<times> 'v memory) result" where
  "HnswLoadNeighbors element index m lm lc mem =
     (if lm > HNSW_MAX_M * 2 then Inl (BadAccess ''indextids'')
      else bindE (HnswLoadNeighborTids element index m lm lc None) (\<lambda>(indextids, trace).
        case indextids of
          None \<Rightarrow> Inr (HnswInitNeighborArray lm, mem)
        | Some tids \<Rightarrow> load_neighbors tids (HnswInitNeighborArray lm) mem))"

text \<open>\<open>i\<close> is the position of the head of the list; the result holds the index of a deleted element, if any.\<close>

fun LoadElementsForInsert ::
  "HnswCandidate list \<Rightarrow> nat \<Rightarrow> 'v option \<Rightarrow> 'v relation \<Rightarrow> 'v HnswSupport \<Rightarrow> 'v memory
    \<Rightarrow> (HnswCandidate list \<times> int option \<times> 'v memory) result" where
  "LoadElementsForInsert [] i q index support mem = Inr ([], None, mem)"
| "LoadElementsForInsert (hc # hcs) i q index support mem =
     bindE (HnswLoadElement (hc_element hc) True q index support True None mem) (\<lambda>(distance, mem1).
     bindE (HnswPtrAccess mem1 (hc_element hc)) (\<lambda>element.
     let hc1 = hc\<lparr>hc_distance := float8_to_float4 distance\<rparr> in
     if he_heaptids element = [] then Inr (hc1 # hcs, Some (int i), mem1)
     else bindE (LoadElementsForInsert hcs (Suc i) q index support mem1) (\<lambda>(hcs1, idx, mem2).
          Inr (hc1 # hcs1, idx, mem2))))"

text \<open>
  The elements \<^verbatim>\<open>GetUpdateIndex\<close> loads are gone when it returns, since it resets its memory context. The flag
  \<^verbatim>\<open>closer\<close> of the new candidate is calculated before it is used, as the flag \<^verbatim>\<open>closerSet\<close> of a fresh array is not set.
\<close>

definition GetUpdateIndex ::
  "'v HnswElementData \<Rightarrow> eptr \<Rightarrow> float4 \<Rightarrow> nat \<Rightarrow> nat \<Rightarrow> nat \<Rightarrow> 'v relation \<Rightarrow> 'v HnswSupport \<Rightarrow> 'v memory
    \<Rightarrow> int result" where
  "GetUpdateIndex element newElement distance m lm lc index support mem =
     bindE (HnswLoadNeighbors element index m lm lc mem) (\<lambda>(neighbors, mem1).
     if length (na_items neighbors) < lm then Inr (-2)
     else bindE (LoadElementsForInsert (na_items neighbors) 0 (he_value element) index support mem1)
       (\<lambda>(items, idx, mem2).
       case idx of
         Some i \<Rightarrow> Inr i
       | None \<Rightarrow>
           bindE (HnswUpdateConnection mem2 (neighbors\<lparr>na_items := items\<rparr>) newElement distance lm support False)
             (\<lambda>(a, updateIdx). Inr (case updateIdx of None \<Rightarrow> -1 | Some i \<Rightarrow> i))))"

fun connection_exists ::
  "'v HnswElementData \<Rightarrow> HnswNeighborTupleData \<Rightarrow> int \<Rightarrow> nat list \<Rightarrow> bool result" where
  "connection_exists e ntup startIdx [] = Inr False"
| "connection_exists e ntup startIdx (i # is) =
     (if startIdx + int i < 0 then Inl (BadAccess ''indextids'')
      else bindE (array_get ''indextids'' (nt_indextids ntup) (nat (startIdx + int i))) (\<lambda>indextid.
        if \<not> ItemPointerIsValid indextid then Inr False
        else if ItemPointerGetBlockNumber indextid = he_blkno e \<and> ItemPointerGetOffsetNumber indextid = he_offno e
        then Inr True
        else connection_exists e ntup startIdx is))"

definition ConnectionExists ::
  "'v HnswElementData \<Rightarrow> HnswNeighborTupleData \<Rightarrow> int \<Rightarrow> nat \<Rightarrow> bool result" where
  "ConnectionExists e ntup startIdx lm = connection_exists e ntup startIdx [0..<lm]"

text \<open>The first free slot, \<open>-2\<close> if there is none.\<close>

fun free_index :: "HnswNeighborTupleData \<Rightarrow> int \<Rightarrow> nat list \<Rightarrow> int result" where
  "free_index ntup startIdx [] = Inr (-2)"
| "free_index ntup startIdx (j # js) =
     (if startIdx + int j < 0 then Inl (BadAccess ''indextids'')
      else bindE (array_get ''indextids'' (nt_indextids ntup) (nat (startIdx + int j))) (\<lambda>indextid.
        if \<not> ItemPointerIsValid indextid then Inr (startIdx + int j) else free_index ntup startIdx js))"

definition UpdateNeighborOnDisk ::
  "'v HnswElementData \<Rightarrow> 'v HnswElementData \<Rightarrow> int \<Rightarrow> nat \<Rightarrow> nat \<Rightarrow> nat \<Rightarrow> 'v relation \<Rightarrow> bool
    \<Rightarrow> 'v relation result" where
  "UpdateNeighborOnDisk element newElement idx m lm lc index checkExisting =
     (let offno = he_neighborOffno element in
      bindE (ReadBuffer index (he_neighborPage element)) (\<lambda>page.
      bindE (PageGetTuple page offno) (\<lambda>item.
      bindE (as_ntup item) (\<lambda>ntup.
      let startIdx = (int (unat (he_level element)) - int lc) * int m in
      bindE (if checkExisting then ConnectionExists newElement ntup startIdx lm else Inr False) (\<lambda>exists.
      bindE (if exists then Inr (-1)
             else if idx = -2 then free_index ntup startIdx [0..<lm]
             else Inr (idx + startIdx)) (\<lambda>idx1.
      if 0 \<le> idx1 \<and> idx1 < int (unat (nt_count ntup))
      then bindE (array_set ''indextids'' (nt_indextids ntup) (nat idx1)
                    (ItemPointerSet (he_blkno newElement) (he_offno newElement))) (\<lambda>indextids.
           bindE (PageSetTuple page offno (NTup (ntup\<lparr>nt_indextids := indextids\<rparr>))) (\<lambda>page'.
           Inr (WriteBuffer index (he_neighborPage element) page')))
      else Inr index))))))"

definition update_neighbor ::
  "'v HnswSupport \<Rightarrow> eptr \<Rightarrow> nat \<Rightarrow> bool \<Rightarrow> 'v memory \<Rightarrow> nat \<Rightarrow> HnswCandidate \<Rightarrow> 'v relation
    \<Rightarrow> 'v relation result" where
  "update_neighbor support p m checkExisting mem lc hc index =
     (let lm = HnswGetLayerM m lc in
      bindE (HnswPtrAccess mem (hc_element hc)) (\<lambda>neighborElement.
      bindE (GetUpdateIndex neighborElement p (hc_distance hc) m lm lc index support mem) (\<lambda>idx.
      if idx = -1 then Inr index
      else bindE (HnswPtrAccess mem p) (\<lambda>e.
           UpdateNeighborOnDisk neighborElement e idx m lm lc index checkExisting))))"

definition HnswUpdateNeighborsOnDisk ::
  "'v relation \<Rightarrow> 'v HnswSupport \<Rightarrow> eptr \<Rightarrow> nat \<Rightarrow> bool \<Rightarrow> 'v memory \<Rightarrow> 'v relation result" where
  "HnswUpdateNeighborsOnDisk index support p m checkExisting mem =
     bindE (HnswPtrAccess mem p) (\<lambda>e.
     foldE (\<lambda>lc index1.
       bindE (HnswGetNeighbors e lc) (\<lambda>neighbors.
       foldE (update_neighbor support p m checkExisting mem lc) (na_items neighbors) index1))
       (rev [0..<Suc (unat (he_level e))]) index)"

subsection \<open>Duplicates\<close>

definition AddDuplicateOnDisk ::
  "'v relation \<Rightarrow> 'v HnswElementData \<Rightarrow> 'v HnswElementData \<Rightarrow> (bool \<times> 'v relation) result" where
  "AddDuplicateOnDisk index element dup =
     bindE (ReadBuffer index (he_blkno dup)) (\<lambda>page.
     bindE (PageGetTuple page (he_offno dup)) (\<lambda>item.
     bindE (as_etup item) (\<lambda>etup.
     let i = length (takeWhile ItemPointerIsValid (take HNSW_HEAPTIDS (et_heaptids etup))) in
     if i = 0 \<or> i = HNSW_HEAPTIDS then Inr (False, index)
     else bindE (array_get ''heaptids'' (he_heaptids element) 0) (\<lambda>heaptid.
          bindE (array_set ''heaptids'' (et_heaptids etup) i heaptid) (\<lambda>heaptids.
          bindE (PageSetTuple page (he_offno dup) (ETup (etup\<lparr>et_heaptids := heaptids\<rparr>))) (\<lambda>page'.
          Inr (True, WriteBuffer index (he_blkno dup) page')))))))"

text \<open>\<^verbatim>\<open>datumIsEqual\<close> compares the bytes of the two values.\<close>

fun find_duplicate ::
  "'v relation \<Rightarrow> 'v HnswElementData \<Rightarrow> 'v \<Rightarrow> 'v memory \<Rightarrow> HnswCandidate list
    \<Rightarrow> (bool \<times> 'v relation) result" where
  "find_duplicate index element v mem [] = Inr (False, index)"
| "find_duplicate index element v mem (neighbor # neighbors) =
     bindE (HnswPtrAccess mem (hc_element neighbor)) (\<lambda>neighborElement.
     bindE (ofOption (BadAccess ''value'') (he_value neighborElement)) (\<lambda>neighborValue.
     if v \<noteq> neighborValue then Inr (False, index)
     else bindE (AddDuplicateOnDisk index element neighborElement) (\<lambda>(added, index1).
          if added then Inr (True, index1) else find_duplicate index1 element v mem neighbors)))"

definition FindDuplicateOnDisk ::
  "'v relation \<Rightarrow> eptr \<Rightarrow> 'v memory \<Rightarrow> (bool \<times> 'v relation) result" where
  "FindDuplicateOnDisk index p mem =
     bindE (HnswPtrAccess mem p) (\<lambda>element.
     bindE (HnswGetNeighbors element 0) (\<lambda>neighbors.
     bindE (ofOption (BadAccess ''value'') (he_value element)) (\<lambda>v.
     find_duplicate index element v mem (na_items neighbors))))"

subsection \<open>Inserting\<close>

text \<open>\<^verbatim>\<open>entryPoint == NULL || element->level > entryPoint->level\<close>\<close>

definition above_entry :: "'v memory \<Rightarrow> eptr \<Rightarrow> eptr option \<Rightarrow> bool result" where
  "above_entry mem p entryPoint =
     bindE (HnswPtrAccess mem p) (\<lambda>element.
     case entryPoint of
       None \<Rightarrow> Inr True
     | Some ep \<Rightarrow> bindE (HnswPtrAccess mem ep) (\<lambda>entry. Inr (he_level entry < he_level element)))"

definition UpdateGraphOnDisk ::
  "'v relation \<Rightarrow> 'v HnswSupport \<Rightarrow> eptr \<Rightarrow> nat \<Rightarrow> eptr option \<Rightarrow> 'v memory
    \<Rightarrow> 'v relation result option" where
  "UpdateGraphOnDisk index support p m entryPoint mem =
     bindO (Some (FindDuplicateOnDisk index p mem)) (\<lambda>(duplicate, index1).
     if duplicate then Some (Inr index1)
     else bindO (AddElementOnDisk index1 mem p m (GetInsertPage index1)) (\<lambda>(index2, mem1, newInsertPage).
          Some (bindE (case newInsertPage of
                         None \<Rightarrow> Inr index2
                       | Some blkno \<Rightarrow> HnswUpdateMetaPage index2 mem1 0 None blkno) (\<lambda>index3.
                bindE (HnswUpdateNeighborsOnDisk index3 support p m False mem1) (\<lambda>index4.
                bindE (above_entry mem1 p entryPoint) (\<lambda>above.
                if above
                then HnswUpdateMetaPage index4 mem1 HNSW_UPDATE_ENTRY_GREATER (Some p) InvalidBlockNumber
                else Inr index4))))))"

text \<open>\<open>lev\<close> is the random level, as for \<^verbatim>\<open>HnswInitElement\<close>.\<close>

definition HnswInsertTupleOnDisk ::
  "'v relation \<Rightarrow> 'v HnswSupport \<Rightarrow> 'v \<Rightarrow> ItemPointerData \<Rightarrow> int \<Rightarrow> 'v memory \<Rightarrow> 'v relation result option" where
  "HnswInsertTupleOnDisk index support v heaptid lev mem =
     bindO (Some (
       bindE (HnswGetMetaPageInfo index True mem) (\<lambda>(m, entryPoint, mem1).
       bindE (HnswInitElement mem1 heaptid m lev (HnswGetMaxLevel m)) (\<lambda>(p, mem2).
       bindE (HnswPtrAccess mem2 p) (\<lambda>element.
       let mem3 = element_store mem2 p (element\<lparr>he_value := Some v\<rparr>) in
       bindE (above_entry mem3 p entryPoint) (\<lambda>above.
       bindE (if above then HnswGetEntryPoint index mem3 else Inr (entryPoint, mem3)) (\<lambda>(entryPoint1, mem4).
       bindE (HnswFindElementNeighbors p entryPoint1 (Some index) support m (HnswGetEfConstruction index)
                False mem4) (\<lambda>mem5.
       Inr (p, m, entryPoint1, mem5))))))))) (\<lambda>(p, m, entryPoint, mem5).
     UpdateGraphOnDisk index support p m entryPoint mem5)"

definition HnswInsertTuple ::
  "'v relation \<Rightarrow> 'v \<Rightarrow> ItemPointerData \<Rightarrow> int \<Rightarrow> 'v memory \<Rightarrow> 'v relation result option" where
  "HnswInsertTuple index v heaptid lev mem =
     (let typeInfo = HnswGetTypeInfo index; support = HnswInitSupport index in
      bindO (Some (HnswFormIndexValue v typeInfo support)) (\<lambda>formed.
      case formed of
        None \<Rightarrow> Some (Inr index)
      | Some v' \<Rightarrow> HnswInsertTupleOnDisk index support v' heaptid lev mem))"

text \<open>A null value has \<open>v = None\<close>. What was allocated is freed with the memory context.\<close>

definition hnswinsert ::
  "'v relation \<Rightarrow> 'v option \<Rightarrow> ItemPointerData \<Rightarrow> int \<Rightarrow> 'v memory \<Rightarrow> (bool \<times> 'v relation) result option" where
  "hnswinsert index v heap_tid lev mem =
     (case v of
        None \<Rightarrow> Some (Inr (False, index))
      | Some v' \<Rightarrow> bindO (HnswInsertTuple index v' heap_tid lev mem) (\<lambda>index1. Some (Inr (False, index1))))"

end
