(* ===== verification/Index_Store.thy ===== *)
theory Index_Store
  imports Hnsw_Insert Hnsw_Search_Correct
begin

section \<open>The index as a map from TIDs to tuples\<close>

text \<open>
  What the pages of an index mean to the access method: \<open>stored index\<close> maps the TID of a tuple to the tuple and its length.
  Every operation on pages changes this map at one TID, and leaves the pages well-formed (\<open>blocks_ok\<close>) and
  their chain as it is. These refinement lemmas are all that the theories on inserts and vacuum use of the pages.
\<close>

definition blocks_ok :: "'v relation \<Rightarrow> bool" where
  "blocks_ok index \<longleftrightarrow>
     length (rd_blocks index) < 2 ^ 32 - 1 \<and> (\<forall>p \<in> set (rd_blocks index). page_inv p \<and> pd_special p = 8184)"

definition stored :: "'v relation \<Rightarrow> ItemPointerData \<Rightarrow> ('v hnsw_item \<times> nat) option" where
  "stored index tid =
     (let b = unat (ItemPointerGetBlockNumber tid); off = unat (ItemPointerGetOffsetNumber tid) in
      if b = 0 \<or> length (rd_blocks index) < b then None
      else let ts = page_tuples (rd_blocks index ! (b - 1)) in
           if off = 0 \<or> length ts < off then None else Some (ts ! (off - 1)))"

definition is_block :: "'v relation \<Rightarrow> BlockNumber \<Rightarrow> bool" where
  "is_block index b \<longleftrightarrow> 0 < unat b \<and> unat b \<le> length (rd_blocks index)"

definition page_of :: "'v relation \<Rightarrow> BlockNumber \<Rightarrow> 'v hnsw_page" where
  "page_of index b = rd_blocks index ! (unat b - 1)"

text \<open>The free space of the page in a block.\<close>

definition room :: "'v relation \<Rightarrow> BlockNumber \<Rightarrow> nat" where
  "room index b = pd_upper (page_of index b) - pd_lower (page_of index b)"

lemma ReadBuffer_block: "is_block index b \<Longrightarrow> ReadBuffer index b = Inr (page_of index b)"
proof -
  assume "is_block index b"
  then have "b \<noteq> HNSW_METAPAGE_BLKNO" "unat b - 1 < length (rd_blocks index)"
    by (auto simp: is_block_def HNSW_METAPAGE_BLKNO_def)
  then show ?thesis by (simp add: ReadBuffer_def page_of_def)
qed

lemma ReadBuffer_Inr_iff: "ReadBuffer index b = Inr p \<longleftrightarrow> is_block index b \<and> p = page_of index b"
proof (cases "is_block index b")
  case True
  then show ?thesis by (auto simp: ReadBuffer_block)
next
  case False
  then show ?thesis
    by (auto simp: ReadBuffer_def is_block_def HNSW_METAPAGE_BLKNO_def word_neq_0_conv unat_gt_0 split: if_splits)
qed

lemma blocks_ok_page:
  assumes "blocks_ok index" "is_block index b"
  shows "page_inv (page_of index b)" "pd_special (page_of index b) = 8184"
  using assms by (auto simp: blocks_ok_def is_block_def page_of_def)

lemma stored_tuple:
  assumes "is_block index b"
  shows "stored index (ItemPointerSet b off) =
    (if off = 0 \<or> length (pd_linp (page_of index b)) < unat off then None
     else Some (page_tuples (page_of index b) ! (unat off - 1)))"
  using assms by (auto simp: stored_def is_block_def page_of_def Let_def unat_eq_0)

lemma ReadItem_stored:
  assumes "blocks_ok index"
  shows "ReadItem index b off = Inr x \<longleftrightarrow> (\<exists>len. stored index (ItemPointerSet b off) = Some (x, len))"
proof (cases "is_block index b")
  case True
  note i = PageGetTuple_Inr_iff [OF blocks_ok_page(1) [OF assms True]]
  show ?thesis
    using True by (cases "page_tuples (page_of index b) ! (unat off - 1)")
      (auto simp: ReadItem_def ReadBuffer_block i stored_tuple)
next
  case False
  then have "stored index (ItemPointerSet b off) = None"
    by (auto simp: stored_def is_block_def Let_def)
  moreover from False have "ReadItem index b off \<noteq> Inr x"
    by (auto simp: ReadItem_def ReadBuffer_Inr_iff)
  ultimately show ?thesis by simp
qed

lemma etup_at_stored:
  assumes "blocks_ok index"
  shows "etup_at index tid = Some e \<longleftrightarrow> (\<exists>len. stored index tid = Some (ETup e, len))"
  using ReadItem_stored [OF assms, of "ItemPointerGetBlockNumber tid" "ItemPointerGetOffsetNumber tid" "ETup e"]
  by (auto simp: etup_at_def split: sum.splits hnsw_item.splits)

lemma ntup_at_stored:
  assumes "blocks_ok index"
  shows "ntup_at index tid = Some n \<longleftrightarrow> (\<exists>len. stored index tid = Some (NTup n, len))"
  using ReadItem_stored [OF assms, of "ItemPointerGetBlockNumber tid" "ItemPointerGetOffsetNumber tid" "NTup n"]
  by (auto simp: ntup_at_def split: sum.splits hnsw_item.splits)

lemma stored_block:
  assumes "stored index tid = Some x"
  shows "is_block index (ItemPointerGetBlockNumber tid)" "ItemPointerGetOffsetNumber tid \<noteq> 0" "ItemPointerIsValid tid"
proof -
  show b: "is_block index (ItemPointerGetBlockNumber tid)" "ItemPointerGetOffsetNumber tid \<noteq> 0"
    using assms by (auto simp: stored_def is_block_def Let_def split: if_splits)
  then show "ItemPointerIsValid tid"
    using ItemPointerIsValid_Set [of "ItemPointerGetBlockNumber tid" "ItemPointerGetOffsetNumber tid"]
    unfolding ItemPointerSet_Get by simp
qed

subsection \<open>Changing one page\<close>

text \<open>
  \<open>index'\<close> has the page \<open>page'\<close> in block \<open>b\<close> and is otherwise as \<open>index\<close>; \<open>same_relation\<close> is what no operation on pages changes.
\<close>

definition same_relation :: "'v relation \<Rightarrow> 'v relation \<Rightarrow> bool" where
  "same_relation a b \<longleftrightarrow> b = a\<lparr>rd_blocks := rd_blocks b\<rparr>"

lemma same_relation_refl [simp]: "same_relation a a"
  by (simp add: same_relation_def)

lemma same_relation_trans [trans]: "same_relation a b \<Longrightarrow> same_relation b c \<Longrightarrow> same_relation a c"
  by (cases a; cases b; cases c) (simp add: same_relation_def)

lemma same_relation_fields:
  assumes "same_relation a b"
  shows "rd_options b = rd_options a" "rd_distance_proc b = rd_distance_proc a" "rd_norm_proc b = rd_norm_proc a"
    "rd_varsize b = rd_varsize a" "rd_meta b = rd_meta a" "HnswInitSupport b = HnswInitSupport a"
  using assms by (cases a; cases b; simp add: same_relation_def HnswInitSupport_def)+

lemma WriteBuffer_simps [simp]:
  "rd_blocks (WriteBuffer index b page) = (rd_blocks index)[unat b - 1 := page]"
  "same_relation index (WriteBuffer index b page)"
  "rd_meta (WriteBuffer index b page) = rd_meta index"
  by (simp_all add: WriteBuffer_def same_relation_def)

lemma is_block_WriteBuffer [simp]: "is_block (WriteBuffer index b page) b' = is_block index b'"
  by (simp add: is_block_def)

lemma block_index_inj: "is_block index b \<Longrightarrow> is_block index b' \<Longrightarrow> unat b - 1 = unat b' - 1 \<longleftrightarrow> b = b'"
  by (auto simp: is_block_def word_unat_eq_iff)

lemma page_of_WriteBuffer:
  assumes "is_block index b" "is_block index b'"
  shows "page_of (WriteBuffer index b page) b' = (if b' = b then page else page_of index b')"
  using assms block_index_inj [OF assms] by (auto simp: is_block_def page_of_def nth_list_update)

lemma WriteBuffer_blocks_ok:
  assumes "blocks_ok index" "page_inv page" "pd_special page = 8184"
  shows "blocks_ok (WriteBuffer index b page)"
  using assms set_update_subset_insert [of "rd_blocks index" "unat b - 1" page] by (auto simp: blocks_ok_def)

lemma WriteBuffer_chain_ok:
  assumes "chain_ok index" "is_block index b" "pd_opaque page = pd_opaque (page_of index b)"
  shows "chain_ok (WriteBuffer index b page)"
proof -
  have "page_next (WriteBuffer index b page) i = page_next index i" if "i < length (rd_blocks index)" for i
    using assms(2,3) that by (auto simp: page_next_def page_of_def is_block_def nth_list_update)
  with assms(1) show ?thesis by (simp add: chain_ok_def)
qed

lemma room_WriteBuffer:
  assumes "is_block index b" "is_block index b'"
  shows "room (WriteBuffer index b page) b' = (if b' = b then pd_upper page - pd_lower page else room index b')"
  unfolding room_def page_of_WriteBuffer [OF assms] by simp

lemma WriteBuffer_stored:
  assumes "is_block index b" "page_tuples page = ts"
  shows "stored (WriteBuffer index b page) (ItemPointerSet b' off) =
    (if b' = b then if off = 0 \<or> length ts < unat off then None else Some (ts ! (unat off - 1))
     else stored index (ItemPointerSet b' off))"
proof (cases "is_block index b'")
  case True
  then show ?thesis
    using stored_tuple [of "WriteBuffer index b page" b' off] stored_tuple [of index b' off] assms
    unfolding page_of_WriteBuffer [OF assms(1) True] by (auto simp flip: length_page_tuples)
next
  case False
  with assms(1) have "b' \<noteq> b" by auto
  with False show ?thesis by (auto simp: stored_def is_block_def Let_def)
qed

lemma stored_ext:
  assumes "\<And>b off. stored index (ItemPointerSet b off) = f (ItemPointerSet b off)"
  shows "stored index = f"
  by (rule ext) (metis assms ItemPointerSet_Get)

text \<open>What every change of a tuple keeps.\<close>

definition keeps_pages :: "'v relation \<Rightarrow> 'v relation \<Rightarrow> bool" where
  "keeps_pages index index' \<longleftrightarrow>
     blocks_ok index' \<and> same_relation index index' \<and> length (rd_blocks index') = length (rd_blocks index) \<and>
     (chain_ok index \<longrightarrow> chain_ok index')"

lemma keeps_pages_trans: "keeps_pages a b \<Longrightarrow> keeps_pages b c \<Longrightarrow> keeps_pages a c"
  by (auto simp: keeps_pages_def intro: same_relation_trans)

lemma keeps_pages_refl: "blocks_ok a \<Longrightarrow> keeps_pages a a"
  by (simp add: keeps_pages_def)

lemma keeps_pages_block: "keeps_pages a b \<Longrightarrow> is_block b blk = is_block a blk"
  by (simp add: keeps_pages_def is_block_def)

definition tuple_count :: "'v relation \<Rightarrow> BlockNumber \<Rightarrow> nat" where
  "tuple_count index b = length (pd_linp (page_of index b))"

lemma write_page:
  assumes "blocks_ok index" "is_block index b" "page_inv page" "pd_special page = pd_special (page_of index b)"
    "pd_opaque page = pd_opaque (page_of index b)"
  shows "keeps_pages index (WriteBuffer index b page)"
  using assms blocks_ok_page [OF assms(1,2)]
  by (simp add: keeps_pages_def WriteBuffer_blocks_ok WriteBuffer_chain_ok)

lemma stored_update:
  assumes "is_block index b" "page_tuples page = (page_tuples (page_of index b))[unat off - 1 := x]"
    "stored index (ItemPointerSet b off) \<noteq> None"
  shows "stored (WriteBuffer index b page) = (stored index)(ItemPointerSet b off \<mapsto> x)"
proof (rule stored_ext)
  fix b' off'
  have "off \<noteq> 0" "unat off \<le> length (pd_linp (page_of index b))"
    using assms(3) by (auto simp: stored_tuple [OF assms(1)] split: if_splits)
  then have i: "unat off - 1 < length (pd_linp (page_of index b))" using unat_gt_0 [of off] by linarith
  show "stored (WriteBuffer index b page) (ItemPointerSet b' off') =
      ((stored index)(ItemPointerSet b off \<mapsto> x)) (ItemPointerSet b' off')"
  proof (cases "b' = b")
    case True
    have same: "(unat off' - 1 = unat off - 1) = (off' = off)" if "off' \<noteq> 0"
      using that \<open>off \<noteq> 0\<close> by (metis One_nat_def Suc_pred unat_gt_0 word_neq_0_conv word_unat_eq_iff)
    have "stored (WriteBuffer index b page) (ItemPointerSet b off') =
        (if off' = 0 \<or> length (pd_linp (page_of index b)) < unat off' then None
         else Some ((page_tuples (page_of index b))[unat off - 1 := x] ! (unat off' - 1)))"
      using WriteBuffer_stored [OF assms(1,2), of b off'] by simp
    then show ?thesis
      unfolding True fun_upd_apply stored_tuple [OF assms(1)] ItemPointerSet_inject
      using i same \<open>off \<noteq> 0\<close> \<open>unat off \<le> length (pd_linp (page_of index b))\<close>
      by (simp only: nth_list_update length_page_tuples) auto
  next
    case False
    then show ?thesis using WriteBuffer_stored [OF assms(1,2), of b' off'] by simp
  qed
qed

lemma overwrite_item_ok:
  assumes "blocks_ok index" "stored index (ItemPointerSet b off) = Some (y, len)" "0 < sz"
    "MAXALIGN sz \<le> MAXALIGN len + room index b"
  obtains index' where "overwrite_item index b off x sz = Inr index'" "keeps_pages index index'"
    "stored index' = (stored index)(ItemPointerSet b off \<mapsto> (x, sz))"
    "room index' b + MAXALIGN sz = room index b + MAXALIGN len"
    "\<forall>b'. is_block index b' \<longrightarrow> b' \<noteq> b \<longrightarrow> room index' b' = room index b'"
    "\<forall>b'. is_block index b' \<longrightarrow> tuple_count index' b' = tuple_count index b'"
proof -
  let ?p = "page_of index b" and ?i = "unat off - 1"
  have blk: "is_block index b" and off: "off \<noteq> 0" using stored_block [OF assms(2)] by simp_all
  note inv = blocks_ok_page [OF assms(1) blk]
  have len: "unat off \<le> length (pd_linp ?p)" "page_tuples ?p ! ?i = (y, len)"
    using assms(2) off by (auto simp: stored_tuple [OF blk] split: if_splits)
  have i: "?i < length (pd_linp ?p)" using len(1) off unat_gt_0 [of off] by linarith
  have ll: "lp_len (pd_linp ?p ! ?i) = len" using len(2) i by (simp add: page_tuples_def)
  have fit: "MAXALIGN sz \<le> MAXALIGN (lp_len (pd_linp ?p ! ?i)) + (pd_upper ?p - pd_lower ?p)"
    using assms(4) unfolding ll room_def .
  let ?q = "overwritten_page ?p ?i x sz"
  note q = overwritten_page_inv [OF inv(1) i assms(3) fit, where x = x] overwritten_self [OF inv(1) i fit, where x = x]
  have "PageIndexTupleOverwrite ?p off x sz = Inr (True, ?q)"
    using PageIndexTupleOverwrite_inv [OF inv(1) off len(1), of x sz] fit
    unfolding PageGetExactFreeSpace_inv [OF inv(1)] len(2) ll by simp
  then have r: "overwrite_item index b off x sz = Inr (WriteBuffer index b ?q)"
    by (simp add: overwrite_item_def ReadBuffer_block [OF blk])
  have room: "room (WriteBuffer index b ?q) b = pd_upper ?q - pd_lower ?q"
    by (simp add: room_WriteBuffer [OF blk blk])
  have "int (pd_upper ?q) = int (pd_upper ?p) + (int (MAXALIGN len) - int (MAXALIGN sz))" "pd_lower ?q = pd_lower ?p"
    using q(7,9) unfolding ll by simp_all
  moreover have "pd_lower ?p \<le> pd_upper ?p" "pd_lower ?q \<le> pd_upper ?q"
    using page_inv_order [OF inv(1)] page_inv_order [OF q(1)] by simp_all
  ultimately have "room (WriteBuffer index b ?q) b + MAXALIGN sz = room index b + MAXALIGN len"
    unfolding room unfolding room_def by linarith
  moreover have "stored (WriteBuffer index b ?q) = (stored index)(ItemPointerSet b off \<mapsto> (x, sz))"
    by (rule stored_update [OF blk q(2)]) (simp add: assms(2))
  moreover have "tuple_count (WriteBuffer index b ?q) b' = tuple_count index b'" if "is_block index b'" for b'
    using q(8) by (simp add: tuple_count_def page_of_WriteBuffer [OF blk that])
  moreover have "keeps_pages index (WriteBuffer index b ?q)"
    by (rule write_page [OF assms(1) blk q(1)]) (use q(10,11) in simp_all)
  ultimately show thesis
    using that [OF r] room_WriteBuffer [OF blk] by simp
qed

text \<open>Appending a tuple.\<close>

lemma stored_append:
  assumes "is_block index b" "page_tuples page = page_tuples (page_of index b) @ [x]"
    "tuple_count index b < 2 ^ 16 - 1"
  defines "off \<equiv> word_of_nat (Suc (tuple_count index b)) :: OffsetNumber"
  shows "stored (WriteBuffer index b page) = (stored index)(ItemPointerSet b off \<mapsto> x)"
    and "stored index (ItemPointerSet b off) = None" and "unat off = Suc (tuple_count index b)"
proof -
  let ?n = "tuple_count index b"
  show u: "unat off = Suc ?n"
    using assms(3) by (simp add: off_def unsigned_of_nat take_bit_nat_eq_self del: of_nat_Suc)
  then have off: "off \<noteq> 0" by auto
  show none: "stored index (ItemPointerSet b off) = None"
    using u by (simp add: stored_tuple [OF assms(1)] tuple_count_def)
  show "stored (WriteBuffer index b page) = (stored index)(ItemPointerSet b off \<mapsto> x)"
  proof (rule stored_ext)
    fix b' off'
    show "stored (WriteBuffer index b page) (ItemPointerSet b' off') =
        ((stored index)(ItemPointerSet b off \<mapsto> x)) (ItemPointerSet b' off')"
    proof (cases "b' = b")
      case True
      have "stored (WriteBuffer index b page) (ItemPointerSet b off') =
          (if off' = 0 \<or> Suc ?n < unat off' then None
           else Some ((page_tuples (page_of index b) @ [x]) ! (unat off' - 1)))"
        using WriteBuffer_stored [OF assms(1,2), of b off'] by (simp add: tuple_count_def)
      moreover have "stored index (ItemPointerSet b off') =
          (if off' = 0 \<or> ?n < unat off' then None else Some (page_tuples (page_of index b) ! (unat off' - 1)))"
        by (simp add: stored_tuple [OF assms(1)] tuple_count_def)
      moreover have "off' = off \<longleftrightarrow> unat off' = Suc ?n" using u by (simp add: word_unat_eq_iff)
      moreover have "off' \<noteq> 0 \<longleftrightarrow> 0 < unat off'" by (simp add: unat_gt_0)
      ultimately show ?thesis
        using off unfolding True by (auto simp: nth_append tuple_count_def)
    next
      case False
      then show ?thesis using WriteBuffer_stored [OF assms(1,2), of b' off'] by simp
    qed
  qed
qed

lemma append_item_at_ok:
  assumes "blocks_ok index" "is_block index b" "0 < sz" "MAXALIGN sz + 4 \<le> room index b"
  defines "off \<equiv> word_of_nat (Suc (tuple_count index b)) :: OffsetNumber"
  obtains index' where "append_item_at index b off x sz = Inr index'" "keeps_pages index index'"
    "stored index' = (stored index)(ItemPointerSet b off \<mapsto> (x, sz))" "stored index (ItemPointerSet b off) = None"
    "room index' b + MAXALIGN sz + 4 = room index b"
    "\<forall>b'. is_block index b' \<longrightarrow> b' \<noteq> b \<longrightarrow> room index' b' = room index b'"
    "\<forall>b'. is_block index b' \<longrightarrow> tuple_count index' b' = tuple_count index b' + (if b' = b then 1 else 0)"
proof -
  let ?p = "page_of index b"
  note inv = blocks_ok_page [OF assms(1,2)]
  have fit: "MAXALIGN sz + 4 \<le> pd_upper ?p - pd_lower ?p" using assms(4) by (simp add: room_def)
  let ?q = "added_page ?p x sz"
  note q = added_page_inv [OF inv(1) assms(3) fit, where x = x]
  have "tuple_count index b < 2047"
    using page_inv_linp_bound [OF inv(1)] by (simp add: tuple_count_def BLCKSZ_def)
  then have small: "tuple_count index b < 2 ^ 16 - 1" by simp
  have "pd_upper ?p \<le> BLCKSZ" using inv(1) by (simp add: page_inv_def page_pointers_ok_def)
  then have "MAXALIGN sz < 2 ^ 31" using fit by (simp add: BLCKSZ_def)
  then have r: "append_item_at index b off x sz = Inr (WriteBuffer index b ?q)"
    using PageAddItem_inv [OF inv(1), of sz x] fit
    by (simp add: append_item_at_def ReadBuffer_block [OF assms(2)] off_def tuple_count_def)
  have "room (WriteBuffer index b ?q) b + MAXALIGN sz + 4 = room index b"
    using fit unfolding room_WriteBuffer [OF assms(2,2)] by (simp add: room_def added_page_def)
  moreover have "keeps_pages index (WriteBuffer index b ?q)"
    by (rule write_page [OF assms(1,2) q(1)]) (simp_all add: added_page_def)
  moreover have "tuple_count (WriteBuffer index b ?q) b' = tuple_count index b' + (if b' = b then 1 else 0)"
    if "is_block index b'" for b'
    by (simp add: tuple_count_def page_of_WriteBuffer [OF assms(2) that] added_page_def)
  ultimately show thesis
    using that [OF r] stored_append [OF assms(2) q(2) small] room_WriteBuffer [OF assms(2)]
    by (simp add: off_def)
qed

text \<open>Writing through the pointer to a tuple.\<close>

lemma PageSetTuple_inv:
  assumes inv: "page_inv p" and off: "off \<noteq> 0" "unat off \<le> length (pd_linp p)"
  obtains q where "PageSetTuple p off x = Inr q" "page_inv q"
    "page_tuples q = (page_tuples p)[unat off - 1 := (x, snd (page_tuples p ! (unat off - 1)))]"
    "pd_linp q = pd_linp p" "pd_lower q = pd_lower p" "pd_upper q = pd_upper p" "pd_special q = pd_special p"
    "pd_opaque q = pd_opaque p"
proof -
  let ?i = "unat off - 1"
  let ?lp = "pd_linp p ! ?i"
  let ?q = "p\<lparr>pd_data := (pd_data p)(lp_off ?lp \<mapsto> x)\<rparr>"
  have i: "?i < length (pd_linp p)" using off unat_gt_0 [of off] by linarith
  have ok: "lp_ok p (pd_linp p ! j)" if "j < length (pd_linp p)" for j
    using inv that by (simp add: page_inv_def)
  have other: "lp_off (pd_linp p ! j) \<noteq> lp_off ?lp" if "j < length (pd_linp p)" "j \<noteq> ?i" for j
  proof -
    have "lp_disjoint (pd_linp p ! j) ?lp" using inv i that by (simp add: page_inv_def)
    moreover have "0 < MAXALIGN (lp_len (pd_linp p ! j))" "0 < MAXALIGN (lp_len ?lp)"
      using ok [OF that(1)] ok [OF i] by (simp_all add: lp_ok_def)
    ultimately show ?thesis unfolding lp_disjoint_def by linarith
  qed
  have "lp_ok ?q lp" if "lp \<in> set (pd_linp p)" for lp
    using inv that by (auto simp: page_inv_def lp_ok_def)
  then have qi: "page_inv ?q" using inv by (simp add: page_inv_def page_pointers_ok_def)
  have "page_tuples ?q = (page_tuples p)[?i := (x, snd (page_tuples p ! ?i))]"
  proof (rule nth_equalityI)
    fix j
    assume "j < length (page_tuples ?q)"
    then have "j < length (pd_linp p)" by simp
    with other [of j] i show "page_tuples ?q ! j = (page_tuples p)[?i := (x, snd (page_tuples p ! ?i))] ! j"
      by (cases "j = ?i") (simp_all add: page_tuples_def)
  qed simp
  moreover have "PageSetTuple p off x = Inr ?q"
    using off(1) i by (simp add: PageSetTuple_def PageGetItemId_def array_get_def)
  ultimately show thesis using that [of ?q] qi by simp
qed

lemma set_tuple_ok:
  assumes "blocks_ok index" "stored index (ItemPointerSet b off) = Some (y, len)"
  obtains page where "PageSetTuple (page_of index b) off x = Inr page" "keeps_pages index (WriteBuffer index b page)"
    "stored (WriteBuffer index b page) = (stored index)(ItemPointerSet b off \<mapsto> (x, len))"
    "\<forall>b'. is_block index b' \<longrightarrow> room (WriteBuffer index b page) b' = room index b'"
    "\<forall>b'. is_block index b' \<longrightarrow> tuple_count (WriteBuffer index b page) b' = tuple_count index b'"
proof -
  let ?p = "page_of index b" and ?i = "unat off - 1"
  have blk: "is_block index b" and off: "off \<noteq> 0" using stored_block [OF assms(2)] by simp_all
  note inv = blocks_ok_page [OF assms(1) blk]
  have len: "unat off \<le> length (pd_linp ?p)" "page_tuples ?p ! ?i = (y, len)"
    using assms(2) off by (auto simp: stored_tuple [OF blk] split: if_splits)
  obtain q where q: "PageSetTuple ?p off x = Inr q" "page_inv q"
    "page_tuples q = (page_tuples ?p)[?i := (x, snd (page_tuples ?p ! ?i))]"
    "pd_linp q = pd_linp ?p" "pd_lower q = pd_lower ?p" "pd_upper q = pd_upper ?p" "pd_special q = pd_special ?p"
    "pd_opaque q = pd_opaque ?p"
    by (rule PageSetTuple_inv [OF inv(1) off len(1)])
  have "stored (WriteBuffer index b q) = (stored index)(ItemPointerSet b off \<mapsto> (x, len))"
    by (rule stored_update [OF blk]) (simp_all add: q(3) len(2) [simplified] assms(2))
  moreover have "tuple_count (WriteBuffer index b q) b' = tuple_count index b'"
    "room (WriteBuffer index b q) b' = room index b'" if "is_block index b'" for b'
    using q(4-6) unfolding tuple_count_def page_of_WriteBuffer [OF blk that] room_WriteBuffer [OF blk that]
    by (simp_all add: room_def)
  ultimately show thesis
    using that [OF q(1)] write_page [OF assms(1) blk q(2,7,8)] by simp
qed

subsection \<open>New pages\<close>

text \<open>The error of a relation that has reached its maximal size.\<close>

definition cannot_extend :: pg_error where
  "cannot_extend = Elog ''cannot extend file''"

definition adds_page :: "'v relation \<Rightarrow> 'v relation \<Rightarrow> BlockNumber \<Rightarrow> bool" where
  "adds_page index index' nb \<longleftrightarrow>
     blocks_ok index' \<and> same_relation index index' \<and> length (rd_blocks index') = Suc (length (rd_blocks index)) \<and>
     unat nb = Suc (length (rd_blocks index)) \<and> stored index' = stored index \<and>
     room index' nb = 8160 \<and> tuple_count index' nb = 0 \<and>
     (\<forall>b. is_block index b \<longrightarrow> room index' b = room index b \<and> tuple_count index' b = tuple_count index b)"

lemma adds_page_block:
  "adds_page index index' nb \<Longrightarrow> is_block index' nb"
  "adds_page index index' nb \<Longrightarrow> is_block index b \<Longrightarrow> is_block index' b \<and> b \<noteq> nb"
  by (auto simp: adds_page_def is_block_def)

text \<open>Changing the link of a page.\<close>

lemma link_page:
  fixes index :: "'v relation" and nb
  assumes "blocks_ok index" "is_block index b"
  defines "index' \<equiv> WriteBuffer index b ((page_of index b)\<lparr>pd_opaque := (pd_opaque (page_of index b))\<lparr>po_nextblkno := nb\<rparr>\<rparr>)"
  shows "blocks_ok index'" "same_relation index index'" "length (rd_blocks index') = length (rd_blocks index)"
    "stored index' = stored index"
    "is_block index b' \<Longrightarrow> room index' b' = room index b' \<and> tuple_count index' b' = tuple_count index b'"
proof -
  let ?q = "(page_of index b)\<lparr>pd_opaque := (pd_opaque (page_of index b))\<lparr>po_nextblkno := nb\<rparr>\<rparr>"
  note inv = blocks_ok_page [OF assms(1,2)]
  have q: "page_inv ?q" using inv(1) by (simp add: page_inv_def page_pointers_ok_def lp_ok_def)
  have t: "page_tuples ?q = page_tuples (page_of index b)" by (simp add: page_tuples_def)
  show "blocks_ok index'" unfolding index'_def using assms(1) q inv(2) by (simp add: WriteBuffer_blocks_ok)
  show "same_relation index index'" "length (rd_blocks index') = length (rd_blocks index)"
    by (simp_all add: index'_def)
  show "stored index' = stored index"
    unfolding index'_def using WriteBuffer_stored [OF assms(2) t] stored_tuple [OF assms(2)]
    by (intro stored_ext) simp
  show "room index' b' = room index b' \<and> tuple_count index' b' = tuple_count index b'" if "is_block index b'"
    unfolding index'_def tuple_count_def page_of_WriteBuffer [OF assms(2) that] room_WriteBuffer [OF assms(2) that]
    by (simp add: room_def)
qed

lemma HnswInitPage_inv: "page_inv HnswInitPage" "pd_special HnswInitPage = 8184" "pd_linp HnswInitPage = []"
  "pd_upper HnswInitPage - pd_lower HnswInitPage = 8160" "page_tuples HnswInitPage = []"
  using page_inv_PageInit [of sizeof_HnswPageOpaqueData
      "\<lparr>po_nextblkno = InvalidBlockNumber, po_unused = 0, po_page_id = HNSW_PAGE_ID\<rparr>"]
  by (simp_all add: HnswInitPage_def PageInit_def hnsw_size_defs MAXALIGN_def)

lemma HnswNewBuffer_ok:
  assumes "blocks_ok index"
  shows "HnswNewBuffer index = Inl cannot_extend \<or>
    (\<exists>nb index'. HnswNewBuffer index = Inr (nb, index') \<and> adds_page index index' nb \<and>
       nb = word_of_nat (Suc (length (rd_blocks index))) \<and> rd_blocks index' = rd_blocks index @ [HnswInitPage])"
proof (cases "Suc (length (rd_blocks index)) < 2 ^ 32 - 1")
  case True
  let ?n = "length (rd_blocks index)"
  let ?nb = "word_of_nat (Suc ?n) :: BlockNumber"
  let ?i = "index\<lparr>rd_blocks := rd_blocks index @ [HnswInitPage]\<rparr>"
  have u: "unat ?nb = Suc ?n" by (rule block_of_nat(1) [OF True])
  have pg: "page_of ?i ?nb = HnswInitPage" unfolding page_of_def u by simp
  have old: "page_of ?i b = page_of index b" if "is_block index b" for b
    using that by (auto simp: page_of_def is_block_def nth_append)
  have "stored ?i = stored index"
  proof (rule stored_ext)
    fix b off
    show "stored ?i (ItemPointerSet b off) = stored index (ItemPointerSet b off)"
    proof (cases "unat b = Suc ?n")
      case True
      then show ?thesis by (auto simp: stored_def Let_def HnswInitPage_inv)
    next
      case False
      then show ?thesis by (auto simp: stored_def Let_def nth_append)
    qed
  qed
  moreover have "blocks_ok ?i" using assms True by (auto simp: blocks_ok_def HnswInitPage_inv)
  ultimately have "adds_page index ?i ?nb"
    using u old unfolding adds_page_def room_def tuple_count_def pg
    by (auto simp: same_relation_def HnswInitPage_inv)
  moreover have "HnswNewBuffer index = Inr (?nb, ?i)"
    using True by (simp add: HnswNewBuffer_def RelationGetNumberOfBlocks_def)
  ultimately show ?thesis by auto
next
  case False
  then show ?thesis by (simp add: HnswNewBuffer_def RelationGetNumberOfBlocks_def cannot_extend_def)
qed

lemma HnswInsertAppendPage_ok:
  assumes "blocks_ok index" "is_block index b"
  shows "HnswInsertAppendPage index b = Inl cannot_extend \<or>
    (\<exists>nb index'. HnswInsertAppendPage index b = Inr (nb, index') \<and> adds_page index index' nb \<and>
       (chain_ok index \<longrightarrow> unat b = length (rd_blocks index) \<longrightarrow> chain_ok index'))"
proof -
  from HnswNewBuffer_ok [OF assms(1)] show ?thesis
  proof (elim disjE exE conjE)
    assume "HnswNewBuffer index = Inl cannot_extend"
    then show ?thesis by (simp add: HnswInsertAppendPage_def)
  next
    fix nb index1
    assume n: "HnswNewBuffer index = Inr (nb, index1)" "adds_page index index1 nb"
      "nb = word_of_nat (Suc (length (rd_blocks index)))" "rd_blocks index1 = rd_blocks index @ [HnswInitPage]"
    let ?p = "page_of index1 b"
    let ?index' = "WriteBuffer index1 b (?p\<lparr>pd_opaque := (pd_opaque ?p)\<lparr>po_nextblkno := nb\<rparr>\<rparr>)"
    have b: "is_block index1 b" "b \<noteq> nb" using adds_page_block(2) [OF n(2) assms(2)] by simp_all
    have ok: "blocks_ok index1" using n(2) by (simp add: adds_page_def)
    note l = link_page [OF ok b(1), where nb = nb]
    have "adds_page index ?index' nb"
      using l n(2) adds_page_block [OF n(2)] unfolding adds_page_def
      by (auto intro: same_relation_trans)
    moreover have "chain_ok ?index'" if c: "chain_ok index" "unat b = length (rd_blocks index)"
    proof -
      let ?n = "length (rd_blocks index)"
      have "page_next ?index' i = (if Suc i < Suc ?n then word_of_nat (i + 2) else InvalidBlockNumber)"
        if "i < Suc ?n" for i
      proof -
        consider "i = ?n" | "i = ?n - 1" "i < ?n" | "i < ?n - 1" using \<open>i < Suc ?n\<close> by linarith
        then show ?thesis
        proof cases
          case 1
          have "?n - 1 \<noteq> ?n" using assms(2) by (auto simp: is_block_def)
          with 1 show ?thesis
            using c assms(2) by (simp add: page_next_def n(4) nth_list_update is_block_def HnswInitPage_def PageInit_def)
        next
          case 2
          then have "i + 2 = Suc ?n" by linarith
          with 2 show ?thesis
            using c by (simp add: page_next_def n(3,4) nth_list_update del: of_nat_Suc)
        next
          case 3
          then have "page_next ?index' i = page_next index i"
            using c by (auto simp: page_next_def n(4) nth_list_update nth_append)
          also have "\<dots> = word_of_nat (i + 2)"
          proof -
            have "i < ?n" "Suc i < ?n" using 3 by linarith+
            with c(1) show ?thesis unfolding chain_ok_def by metis
          qed
          finally show ?thesis using \<open>i < ?n - 1\<close> by auto
        qed
      qed
      then show ?thesis using ok c(1) by (simp add: chain_ok_def n(4) blocks_ok_def)
    qed
    moreover have "HnswInsertAppendPage index b = Inr (nb, ?index')"
      using n(1) by (simp add: HnswInsertAppendPage_def ReadBuffer_block [OF b(1)])
    ultimately show ?thesis by blast
  qed
qed

end
