(* ===== verification/Hnsw_Graph.thy ===== *)
theory Hnsw_Graph
  imports Index_Store
begin

section \<open>Well-formed graphs\<close>

text \<open>
  The invariant of an index between operations, over the map from TIDs to tuples: every element tuple has its own neighbor
  tuple of the same version with a slot for each connection, a live element has a value, and
  connections lead to live elements. The lemmas say which changes of the map keep the invariant: a new element in free or
  reclaimed places, a change of connections or of heap TIDs, and the deletion of an element without references.
\<close>

type_synonym 'v store = "ItemPointerData \<rightharpoonup> 'v hnsw_item \<times> nat"

definition live_in :: "'v store \<Rightarrow> ItemPointerData \<Rightarrow> 'v HnswElementTupleData \<Rightarrow> bool" where
  "live_in \<sigma> tid e \<longleftrightarrow> (\<exists>len. \<sigma> tid = Some (ETup e, len)) \<and> et_deleted e = 0"

text \<open>A neighbor tuple that fits an element.\<close>

definition connects :: "nat \<Rightarrow> 'v store \<Rightarrow> 'v HnswElementTupleData \<Rightarrow> HnswNeighborTupleData \<Rightarrow> bool" where
  "connects m \<sigma> e n \<longleftrightarrow>
     nt_type n = HNSW_NEIGHBOR_TUPLE_TYPE \<and> nt_version n = et_version e \<and>
     unat (nt_count n) = (unat (et_level e) + 2) * m \<and> length (nt_indextids n) = (unat (et_level e) + 2) * m \<and>
     (\<forall>t \<in> set (nt_indextids n). ItemPointerIsValid t \<longrightarrow> (\<exists>e'. live_in \<sigma> t e'))"

definition element_ok :: "nat \<Rightarrow> 'v HnswElementTupleData \<Rightarrow> bool" where
  "element_ok m e \<longleftrightarrow>
     et_type e = HNSW_ELEMENT_TUPLE_TYPE \<and> length (et_heaptids e) = HNSW_HEAPTIDS \<and>
     (\<forall>t \<in> set (dropWhile ItemPointerIsValid (et_heaptids e)). \<not> ItemPointerIsValid t) \<and>
     unat (et_level e) \<le> HnswGetMaxLevel m \<and> 1 \<le> et_version e \<and> et_version e \<le> 15 \<and>
     (et_deleted e = 0 \<longrightarrow> et_data e \<noteq> None) \<and>
     (et_deleted e \<noteq> 0 \<longrightarrow> takeWhile ItemPointerIsValid (et_heaptids e) = [])"

definition store_ok :: "nat \<Rightarrow> 'v store \<Rightarrow> bool" where
  "store_ok m \<sigma> \<longleftrightarrow>
     (\<forall>tid e len. \<sigma> tid = Some (ETup e, len) \<longrightarrow>
        element_ok m e \<and>
        (\<exists>n. \<sigma> (et_neighbortid e) = Some (NTup n, HNSW_NEIGHBOR_TUPLE_SIZE (unat (et_level e)) m) \<and>
             connects m \<sigma> e n)) \<and>
     (\<forall>tid n len. \<sigma> tid = Some (NTup n, len) \<longrightarrow> nt_type n = HNSW_NEIGHBOR_TUPLE_TYPE) \<and>
     (\<forall>t1 t2 e1 e2 l1 l2. \<sigma> t1 = Some (ETup e1, l1) \<longrightarrow> \<sigma> t2 = Some (ETup e2, l2) \<longrightarrow>
        et_neighbortid e1 = et_neighbortid e2 \<longrightarrow> t1 = t2)"

lemma store_okD:
  assumes "store_ok m \<sigma>" "\<sigma> tid = Some (ETup e, len)"
  obtains n where "element_ok m e" "connects m \<sigma> e n"
    "\<sigma> (et_neighbortid e) = Some (NTup n, HNSW_NEIGHBOR_TUPLE_SIZE (unat (et_level e)) m)"
proof -
  from assms have "element_ok m e \<and> (\<exists>n. \<sigma> (et_neighbortid e) =
      Some (NTup n, HNSW_NEIGHBOR_TUPLE_SIZE (unat (et_level e)) m) \<and> connects m \<sigma> e n)"
    unfolding store_ok_def by blast
  with that show thesis by blast
qed

lemma store_ok_elem: "store_ok m \<sigma> \<Longrightarrow> \<sigma> tid = Some (ETup e, len) \<Longrightarrow> element_ok m e"
  unfolding store_ok_def by blast

lemma store_ok_conn:
  "store_ok m \<sigma> \<Longrightarrow> \<sigma> tid = Some (ETup e, len) \<Longrightarrow>
     \<exists>n. \<sigma> (et_neighbortid e) = Some (NTup n, HNSW_NEIGHBOR_TUPLE_SIZE (unat (et_level e)) m) \<and> connects m \<sigma> e n"
  unfolding store_ok_def by blast

lemma store_ok_inj:
  "store_ok m \<sigma> \<Longrightarrow> \<sigma> t1 = Some (ETup e1, l1) \<Longrightarrow> \<sigma> t2 = Some (ETup e2, l2) \<Longrightarrow>
     et_neighbortid e1 = et_neighbortid e2 \<Longrightarrow> t1 = t2"
  unfolding store_ok_def by blast

lemma store_ok_ntup:
  "store_ok m \<sigma> \<Longrightarrow> \<sigma> tid = Some (NTup n, len) \<Longrightarrow> nt_type n = HNSW_NEIGHBOR_TUPLE_TYPE"
  unfolding store_ok_def by blast

lemma store_okI:
  assumes "\<And>tid e len. \<sigma> tid = Some (ETup e, len) \<Longrightarrow>
      element_ok m e \<and> (\<exists>n. \<sigma> (et_neighbortid e) =
        Some (NTup n, HNSW_NEIGHBOR_TUPLE_SIZE (unat (et_level e)) m) \<and> connects m \<sigma> e n)"
    and "\<And>tid n len. \<sigma> tid = Some (NTup n, len) \<Longrightarrow> nt_type n = HNSW_NEIGHBOR_TUPLE_TYPE"
    and "\<And>t1 t2 e1 e2 l1 l2. \<sigma> t1 = Some (ETup e1, l1) \<Longrightarrow> \<sigma> t2 = Some (ETup e2, l2) \<Longrightarrow>
      et_neighbortid e1 = et_neighbortid e2 \<Longrightarrow> t1 = t2"
  shows "store_ok m \<sigma>"
  unfolding store_ok_def using assms by blast

lemma connects_mono:
  assumes "connects m \<sigma> e n" "\<And>t e'. live_in \<sigma> t e' \<Longrightarrow> \<exists>e''. live_in \<sigma>' t e''"
  shows "connects m \<sigma>' e n"
  using assms unfolding connects_def by blast

lemma connects_cong:
  "et_version e' = et_version e \<Longrightarrow> et_level e' = et_level e \<Longrightarrow> connects m \<sigma> e' n = connects m \<sigma> e n"
  by (simp add: connects_def)

subsection \<open>Changes that keep the graph well-formed\<close>

text \<open>A change of the tuple of an element that keeps its identity: heap TIDs.\<close>

lemma store_ok_element:
  assumes ok: "store_ok m \<sigma>" and old: "\<sigma> tid = Some (ETup e, l)"
    and new: "element_ok m e'" "et_version e' = et_version e" "et_level e' = et_level e"
      "et_neighbortid e' = et_neighbortid e" "et_deleted e' = et_deleted e"
  shows "store_ok m (\<sigma>(tid \<mapsto> (ETup e', l)))"
proof -
  let ?\<sigma> = "\<sigma>(tid \<mapsto> (ETup e', l))"
  have live: "\<exists>x. live_in ?\<sigma> t x" if "live_in \<sigma> t x" for t x
    using that old new(5) by (cases "t = tid") (auto simp: live_in_def)
  have was: "\<exists>e1. \<sigma> t = Some (ETup e1, len) \<and> et_version x = et_version e1 \<and> et_level x = et_level e1 \<and>
      et_neighbortid x = et_neighbortid e1 \<and> element_ok m x" if "?\<sigma> t = Some (ETup x, len)" for t x len
    using that old new store_ok_elem [OF ok, of t x len] by (cases "t = tid") auto
  have nt: "\<sigma> t = Some (NTup n, len)" if "?\<sigma> t = Some (NTup n, len)" for t n len
    using that by (auto split: if_splits)
  show ?thesis
  proof (rule store_okI)
    fix t x len
    assume "?\<sigma> t = Some (ETup x, len)"
    from was [OF this] obtain e1 where e1: "\<sigma> t = Some (ETup e1, len)" "et_version x = et_version e1"
      "et_level x = et_level e1" "et_neighbortid x = et_neighbortid e1" "element_ok m x" by blast
    from store_okD [OF ok e1(1)] obtain n where n: "connects m \<sigma> e1 n"
      "\<sigma> (et_neighbortid e1) = Some (NTup n, HNSW_NEIGHBOR_TUPLE_SIZE (unat (et_level e1)) m)" by blast
    moreover have "et_neighbortid e1 \<noteq> tid" using n(2) old by auto
    ultimately show "element_ok m x \<and> (\<exists>n. ?\<sigma> (et_neighbortid x) =
        Some (NTup n, HNSW_NEIGHBOR_TUPLE_SIZE (unat (et_level x)) m) \<and> connects m ?\<sigma> x n)"
      using e1(2-5) connects_mono [OF n(1) live] connects_cong [OF e1(2,3)] by auto
  next
    fix t n len
    assume "?\<sigma> t = Some (NTup n, len)"
    then show "nt_type n = HNSW_NEIGHBOR_TUPLE_TYPE" using nt store_ok_ntup [OF ok] by blast
  next
    fix t1 t2 e1 e2 l1 l2
    assume "?\<sigma> t1 = Some (ETup e1, l1)" "?\<sigma> t2 = Some (ETup e2, l2)" "et_neighbortid e1 = et_neighbortid e2"
    then show "t1 = t2" using was [of t1] was [of t2] store_ok_inj [OF ok] by metis
  qed
qed

text \<open>New connections of one element.\<close>

lemma store_ok_neighbors:
  assumes ok: "store_ok m \<sigma>" and e: "\<sigma> tid = Some (ETup e, l)" and n: "connects m \<sigma> e n"
  shows "store_ok m (\<sigma>(et_neighbortid e \<mapsto> (NTup n, HNSW_NEIGHBOR_TUPLE_SIZE (unat (et_level e)) m)))"
    (is "store_ok m ?\<sigma>")
proof -
  from store_okD [OF ok e] obtain n0 where n0:
    "\<sigma> (et_neighbortid e) = Some (NTup n0, HNSW_NEIGHBOR_TUPLE_SIZE (unat (et_level e)) m)" by blast
  have et: "?\<sigma> t = Some (ETup x, len) \<longleftrightarrow> \<sigma> t = Some (ETup x, len)" for t x len
    using n0 by auto
  have live: "live_in ?\<sigma> t x \<longleftrightarrow> live_in \<sigma> t x" for t x
    using et by (simp add: live_in_def)
  have con: "connects m ?\<sigma> x k \<longleftrightarrow> connects m \<sigma> x k" for x k
    using live by (simp add: connects_def)
  show ?thesis
  proof (rule store_okI)
    fix t x len
    assume "?\<sigma> t = Some (ETup x, len)"
    then have x: "\<sigma> t = Some (ETup x, len)" using et by simp
    show "element_ok m x \<and> (\<exists>n. ?\<sigma> (et_neighbortid x) =
        Some (NTup n, HNSW_NEIGHBOR_TUPLE_SIZE (unat (et_level x)) m) \<and> connects m ?\<sigma> x n)"
    proof (cases "et_neighbortid x = et_neighbortid e")
      case True
      then have "x = e" using store_ok_inj [OF ok x e] x e by simp
      then show ?thesis using store_ok_elem [OF ok e] n con by auto
    next
      case False
      then show ?thesis using store_ok_elem [OF ok x] store_ok_conn [OF ok x] con by (metis fun_upd_other)
    qed
  next
    fix t k len
    assume "?\<sigma> t = Some (NTup k, len)"
    then show "nt_type k = HNSW_NEIGHBOR_TUPLE_TYPE"
      using store_ok_ntup [OF ok] n by (auto simp: connects_def split: if_splits)
  next
    fix t1 t2 e1 e2 l1 l2
    assume "?\<sigma> t1 = Some (ETup e1, l1)" "?\<sigma> t2 = Some (ETup e2, l2)" "et_neighbortid e1 = et_neighbortid e2"
    then show "t1 = t2" using store_ok_inj [OF ok] et by metis
  qed
qed

text \<open>
  A new element with its neighbor tuple, in two free places or in the places of a deleted element.
\<close>

definition free_places :: "'v store \<Rightarrow> ItemPointerData \<Rightarrow> ItemPointerData \<Rightarrow> bool" where
  "free_places \<sigma> tid ntid \<longleftrightarrow>
     tid \<noteq> ntid \<and>
     (\<sigma> tid = None \<and> \<sigma> ntid = None \<or>
      (\<exists>e l. \<sigma> tid = Some (ETup e, l) \<and> et_deleted e \<noteq> 0 \<and> et_neighbortid e = ntid))"

lemma store_ok_add:
  assumes ok: "store_ok m \<sigma>" and free: "free_places \<sigma> tid ntid"
    and e: "element_ok m e" "et_neighbortid e = ntid" "et_deleted e = 0" and n: "connects m \<sigma> e n"
  shows "store_ok m (\<sigma>(tid \<mapsto> (ETup e, l), ntid \<mapsto> (NTup n, HNSW_NEIGHBOR_TUPLE_SIZE (unat (et_level e)) m)))"
    (is "store_ok m ?\<sigma>")
proof -
  have ne: "tid \<noteq> ntid" using free by (simp add: free_places_def)
  have free_n: "\<sigma> ntid = None \<or> (\<exists>k len. \<sigma> ntid = Some (NTup k, len))"
    using free store_ok_conn [OF ok, of tid] unfolding free_places_def by metis
  have old: "\<sigma> t = Some (ETup x, len) \<and> et_neighbortid x \<noteq> ntid \<and> et_neighbortid x \<noteq> tid"
    if "?\<sigma> t = Some (ETup x, len)" "t \<noteq> tid" for t x len
  proof -
    have x: "\<sigma> t = Some (ETup x, len)" using that by (auto split: if_splits)
    obtain k where k: "\<sigma> (et_neighbortid x) = Some (NTup k, HNSW_NEIGHBOR_TUPLE_SIZE (unat (et_level x)) m)"
      using store_ok_conn [OF ok x] by blast
    have "et_neighbortid x \<noteq> ntid"
    proof
      assume eq: "et_neighbortid x = ntid"
      with k have "\<sigma> ntid \<noteq> None" by simp
      with free obtain e0 l0 where "\<sigma> tid = Some (ETup e0, l0)" "et_neighbortid e0 = ntid"
        unfolding free_places_def by blast
      with store_ok_inj [OF ok x] eq that(2) show False by metis
    qed
    moreover have "et_neighbortid x \<noteq> tid" using k free by (auto simp: free_places_def)
    ultimately show ?thesis using x by simp
  qed
  have live: "\<exists>y. live_in ?\<sigma> t y" if "live_in \<sigma> t x" for t x
    using that free free_n e(3) ne unfolding live_in_def free_places_def by (cases "t = tid"; cases "t = ntid") auto
  show ?thesis
  proof (rule store_okI)
    fix t x len
    assume a: "?\<sigma> t = Some (ETup x, len)"
    show "element_ok m x \<and> (\<exists>n. ?\<sigma> (et_neighbortid x) =
        Some (NTup n, HNSW_NEIGHBOR_TUPLE_SIZE (unat (et_level x)) m) \<and> connects m ?\<sigma> x n)"
    proof (cases "t = tid")
      case True
      then have "x = e" using a ne by simp
      then show ?thesis using e connects_mono [OF n live] by auto
    next
      case False
      note o = old [OF a False]
      from store_okD [OF ok conjunct1 [OF o]] obtain k where "element_ok m x" "connects m \<sigma> x k"
        "\<sigma> (et_neighbortid x) = Some (NTup k, HNSW_NEIGHBOR_TUPLE_SIZE (unat (et_level x)) m)" by blast
      then show ?thesis using o connects_mono [OF _ live] by auto
    qed
  next
    fix t k len
    assume "?\<sigma> t = Some (NTup k, len)"
    then show "nt_type k = HNSW_NEIGHBOR_TUPLE_TYPE"
      using store_ok_ntup [OF ok] n by (auto simp: connects_def split: if_splits)
  next
    fix t1 t2 e1 e2 l1 l2
    assume a: "?\<sigma> t1 = Some (ETup e1, l1)" "?\<sigma> t2 = Some (ETup e2, l2)" "et_neighbortid e1 = et_neighbortid e2"
    have self: "et_neighbortid x = ntid" if "?\<sigma> tid = Some (ETup x, len)" for x len
      using that ne e(2) by auto
    show "t1 = t2"
      using a old [OF a(1)] old [OF a(2)] self store_ok_inj [OF ok] by (cases "t1 = tid"; cases "t2 = tid") metis+
  qed
qed

text \<open>An element to which no element refers can be deleted.\<close>

lemma store_ok_delete:
  assumes ok: "store_ok m \<sigma>" and old: "\<sigma> tid = Some (ETup e, l)"
    and unref: "\<And>t x len n len'. \<sigma> t = Some (ETup x, len) \<Longrightarrow> t \<noteq> tid \<Longrightarrow>
      \<sigma> (et_neighbortid x) = Some (NTup n, len') \<Longrightarrow> tid \<notin> set (nt_indextids n)"
    and new: "element_ok m e'" "et_level e' = et_level e" "et_neighbortid e' = et_neighbortid e"
    and n: "connects m \<sigma> e' n" "\<forall>t \<in> set (nt_indextids n). \<not> ItemPointerIsValid t"
  shows "store_ok m (\<sigma>(tid \<mapsto> (ETup e', l),
    et_neighbortid e \<mapsto> (NTup n, HNSW_NEIGHBOR_TUPLE_SIZE (unat (et_level e)) m)))" (is "store_ok m ?\<sigma>")
proof -
  let ?ntid = "et_neighbortid e"
  obtain n0 where n0: "\<sigma> ?ntid = Some (NTup n0, HNSW_NEIGHBOR_TUPLE_SIZE (unat (et_level e)) m)"
    using store_ok_conn [OF ok old] by blast
  have ne: "tid \<noteq> ?ntid" using n0 old by auto
  have was: "\<sigma> t = Some (ETup x, len)" if "?\<sigma> t = Some (ETup x, len)" "t \<noteq> tid" for t x len
    using that by (auto split: if_splits)
  have live: "live_in ?\<sigma> t x" if "live_in \<sigma> t x" "t \<noteq> tid" for t x
    using that n0 unfolding live_in_def by (cases "t = ?ntid") auto
  show ?thesis
  proof (rule store_okI)
    fix t x len
    assume a: "?\<sigma> t = Some (ETup x, len)"
    show "element_ok m x \<and> (\<exists>n. ?\<sigma> (et_neighbortid x) =
        Some (NTup n, HNSW_NEIGHBOR_TUPLE_SIZE (unat (et_level x)) m) \<and> connects m ?\<sigma> x n)"
    proof (cases "t = tid")
      case True
      then have "x = e'" using a ne by simp
      moreover have "connects m ?\<sigma> e' n" using n unfolding connects_def by blast
      ultimately show ?thesis using new by simp
    next
      case False
      note x = was [OF a False]
      obtain k where k: "element_ok m x" "connects m \<sigma> x k"
        "\<sigma> (et_neighbortid x) = Some (NTup k, HNSW_NEIGHBOR_TUPLE_SIZE (unat (et_level x)) m)"
        using store_ok_elem [OF ok x] store_ok_conn [OF ok x] by blast
      have "et_neighbortid x \<noteq> ?ntid" using store_ok_inj [OF ok x old] False by blast
      moreover have "et_neighbortid x \<noteq> tid" using k(3) old by auto
      moreover have "connects m ?\<sigma> x k"
        using k(2) live unref [OF x False k(3)] unfolding connects_def by metis
      ultimately show ?thesis using k by auto
    qed
  next
    fix t k len
    assume "?\<sigma> t = Some (NTup k, len)"
    then show "nt_type k = HNSW_NEIGHBOR_TUPLE_TYPE"
      using store_ok_ntup [OF ok] n(1) by (auto simp: connects_def split: if_splits)
  next
    fix t1 t2 e1 e2 l1 l2
    assume a: "?\<sigma> t1 = Some (ETup e1, l1)" "?\<sigma> t2 = Some (ETup e2, l2)" "et_neighbortid e1 = et_neighbortid e2"
    have "\<exists>x1 m1. \<sigma> t = Some (ETup x1, m1) \<and> et_neighbortid x1 = et_neighbortid x" if "?\<sigma> t = Some (ETup x, len)" for t x len
      using that was [OF that] old new(3) ne by (cases "t = tid") auto
    from this [OF a(1)] this [OF a(2)] a(3) show "t1 = t2" using store_ok_inj [OF ok] by metis
  qed
qed

subsection \<open>Indexes\<close>

text \<open>The metapage: the graph parameter, a page to insert into, and a live entry point unless the graph is empty.\<close>

definition meta_ok :: "'v relation \<Rightarrow> bool" where
  "meta_ok index \<longleftrightarrow>
     (let metap = rd_meta index in
      mp_magicNumber metap = HNSW_MAGIC_NUMBER \<and> HNSW_MIN_M \<le> unat (mp_m metap) \<and> unat (mp_m metap) \<le> HNSW_MAX_M \<and>
      is_block index (mp_insertPage metap) \<and>
      (if BlockNumberIsValid (mp_entryBlkno metap)
       then \<exists>e. live_in (stored index) (ItemPointerSet (mp_entryBlkno metap) (mp_entryOffno metap)) e \<and>
              mp_entryLevel metap = uint (et_level e)
       else mp_entryLevel metap = -1))"

definition graph_ok :: "'v relation \<Rightarrow> bool" where
  "graph_ok index \<longleftrightarrow>
     blocks_ok index \<and> chain_ok index \<and> store_ok (unat (mp_m (rd_meta index))) (stored index) \<and> meta_ok index"

lemma live_at_stored: "blocks_ok index \<Longrightarrow> live_at index tid e \<longleftrightarrow> live_in (stored index) tid e"
  by (simp add: live_at_def live_in_def etup_at_stored)

text \<open>
  What an index means to its users: the heap TIDs with the values stored for them. All operations are specified by
  their effect on this set.
\<close>

definition entries :: "'v relation \<Rightarrow> (ItemPointerData \<times> 'v) set" where
  "entries index =
     {(h, v). \<exists>t e. live_in (stored index) t e \<and> h \<in> set (takeWhile ItemPointerIsValid (et_heaptids e)) \<and> et_data e = Some v}"

text \<open>Such an index satisfies what the searches rely on.\<close>

lemma graph_ok_index_ok:
  assumes "graph_ok index"
  shows "index_ok index (unat (mp_m (rd_meta index)))"
proof -
  have ok: "blocks_ok index" "store_ok (unat (mp_m (rd_meta index))) (stored index)"
    using assms by (simp_all add: graph_ok_def)
  show ?thesis
    unfolding index_ok_def
  proof (intro allI impI)
    fix tid e
    assume "live_at index tid e"
    then obtain len where e: "stored index tid = Some (ETup e, len)" "et_deleted e = 0"
      using ok(1) by (auto simp: live_at_stored live_in_def)
    from store_okD [OF ok(2) e(1)] obtain n where n: "element_ok (unat (mp_m (rd_meta index))) e"
      "connects (unat (mp_m (rd_meta index))) (stored index) e n"
      "stored index (et_neighbortid e) =
        Some (NTup n, HNSW_NEIGHBOR_TUPLE_SIZE (unat (et_level e)) (unat (mp_m (rd_meta index))))" by blast
    have "ntup_at index (et_neighbortid e) = Some n" using n(3) ok(1) by (auto simp: ntup_at_stored)
    moreover have "ntup_ok index (unat (mp_m (rd_meta index))) e n"
      using n(2) ok(1) by (simp add: ntup_ok_def connects_def live_at_stored)
    ultimately show "length (et_heaptids e) = HNSW_HEAPTIDS \<and> et_data e \<noteq> None \<and>
        (\<exists>ntup. ntup_at index (et_neighbortid e) = Some ntup \<and> ntup_ok index (unat (mp_m (rd_meta index))) e ntup)"
      using n(1) e(2) by (auto simp: element_ok_def)
  qed
qed

end
