(* ===== verification/Example_Graph.thy ===== *)
theory Example_Graph
  imports Example_Index Hnsw_Graph
begin

section \<open>The small index is well-formed\<close>

text \<open>The index of \<^verbatim>\<open>Example_Index\<close> satisfies the invariant of all updates; its entries. Witnesses on inserts and vacuum start from it.\<close>

lemma ex_tid_eq: "tid = ex_tid off \<longleftrightarrow> ItemPointerGetBlockNumber tid = 1 \<and> ItemPointerGetOffsetNumber tid = off"
  by (metis ItemPointerSet_Get ItemPointerSet_fields ex_tid_def)

lemma ex_stored:
  "stored ex_index tid =
     (if tid = ex_tid 1 then Some (ETup (ex_etup 1 10 2), 80) else if tid = ex_tid 2 then Some (NTup (ex_ntup 3), 32)
      else if tid = ex_tid 3 then Some (ETup (ex_etup 2 20 4), 80) else if tid = ex_tid 4 then Some (NTup (ex_ntup 1), 32)
      else None)"
proof -
  define b off where "b = ItemPointerGetBlockNumber tid" and "off = ItemPointerGetOffsetNumber tid"
  have b: "(unat b = 0 \<or> 1 < unat b) \<longleftrightarrow> b \<noteq> 1" "b = 1 \<Longrightarrow> unat b - 1 = 0"
    by (auto simp: word_unat_eq_iff)
  have o: "(unat off = 0) = (off = 0)" "(unat off = 1) = (off = 1)" "(unat off = 2) = (off = 2)"
    "(unat off = 3) = (off = 3)" "(unat off = 4) = (off = 4)" by (simp_all add: word_unat_eq_iff)
  have bl: "rd_blocks ex_index = [ex_page]" by (simp add: ex_index_def)
  show ?thesis
  proof (cases "b = 1")
    case False
    then show ?thesis using b(1) unfolding stored_def ex_tid_eq b_def [symmetric] off_def [symmetric] Let_def bl by simp
  next
    case True
    consider "unat off \<in> {0, 1, 2, 3, 4}" | "unat off > 4" by fastforce
    then show ?thesis
      using o True unfolding stored_def ex_tid_eq b_def [symmetric] off_def [symmetric] Let_def bl
      by cases (auto simp: ex_page_tuples)
  qed
qed

lemma ex_blocks_ok: "blocks_ok ex_index"
  using ex_page_inv by (simp add: blocks_ok_def ex_index_def) (simp add: ex_page_def)

lemma ex_chain_ok: "chain_ok ex_index"
  by (simp add: chain_ok_def page_next_def ex_index_def ex_page_def)

lemma ex_live_in:
  "live_in (stored ex_index) tid e \<longleftrightarrow> tid = ex_tid 1 \<and> e = ex_etup 1 10 2 \<or> tid = ex_tid 3 \<and> e = ex_etup 2 20 4"
  using ex_live_at live_at_stored [OF ex_blocks_ok] by blast

lemma ex_m: "unat (mp_m (rd_meta ex_index)) = 2"
  by (simp add: ex_index_def)

lemma ex_element_ok: "element_ok 2 (ex_etup 1 10 2)" "element_ok 2 (ex_etup 2 20 4)"
  by (simp_all add: element_ok_def ex_etup_def HNSW_ELEMENT_TUPLE_TYPE_def HNSW_HEAPTIDS_def)

lemma ex_connects: "connects 2 (stored ex_index) (ex_etup 1 10 2) (ex_ntup 3)" "connects 2 (stored ex_index) (ex_etup 2 20 4) (ex_ntup 1)"
  by (auto simp: connects_def ex_ntup_def ex_etup_def ex_live_in HNSW_NEIGHBOR_TUPLE_TYPE_def)

lemma ex_store_ok: "store_ok 2 (stored ex_index)"
proof (rule store_okI)
  fix tid e len
  assume "stored ex_index tid = Some (ETup e, len)"
  then consider "e = ex_etup 1 10 2" | "e = ex_etup 2 20 4" by (auto simp: ex_stored split: if_splits)
  then show "element_ok 2 e \<and> (\<exists>n. stored ex_index (et_neighbortid e) =
      Some (NTup n, HNSW_NEIGHBOR_TUPLE_SIZE (unat (et_level e)) 2) \<and> connects 2 (stored ex_index) e n)"
  proof cases
    case 1
    moreover have "stored ex_index (et_neighbortid (ex_etup 1 10 2)) = Some (NTup (ex_ntup 3), HNSW_NEIGHBOR_TUPLE_SIZE 0 2)"
      by (simp add: ex_stored ex_etup_def ex_tid_def HNSW_NEIGHBOR_TUPLE_SIZE_def hnsw_size_defs MAXALIGN_def)
    ultimately show ?thesis using ex_element_ok ex_connects by (auto simp: ex_etup_def)
  next
    case 2
    moreover have "stored ex_index (et_neighbortid (ex_etup 2 20 4)) = Some (NTup (ex_ntup 1), HNSW_NEIGHBOR_TUPLE_SIZE 0 2)"
      by (simp add: ex_stored ex_etup_def ex_tid_def HNSW_NEIGHBOR_TUPLE_SIZE_def hnsw_size_defs MAXALIGN_def)
    ultimately show ?thesis using ex_element_ok ex_connects by (auto simp: ex_etup_def)
  qed
qed (auto simp: ex_stored ex_ntup_def ex_etup_def ex_tid_def HNSW_NEIGHBOR_TUPLE_TYPE_def split: if_splits)

lemma ex_graph_ok: "graph_ok ex_index"
proof -
  have "meta_ok ex_index"
  proof -
    have "live_in (stored ex_index) (ItemPointerSet 1 1) (ex_etup 1 10 2)" by (simp add: ex_live_in ex_tid_def)
    moreover have "et_level (ex_etup 1 10 2) = 0" by (simp add: ex_etup_def)
    ultimately show ?thesis
      unfolding meta_ok_def Let_def by (auto simp: ex_index_def is_block_def HNSW_MIN_M_def HNSW_MAX_M_def BlockNumberIsValid_def InvalidBlockNumber_def)
  qed
  then show ?thesis using ex_blocks_ok ex_chain_ok ex_store_ok by (simp add: graph_ok_def ex_m del: One_nat_def)
qed

lemma ex_entries: "entries ex_index = {(ItemPointerSet 0 1, 10), (ItemPointerSet 0 2, 20)}"
proof -
  have e: "set (takeWhile ItemPointerIsValid (et_heaptids (ex_etup h v n))) = {ItemPointerSet 0 h}"
    "et_data (ex_etup h v n) = Some v" if "h \<noteq> 0" for h v n
    using that by (simp_all add: ex_etup_def)
  have "entries ex_index = {(h, v). h \<in> set (takeWhile ItemPointerIsValid (et_heaptids (ex_etup 1 10 2))) \<and>
      et_data (ex_etup 1 10 2) = Some v} \<union>
    {(h, v). h \<in> set (takeWhile ItemPointerIsValid (et_heaptids (ex_etup 2 20 4))) \<and> et_data (ex_etup 2 20 4) = Some v}"
    unfolding entries_def ex_live_in by blast
  then show ?thesis by (auto simp: e)
qed

lemma ex_memory_ok: "mem_ok ex_memory"
proof -
  have "mem_elems ex_memory = Map.empty" by (simp add: ex_memory_def)
  then show ?thesis using ex_mem1_ok by (simp add: mem_ok_def ex_mem1_def)
qed

end
