(* ===== verification/Hnsw_Scan_Correct.thy ===== *)
theory Hnsw_Scan_Correct
  imports Hnsw_Scan
begin

section \<open>Correctness of index scans\<close>

text \<open>
  What a scan hands out. The search keeps track of every candidate: those in the result and the
  discarded ones are loaded elements at different TIDs, all of them visited. From this follow that a
  scan never returns a heap TID twice, that resuming it is safe, and the order of its results.
\<close>

subsection \<open>Candidates a search has in hand\<close>

definition disc_mset :: "HnswSearchCandidate pairingheap option \<Rightarrow> HnswSearchCandidate multiset" where
  "disc_mset d = (case d of None \<Rightarrow> {#} | Some h \<Rightarrow> mset_heap h)"

lemma disc_mset_simps [simp]: "disc_mset None = {#}" "disc_mset (Some h) = mset_heap h"
  by (simp_all add: disc_mset_def)

text \<open>An element that holds what its tuple says, with its distance from the query.\<close>

definition tracked ::
  "'v option \<Rightarrow> 'v HnswSupport \<Rightarrow> 'v relation \<Rightarrow> 'v memory \<Rightarrow> HnswSearchCandidate \<Rightarrow> bool" where
  "tracked q support index mem sc \<longleftrightarrow>
     (\<exists>e etup. mem_elems mem (sc_element sc) = Some e \<and> live_at index (etid e) etup \<and> loaded e etup \<and>
        sc_distance sc = tuple_distance q support etup)"

definition hand_ok ::
  "'v option \<Rightarrow> 'v HnswSupport \<Rightarrow> 'v relation \<Rightarrow> 'v memory \<Rightarrow> HnswSearchCandidate multiset
    \<Rightarrow> ItemPointerData set \<Rightarrow> bool" where
  "hand_ok q support index mem M V \<longleftrightarrow>
     (\<forall>sc \<in># M. tracked q support index mem sc) \<and>
     (\<forall>t. count (image_mset (cand_tid mem) M) t \<le> 1) \<and> cand_tid mem ` set_mset M \<subseteq> V"

lemma tracked_extends:
  assumes "tracked q support index mem sc" "mem_extends mem mem'"
  shows "tracked q support index mem' sc" "cand_tid mem' sc = cand_tid mem sc"
  using assms by (fastforce simp: tracked_def cand_tid_def mem_extends_def)+

lemma hand_ok_extends:
  assumes "hand_ok q support index mem M V" "mem_extends mem mem'"
  shows "hand_ok q support index mem' M V"
proof -
  have t: "tracked q support index mem sc" if "sc \<in># M" for sc using assms(1) that by (simp add: hand_ok_def)
  have same: "cand_tid mem' sc = cand_tid mem sc" if "sc \<in># M" for sc
    by (rule tracked_extends(2) [OF t [OF that] assms(2)])
  then have "image_mset (cand_tid mem') M = image_mset (cand_tid mem) M"
    "cand_tid mem' ` set_mset M = cand_tid mem ` set_mset M"
    by (auto intro: image_mset_cong image_cong)
  then show ?thesis
    using assms(1) tracked_extends(1) [OF t assms(2)] by (simp add: hand_ok_def)
qed

lemma hand_ok_add:
  assumes "hand_ok q support index mem M V" "tracked q support index mem sc" "cand_tid mem sc \<notin> V"
  shows "hand_ok q support index mem (add_mset sc M) (insert (cand_tid mem sc) V)"
proof -
  have "count (image_mset (cand_tid mem) M) (cand_tid mem sc) = 0"
    using assms(1,3) by (auto simp: hand_ok_def count_eq_zero_iff)
  then show ?thesis using assms by (auto simp: hand_ok_def)
qed

lemma hand_ok_mono: "hand_ok q support index mem M V \<Longrightarrow> V \<subseteq> V' \<Longrightarrow> hand_ok q support index mem M V'"
  by (auto simp: hand_ok_def)

lemma hand_ok_sub:
  assumes "hand_ok q support index mem M V" "M' \<subseteq># M"
  shows "hand_ok q support index mem M' V"
proof -
  have "count (image_mset (cand_tid mem) M') t \<le> count (image_mset (cand_tid mem) M) t" for t
    by (rule mset_subset_eq_count [OF image_mset_subseteq_mono [OF assms(2)]])
  then have "count (image_mset (cand_tid mem) M') t \<le> 1" for t
    using assms(1) by (fastforce simp: hand_ok_def intro: order_trans)
  then show ?thesis
    using assms(1) mset_subset_eqD [OF assms(2)] unfolding hand_ok_def by blast
qed

subsection \<open>The search keeps them in order\<close>

text \<open>
  \<open>V\<close> is the set of visited TIDs, \<open>X\<close> those of them the search is still going to look at.
\<close>

definition track_inv :: "'v search_args \<Rightarrow> 'v relation \<Rightarrow> ItemPointerData set \<Rightarrow> 'v search_state \<Rightarrow> bool" where
  "track_inv a index X st \<longleftrightarrow>
     mem_ok (ss_mem st) \<and> sa_index a = Some index \<and>
     hand_ok (sa_q a) (sa_support a) index (ss_mem st)
       (mset_heap (ss_W st) + disc_mset (ss_discarded st)) (vh_tids (ss_v st) - X)"

lemma element_distance_value:
  "element_distance True q etup support tr = Inr (d, tr') \<Longrightarrow> d = tuple_distance q support etup"
  by (auto simp: element_distance_def tuple_distance_def split: option.splits)

lemma load_heaptids:
  "foldE (\<lambda>tid e. HnswAddHeapTid e tid) tids e = Inr e' \<Longrightarrow> e' = e\<lparr>he_heaptids := he_heaptids e @ tids\<rparr>"
proof (induction tids arbitrary: e)
  case (Cons tid tids)
  then obtain e1 where e1: "HnswAddHeapTid e tid = Inr e1" "foldE (\<lambda>tid e. HnswAddHeapTid e tid) tids e1 = Inr e'"
    by auto
  from e1(1) have "e1 = e\<lparr>he_heaptids := he_heaptids e @ [tid]\<rparr>"
    by (auto simp: HnswAddHeapTid_def split: if_splits)
  with Cons.IH [OF e1(2)] show ?case by simp
qed simp

lemma load_from_tuple:
  assumes "HnswLoadElementFromTuple e etup True loadVec = Inr e'"
  shows "loaded e' etup" "etid e' = etid e"
  using assms by (auto simp: HnswLoadElementFromTuple_def Let_def loaded_def etid_def dest!: load_heaptids)

lemma HnswAlloc_Inr:
  assumes "HnswAlloc mem e = Inr (p, mem')" "mem_ok mem"
  shows "mem_ok mem'" "mem_elems mem p = None" "mem_elems mem' = (mem_elems mem)(p \<mapsto> e)" "mem_extends mem mem'"
  using HnswAlloc_cases [OF assms(2), of e] assms(1) by auto

lemma load_unvisited_tracks:
  assumes l: "load_unvisited a aa fd (UTid u) st = Inr (d, po, st')" and a: "sa_index a = Some index"
    and mem: "mem_ok (ss_mem st)"
  shows "mem_ok (ss_mem st') \<and> mem_extends (ss_mem st) (ss_mem st') \<and>
    (\<forall>p. po = Some p \<longrightarrow> mem_elems (ss_mem st) p = None \<and>
       tracked (sa_q a) (sa_support a) index (ss_mem st') \<lparr>sc_element = p, sc_distance = d\<rparr> \<and>
       cand_tid (ss_mem st') \<lparr>sc_element = p, sc_distance = d\<rparr> = u)"
proof -
  let ?b = "ItemPointerGetBlockNumber u" and ?off = "ItemPointerGetOffsetNumber u"
  let ?max = "if aa \<or> ss_discarded st \<noteq> None then None else Some fd"
  from l a obtain etup tr tr' where e: "ReadItem index ?b ?off = Inr (ETup etup)" "et_deleted etup = 0"
    "element_distance True (sa_q a) etup (sa_support a) (ss_trace st) = Inr (d, tr)"
    and m: "(if ?max = None \<or> float8_lt d (the ?max)
              then bindE (HnswInitElementFromBlock (ss_mem st) ?b ?off) (\<lambda>(p, mem1).
                   bindE (HnswPtrAccess mem1 p) (\<lambda>e.
                   bindE (HnswLoadElementFromTuple e etup True (sa_inserting a)) (\<lambda>e'.
                   Inr (Some p, element_store mem1 p e'))))
              else Inr (None, ss_mem st)) = Inr (po, ss_mem st')"
    by (auto simp: HnswLoadElementImpl_def split: if_splits)
  show ?thesis
  proof (cases "?max = None \<or> float8_lt d (the ?max)")
    case False
    then have "po = None" "ss_mem st' = ss_mem st" using m by (auto split: if_splits)
    with mem show ?thesis by simp
  next
    case True
    let ?e0 = "blank_element\<lparr>he_blkno := ?b, he_offno := ?off, he_neighbors := None, he_value := None\<rparr>"
    from True m obtain p mem1 e1 e' where s: "HnswAlloc (ss_mem st) ?e0 = Inr (p, mem1)" "po = Some p"
      "mem_elems mem1 p = Some e1" "HnswLoadElementFromTuple e1 etup True (sa_inserting a) = Inr e'"
      "ss_mem st' = element_store mem1 p e'"
      by (auto simp: HnswInitElementFromBlock_def)
    note f = HnswAlloc_Inr(2,1,3) [OF s(1) mem]
    with s(3) have e1: "e1 = ?e0" by simp
    have ld: "loaded e' etup" "etid e' = u" using load_from_tuple [OF s(4)] e1 by (simp_all add: etid_def)
    have "live_at index u etup" using e(1,2) by (simp add: live_at_def etup_at_def)
    moreover have "mem_ok (ss_mem st')" using element_store_ok [OF f(2)] s(3,5) by simp
    moreover have "mem_extends (ss_mem st) (ss_mem st')" "mem_elems (ss_mem st') p = Some e'"
      using f s(5) by (auto simp: mem_extends_def element_store_def)
    moreover have "d = tuple_distance (sa_q a) (sa_support a) etup" by (rule element_distance_value [OF e(3)])
    ultimately show ?thesis using ld s(2) f(1) by (auto simp: tracked_def cand_tid_def)
  qed
qed

text \<open>The candidates in hand after a visit: one more at \<open>u\<close>, or none.\<close>

lemma visit_hand:
  assumes v: "visit_neighbor a (UTid u) st = Inr st'"
  obtains d po aa fd st1 where "load_unvisited a aa fd (UTid u) st = Inr (d, po, st1)" "ss_mem st' = ss_mem st1"
    "mset_heap (ss_W st') + disc_mset (ss_discarded st') \<subseteq># mset_heap (ss_W st) + disc_mset (ss_discarded st)"
  | d p aa fd st1 where "load_unvisited a aa fd (UTid u) st = Inr (d, Some p, st1)" "ss_mem st' = ss_mem st1"
    "mset_heap (ss_W st') + disc_mset (ss_discarded st') \<subseteq>#
       add_mset \<lparr>sc_element = p, sc_distance = d\<rparr> (mset_heap (ss_W st) + disc_mset (ss_discarded st))"
proof -
  have acc: "mset_heap (ss_W s') + disc_mset (ss_discarded s') \<subseteq>#
      add_mset e (mset_heap (ss_W s) + disc_mset (ss_discarded s))"
    if "accept_candidate a e s = Inr s'" for e and s s' :: "'a search_state"
  proof -
    have "add_mset d (mset_heap W') = add_mset e (mset_heap (ss_W s)) \<and>
        mset_heap W' \<subseteq># add_mset e (mset_heap (ss_W s))"
      if "pairingheap_remove_first (pairingheap_add (ss_W s) e) = Some (d, W')" for d W'
      using pairingheap_remove_first_mset [OF that] by simp
    with that show ?thesis
      by (cases "ss_discarded s")
        (auto simp: accept_candidate_def Let_def discard_candidate_def subset_eq_diff_conv split: if_splits)
  qed
  from v show thesis
  proof (cases rule: visit_neighbor_cases)
    case (absent f d st1)
    with load_unvisited_frame [OF absent(2)] show ?thesis by (intro that(1) [OF absent(2)]) simp_all
  next
    case (low f d p el st1)
    with load_unvisited_frame [OF low(2)] show ?thesis by (intro that(1) [OF low(2)]) simp_all
  next
    case (reject f d p st1)
    note fr = load_unvisited_frame [OF reject(2)]
    show ?thesis
      by (rule that(2) [OF reject(2)])
        (use reject(4) fr in \<open>cases "ss_discarded st"; simp add: discard_candidate_def HnswInitSearchCandidate_def\<close>)+
  next
    case (accept f d p el st1)
    with load_unvisited_frame [OF accept(2)] acc [OF accept(6)] accept_candidate_frame [OF accept(6)]
    show ?thesis by (intro that(2) [OF accept(2)]) (simp_all add: HnswInitSearchCandidate_def)
  qed
qed

lemma visit_tracks:
  assumes inv: "track_inv a index X st" and v: "visit_neighbor a (UTid u) st = Inr st'"
    and u: "u \<in> X" "u \<in> vh_tids (ss_v st)"
  shows "track_inv a index (X - {u}) st'"
proof -
  let ?M = "mset_heap (ss_W st) + disc_mset (ss_discarded st)" and ?V = "vh_tids (ss_v st)"
  from inv have i: "mem_ok (ss_mem st)" "sa_index a = Some index"
    "hand_ok (sa_q a) (sa_support a) index (ss_mem st) ?M (?V - X)"
    by (simp_all add: track_inv_def)
  have V: "vh_tids (ss_v st') = ?V" using visit_neighbor_frame [OF v] by simp
  have new: "?V - (X - {u}) = insert u (?V - X)" using u by auto
  from v show ?thesis
  proof (cases rule: visit_hand)
    case (1 d po aa fd st1)
    have ld: "mem_ok (ss_mem st')" "mem_extends (ss_mem st) (ss_mem st')"
      using load_unvisited_tracks [OF 1(1) i(2,1)] 1(2) by simp_all
    have "hand_ok (sa_q a) (sa_support a) index (ss_mem st')
        (mset_heap (ss_W st') + disc_mset (ss_discarded st')) (?V - (X - {u}))"
      by (rule hand_ok_mono [OF hand_ok_sub [OF hand_ok_extends [OF i(3) ld(2)] 1(3)]]) auto
    with ld i(2) V show ?thesis by (simp add: track_inv_def)
  next
    case (2 d p aa fd st1)
    let ?sc = "\<lparr>sc_element = p, sc_distance = d\<rparr>"
    have ld: "mem_ok (ss_mem st')" "mem_extends (ss_mem st) (ss_mem st')"
      "tracked (sa_q a) (sa_support a) index (ss_mem st') ?sc" "cand_tid (ss_mem st') ?sc = u"
      using load_unvisited_tracks [OF 2(1) i(2,1)] 2(2) by simp_all
    have "hand_ok (sa_q a) (sa_support a) index (ss_mem st') (add_mset ?sc ?M) (insert u (?V - X))"
      using hand_ok_add [OF hand_ok_extends [OF i(3) ld(2)] ld(3)] ld(4) u(1) by simp
    from hand_ok_sub [OF this 2(3)] ld i(2) V new show ?thesis by (simp add: track_inv_def)
  qed
qed

lemma visits_track:
  assumes "track_inv a index X st" "foldE (visit_neighbor a) (map UTid us) st = Inr st'"
    "distinct us" "set us \<subseteq> X" "set us \<subseteq> vh_tids (ss_v st)"
  shows "track_inv a index (X - set us) st'"
  using assms
proof (induction us arbitrary: X st)
  case (Cons u us)
  then obtain s1 where s1: "visit_neighbor a (UTid u) st = Inr s1"
    "foldE (visit_neighbor a) (map UTid us) s1 = Inr st'" by auto
  have t1: "track_inv a index (X - {u}) s1" using visit_tracks [OF Cons.prems(1) s1(1)] Cons.prems by simp
  have v1: "ss_v s1 = ss_v st" using visit_neighbor_frame [OF s1(1)] by simp
  have "track_inv a index (X - {u} - set us) st'"
    by (rule Cons.IH [OF t1 s1(2)]) (use Cons.prems v1 in auto)
  moreover have "X - {u} - set us = X - set (u # us)" by auto
  ultimately show ?case by simp
qed simp

lemma expand_disk:
  assumes "expand_candidate a c st = Inr (us, st')" "sa_index a = Some index"
  obtains ts where "us = map UTid ts" "distinct ts" "set ts = vh_tids (ss_v st') - vh_tids (ss_v st)"
    "vh_tids (ss_v st) \<subseteq> vh_tids (ss_v st')" "ss_mem st' = ss_mem st" "ss_W st' = ss_W st"
    "ss_discarded st' = ss_discarded st"
proof -
  from assms obtain e v tr where l: "HnswLoadUnvisitedFromDisk e (ss_v st) index (sa_m a)
      (HnswGetLayerM (sa_m a) (sa_lc a)) (sa_lc a) (ss_trace st) = Inr (us, v, tr)"
    and st': "ss_v st' = v" "ss_mem st' = ss_mem st" "ss_W st' = ss_W st" "ss_discarded st' = ss_discarded st"
    by (auto simp: expand_candidate_def Let_def)
  from l have "\<exists>ts. us = map UTid ts \<and> distinct ts \<and> set ts = vh_tids v - vh_tids (ss_v st) \<and>
      vh_tids (ss_v st) \<subseteq> vh_tids v"
    by (auto simp: HnswLoadUnvisitedFromDisk_def split: if_splits option.splits prod.splits
        dest!: unvisited_tids_spec) (rule exI, rule conjI, rule refl, auto)
  with st' that show thesis by blast
qed

text \<open>\<open>K\<close> are TIDs visited long ago whose elements are no longer in hand; they never come back.\<close>

lemma step_tracks:
  assumes "search_step a st = Inr (cont, st')" "track_inv a index K st" "K \<subseteq> vh_tids (ss_v st)"
  shows "track_inv a index K st' \<and> vh_tids (ss_v st) \<subseteq> vh_tids (ss_v st')"
proof -
  from assms(1) obtain c C' f where c: "pairingheap_remove_first (ss_C st) = Some (c, C')"
    "pairingheap_first (ss_W st) = Some f"
    and step: "(if float8_lt (sc_distance f) (sc_distance c) then Inr (False, st\<lparr>ss_C := C'\<rparr>)
      else bindE (expand_candidate a c (st\<lparr>ss_C := C'\<rparr>)) (\<lambda>(us, st1).
        bindE (foldE (visit_neighbor a) us st1) (\<lambda>st2. Inr (True, st2)))) = Inr (cont, st')"
    by (auto simp: search_step_def)
  show ?thesis
  proof (cases "float8_lt (sc_distance f) (sc_distance c)")
    case True
    with step assms(2) show ?thesis by (auto simp: track_inv_def)
  next
    case False
    with step obtain us st1 where u: "expand_candidate a c (st\<lparr>ss_C := C'\<rparr>) = Inr (us, st1)"
      "foldE (visit_neighbor a) us st1 = Inr st'"
      by auto
    have a: "sa_index a = Some index" using assms(2) by (simp add: track_inv_def)
    from expand_disk [OF u(1) a] obtain ts where ts: "us = map UTid ts" "distinct ts"
      "set ts = vh_tids (ss_v st1) - vh_tids (ss_v st)" "vh_tids (ss_v st) \<subseteq> vh_tids (ss_v st1)"
      "ss_mem st1 = ss_mem st" "ss_W st1 = ss_W st" "ss_discarded st1 = ss_discarded st"
      by auto
    have "vh_tids (ss_v st1) - (K \<union> set ts) = vh_tids (ss_v st) - K" using ts(3,4) by auto
    then have "track_inv a index (K \<union> set ts) st1" using assms(2) ts(5-7) by (simp add: track_inv_def)
    from visits_track [OF this u(2) [unfolded ts(1)] ts(2)] ts(3)
    have "track_inv a index ((K \<union> set ts) - set ts) st'" by auto
    moreover have "(K \<union> set ts) - set ts = K" using ts(3) assms(3) by auto
    moreover have "ss_v st' = ss_v st1" using visit_neighbors_frame [OF u(2)] by simp
    ultimately show ?thesis using ts(4) by simp
  qed
qed

lemma loop_tracks:
  "search_loop a st = Inr st' \<Longrightarrow> track_inv a index K st \<Longrightarrow> K \<subseteq> vh_tids (ss_v st) \<Longrightarrow>
     track_inv a index K st' \<and> vh_tids (ss_v st) \<subseteq> vh_tids (ss_v st')"
proof (induction a st rule: search_loop.induct)
  case (1 a st)
  show ?case
  proof (cases "pairingheap_is_empty (ss_C st)")
    case True
    with 1(2) have "st' = st" by (subst (asm) search_loop.simps) simp
    with 1(3) show ?thesis by simp
  next
    case False
    with 1(2) obtain cont s1 where s: "search_step a st = Inr (cont, s1)"
      "(if cont then search_loop a s1 else Inr s1) = Inr st'"
      by (subst (asm) search_loop.simps) auto
    have t: "track_inv a index K s1" "vh_tids (ss_v st) \<subseteq> vh_tids (ss_v s1)"
      using step_tracks [OF s(1) 1(3,4)] by simp_all
    then have "K \<subseteq> vh_tids (ss_v s1)" using 1(4) by auto
    with t 1(1) [OF False s(1) refl] s(2) show ?thesis by (cases cont) auto
  qed
qed

text \<open>
  The entry points of a search: a first one starts with new tables; a resumed one with candidates taken
  from the discarded ones, whose TIDs are already visited.
\<close>

lemma entry_points_frame:
  assumes "foldE (add_entry_point a init) ep st = Inr st'" "sa_index a = Some index"
  shows "mset_heap (ss_W st') = mset ep + mset_heap (ss_W st) \<and> ss_discarded st' = ss_discarded st \<and>
    ss_mem st' = ss_mem st \<and>
    vh_tids (ss_v st') = (if init then cand_tid (ss_mem st) ` set ep \<union> vh_tids (ss_v st) else vh_tids (ss_v st))"
  using assms(1)
proof (induction ep arbitrary: st)
  case (Cons sc ep)
  then obtain s1 where s1: "add_entry_point a init sc st = Inr s1" "foldE (add_entry_point a init) ep s1 = Inr st'"
    by auto
  from s1(1) have "mset_heap (ss_W s1) = add_mset sc (mset_heap (ss_W st))" "ss_discarded s1 = ss_discarded st"
    "ss_mem s1 = ss_mem st"
    "vh_tids (ss_v s1) = (if init then insert (cand_tid (ss_mem st) sc) (vh_tids (ss_v st)) else vh_tids (ss_v st))"
    by (auto simp: add_entry_point_def Let_def AddToVisited_def assms(2) cand_tid_def etid_def split: if_splits)
  with Cons.IH [OF s1(2)] show ?case by auto
qed simp

lemma HnswSearchLayer_run:
  assumes "HnswSearchLayer a ep v discarded init tuples trace mem = Inr (w, st)"
  obtains st0 where "foldE (add_entry_point a (v = None \<or> init)) ep
      (search_init v discarded (v = None \<or> init) tuples trace mem) = Inr st0"
    "search_loop a st0 = Inr st" "w = drain_candidates (ss_W st)"
  using assms by (auto simp: HnswSearchLayer_def Let_def)

lemma new_search_tracks:
  assumes s: "HnswSearchLayer a ep v discarded init tuples trace mem = Inr (w, st)" and i: "v = None \<or> init"
    and a: "sa_index a = Some index" and mem: "mem_ok mem"
    and ep: "hand_ok (sa_q a) (sa_support a) index mem (mset ep) (cand_tid mem ` set ep)"
  shows "mem_ok (ss_mem st) \<and>
    hand_ok (sa_q a) (sa_support a) index (ss_mem st) (mset w + disc_mset (ss_discarded st)) (vh_tids (ss_v st))"
proof -
  obtain st0 where st0: "foldE (add_entry_point a True) ep (search_init v discarded True tuples trace mem) = Inr st0"
    and l: "search_loop a st0 = Inr st" "w = drain_candidates (ss_W st)"
    using HnswSearchLayer_run [OF s] i by auto
  have "track_inv a index {} st0"
    using entry_points_frame [OF st0 a] ep a mem
    by (cases discarded) (auto simp: track_inv_def search_init_def InitVisited_def)
  from loop_tracks [OF l(1) this] show ?thesis
    by (simp add: track_inv_def l(2) drain_candidates_mset)
qed

lemma resumed_search_tracks:
  assumes s: "HnswSearchLayer a ep (Some v) discarded False tuples trace mem = Inr (w, st)"
    and a: "sa_index a = Some index" and mem: "mem_ok mem" and K: "K \<subseteq> vh_tids v"
    and ep: "hand_ok (sa_q a) (sa_support a) index mem (mset ep + disc_mset discarded) (vh_tids v - K)"
  shows "mem_ok (ss_mem st) \<and> vh_tids v \<subseteq> vh_tids (ss_v st) \<and>
    hand_ok (sa_q a) (sa_support a) index (ss_mem st) (mset w + disc_mset (ss_discarded st)) (vh_tids (ss_v st) - K)"
proof -
  obtain st0 where st0: "foldE (add_entry_point a False) ep
      (search_init (Some v) discarded False tuples trace mem) = Inr st0"
    and l: "search_loop a st0 = Inr st" "w = drain_candidates (ss_W st)"
    using HnswSearchLayer_run [OF s] by auto
  have fr: "vh_tids (ss_v st0) = vh_tids v"
    using entry_points_frame [OF st0 a] by (simp add: search_init_def)
  have "track_inv a index K st0"
    using entry_points_frame [OF st0 a] ep a mem by (simp add: track_inv_def search_init_def)
  from loop_tracks [OF l(1) this] K fr show ?thesis
    by (simp add: track_inv_def l(2) drain_candidates_mset)
qed

subsection \<open>The first search of a scan\<close>

lemma hand_ok_self: "hand_ok q support index mem M V \<Longrightarrow> hand_ok q support index mem M (cand_tid mem ` set_mset M)"
  by (simp add: hand_ok_def)

lemma entry_tracked:
  assumes "HnswEntryCandidate p q (Some index) support loadVec mem = Inr (sc, mem')" "mem_ok mem"
  shows "mem_ok mem' \<and> tracked q support index mem' sc \<and> sc_element sc = p"
proof -
  from assms(1) obtain d e etup tr e' where e: "mem_elems mem p = Some e" "sc = \<lparr>sc_element = p, sc_distance = d\<rparr>"
    "ReadItem index (he_blkno e) (he_offno e) = Inr (ETup etup)" "et_deleted etup = 0"
    "element_distance True q etup support None = Inr (d, tr)"
    "HnswLoadElementFromTuple e etup True loadVec = Inr e'" "mem' = element_store mem p e'"
    by (auto simp: HnswEntryCandidate_def HnswLoadElement_def HnswLoadElementImpl_def HnswInitSearchCandidate_def
        split: if_splits)
  have "live_at index (etid e) etup" using e(3,4) by (simp add: live_at_def etup_at_def etid_def)
  moreover note load_from_tuple [OF e(6)] element_distance_value [OF e(5)]
  moreover have "mem_ok mem'" using element_store_ok [OF assms(2)] e(1,7) by simp
  ultimately show ?thesis using e(2,7) by (auto simp: tracked_def element_store_def)
qed

lemma hand_ok_single: "tracked q support index mem sc \<Longrightarrow> hand_ok q support index mem {#sc#} {cand_tid mem sc}"
  by (simp add: hand_ok_def)

lemma scan_descent_tracks:
  assumes "scan_descent q index support m lcs (ep, trace, mem) = Inr (ep', trace', mem')" "mem_ok mem"
    "hand_ok q support index mem (mset ep) (cand_tid mem ` set ep)"
  shows "mem_ok mem' \<and> hand_ok q support index mem' (mset ep') (cand_tid mem' ` set ep')"
  using assms
proof (induction lcs arbitrary: ep trace mem)
  case (Cons lc lcs)
  from Cons.prems(1) obtain w st where
    s: "HnswSearchLayer (scan_args q 1 lc index support m) ep None None True None trace mem = Inr (w, st)"
    and r: "scan_descent q index support m lcs (w, ss_trace st, ss_mem st) = Inr (ep', trace', mem')"
    by auto
  have "mem_ok (ss_mem st) \<and> hand_ok q support index (ss_mem st) (mset w + disc_mset (ss_discarded st)) (vh_tids (ss_v st))"
    using new_search_tracks [OF s, of index] Cons.prems(2,3) by (simp add: scan_args_def)
  then have "mem_ok (ss_mem st)" "hand_ok q support index (ss_mem st) (mset w) (cand_tid (ss_mem st) ` set w)"
    using hand_ok_self [OF hand_ok_sub [of q support index "ss_mem st" _ _ "mset w"]] by auto
  from Cons.IH [OF r this] show ?case .
qed simp

text \<open>
  What the first search leaves in the scan: everything in hand is a loaded element, at different TIDs,
  all visited.
\<close>

definition scan_visited :: "'v HnswScanOpaqueData \<Rightarrow> ItemPointerData set" where
  "scan_visited so = (case so_v so of None \<Rightarrow> {} | Some v \<Rightarrow> vh_tids v)"

lemma scan_visited_simps [simp]:
  "so_v so = Some v \<Longrightarrow> scan_visited so = vh_tids v" "so_v so = None \<Longrightarrow> scan_visited so = {}"
  by (simp_all add: scan_visited_def)

lemma metapage_mem_ok:
  assumes "HnswGetMetaPageInfo index want mem = Inr (m, ep, mem')" "mem_ok mem"
  shows "mem_ok mem'"
proof (cases "want \<and> BlockNumberIsValid (mp_entryBlkno (rd_meta index))")
  case True
  with assms(1) obtain p mem1 e where a: "HnswInitElementFromBlock mem (mp_entryBlkno (rd_meta index))
      (mp_entryOffno (rd_meta index)) = Inr (p, mem1)" "mem_elems mem1 p = Some e"
    "mem' = element_store mem1 p (e\<lparr>he_level := word_of_int (mp_entryLevel (rd_meta index))\<rparr>)"
    by (auto simp: HnswGetMetaPageInfo_def Let_def split: if_splits)
  have "mem_ok mem1" by (rule HnswAlloc_Inr(1) [OF a(1) [unfolded HnswInitElementFromBlock_def] assms(2)])
  with a(2,3) element_store_ok [of mem1 p] show ?thesis by simp
next
  case False
  with assms show ?thesis by (auto simp: HnswGetMetaPageInfo_def Let_def split: if_splits)
qed

lemma GetScanItems_run:
  assumes "GetScanItems gs index so v mem = Inr (w, so', mem')"
    "HnswGetMetaPageInfo index True mem = Inr (m, Some p, mem1)"
  obtains sc mem2 lev trace ep trace1 mem3 st where
    "HnswEntryCandidate p v (Some index) (so_support so) False mem1 = Inr (sc, mem2)"
    "scan_descent v index (so_support so) m (rev [Suc 0..<Suc lev]) ([sc], trace, mem2) =
       Inr (ep, trace1, mem3)"
    "HnswSearchLayer (scan_args v (gs_ef_search gs) 0 index (so_support so) m) ep (Some InitVisited)
       (if gs_iterative_scan gs \<noteq> HNSW_ITERATIVE_SCAN_OFF
        then Some (pairingheap_allocate CompareNearestDiscardedCandidates) else None)
       True (Some (so_tuples so)) trace1 mem3 = Inr (w, st)"
    "so_v so' = Some (ss_v st)"
    "so_discarded so' = (if gs_iterative_scan gs \<noteq> HNSW_ITERATIVE_SCAN_OFF then ss_discarded st else so_discarded so)"
    "so_q so' = v" "so_support so' = so_support so" "so_previousDistance so' = so_previousDistance so"
    "mem' = ss_mem st"
proof -
  from assms(1,2) show thesis
    by (auto simp: GetScanItems_def Let_def simp del: upt_Suc)
      (rule that, assumption, assumption, assumption, simp_all)
qed

lemma GetScanItems_tracks:
  assumes g: "GetScanItems gs index so v mem = Inr (w, so', mem')" and mem: "mem_ok mem"
    and fresh: "so_v so = None" "so_discarded so = None"
  shows "mem_ok mem'" "hand_ok v (so_support so) index mem' (mset w + disc_mset (so_discarded so')) (scan_visited so')"
    "so_q so' = v" "so_support so' = so_support so" "so_previousDistance so' = so_previousDistance so"
proof -
  from g obtain m entry mem1 where mp: "HnswGetMetaPageInfo index True mem = Inr (m, entry, mem1)"
    by (auto simp: GetScanItems_def)
  have m1: "mem_ok mem1" by (rule metapage_mem_ok [OF mp mem])
  have "mem_ok mem' \<and> hand_ok v (so_support so) index mem' (mset w + disc_mset (so_discarded so')) (scan_visited so') \<and>
      so_q so' = v \<and> so_support so' = so_support so \<and> so_previousDistance so' = so_previousDistance so"
  proof (cases entry)
    case None
    with g mp m1 fresh show ?thesis by (auto simp: GetScanItems_def hand_ok_def)
  next
    case (Some p)
    obtain sc mem2 lev trace ep trace1 mem3 st where
      e: "HnswEntryCandidate p v (Some index) (so_support so) False mem1 = Inr (sc, mem2)"
      and d: "scan_descent v index (so_support so) m (rev [Suc 0..<Suc lev]) ([sc], trace, mem2) =
        Inr (ep, trace1, mem3)"
      and s: "HnswSearchLayer (scan_args v (gs_ef_search gs) 0 index (so_support so) m) ep (Some InitVisited)
        (if gs_iterative_scan gs \<noteq> HNSW_ITERATIVE_SCAN_OFF
         then Some (pairingheap_allocate CompareNearestDiscardedCandidates) else None)
        True (Some (so_tuples so)) trace1 mem3 = Inr (w, st)"
      and so': "so_v so' = Some (ss_v st)" "so_discarded so' = None \<or> so_discarded so' = ss_discarded st"
        "so_q so' = v" "so_support so' = so_support so" "so_previousDistance so' = so_previousDistance so"
      and mem': "mem' = ss_mem st"
      by (rule GetScanItems_run [OF g mp [unfolded Some]]) (use fresh in auto)
    note en = entry_tracked [OF e m1]
    have "mem_ok mem3 \<and> hand_ok v (so_support so) index mem3 (mset ep) (cand_tid mem3 ` set ep)"
      by (rule scan_descent_tracks [OF d]) (use en hand_ok_single in auto)
    with new_search_tracks [OF s, of index] have
      t: "mem_ok (ss_mem st)" "hand_ok v (so_support so) index (ss_mem st)
        (mset w + disc_mset (ss_discarded st)) (vh_tids (ss_v st))"
      by (simp_all add: scan_args_def)
    have "hand_ok v (so_support so) index (ss_mem st) (mset w + disc_mset (so_discarded so')) (vh_tids (ss_v st))"
      by (rule hand_ok_sub [OF t(2)]) (use so'(2) in auto)
    with t(1) so' mem' show ?thesis by simp
  qed
  then show "mem_ok mem'"
    "hand_ok v (so_support so) index mem' (mset w + disc_mset (so_discarded so')) (scan_visited so')"
    "so_q so' = v" "so_support so' = so_support so" "so_previousDistance so' = so_previousDistance so"
    by simp_all
qed

subsection \<open>No heap TID comes twice\<close>

text \<open>
  The heap TIDs of the element at an index TID. In an index each heap tuple has one entry, so elements
  share no heap TIDs.
\<close>

definition live_heaptids :: "'v relation \<Rightarrow> ItemPointerData \<Rightarrow> ItemPointerData list" where
  "live_heaptids index t =
     (case etup_at index t of
        None \<Rightarrow> []
      | Some etup \<Rightarrow> if et_deleted etup = 0 then takeWhile ItemPointerIsValid (et_heaptids etup) else [])"

definition heaps_unique :: "'v relation \<Rightarrow> bool" where
  "heaps_unique index \<longleftrightarrow>
     (\<forall>t. distinct (live_heaptids index t)) \<and>
     (\<forall>t t'. t \<noteq> t' \<longrightarrow> set (live_heaptids index t) \<inter> set (live_heaptids index t') = {})"

text \<open>An element some of whose heap TIDs have been handed out, from the last one on.\<close>

definition part_loaded ::
  "'v option \<Rightarrow> 'v HnswSupport \<Rightarrow> 'v relation \<Rightarrow> 'v memory \<Rightarrow> HnswSearchCandidate \<Rightarrow> bool" where
  "part_loaded q support index mem sc \<longleftrightarrow>
     (\<exists>e etup rest. mem_elems mem (sc_element sc) = Some e \<and> live_at index (etid e) etup \<and>
        live_heaptids index (etid e) = he_heaptids e @ rest \<and>
        sc_distance sc = tuple_distance q support etup)"

definition remaining :: "'v memory \<Rightarrow> HnswSearchCandidate \<Rightarrow> ItemPointerData set" where
  "remaining mem sc = (case mem_elems mem (sc_element sc) of None \<Rightarrow> {} | Some e \<Rightarrow> set (he_heaptids e))"

text \<open>\<open>R\<close> are the heap TIDs handed out so far.\<close>

definition scan_hand :: "'v HnswScanOpaqueData \<Rightarrow> HnswSearchCandidate multiset" where
  "scan_hand so = mset (so_w so) + disc_mset (so_discarded so)"

definition scan_inv ::
  "'v relation \<Rightarrow> 'v HnswScanOpaqueData \<Rightarrow> 'v memory \<Rightarrow> ItemPointerData list \<Rightarrow> bool" where
  "scan_inv index so mem R \<longleftrightarrow>
     mem_ok mem \<and> (\<forall>t. count (image_mset (cand_tid mem) (scan_hand so)) t \<le> 1) \<and>
     cand_tid mem ` set_mset (scan_hand so) \<subseteq> scan_visited so \<and>
     (\<forall>sc \<in># disc_mset (so_discarded so). tracked (so_q so) (so_support so) index mem sc) \<and>
     (\<forall>sc \<in># scan_hand so. part_loaded (so_q so) (so_support so) index mem sc \<and> remaining mem sc \<inter> set R = {}) \<and>
     set R \<subseteq> (\<Union>t \<in> scan_visited so. set (live_heaptids index t)) \<and> distinct R"

lemma tracked_part_loaded:
  assumes "tracked q support index mem sc"
  shows "part_loaded q support index mem sc" "remaining mem sc = set (live_heaptids index (cand_tid mem sc))"
  using assms by (fastforce simp: tracked_def part_loaded_def remaining_def live_heaptids_def live_at_def loaded_def
      cand_tid_def)+

lemma part_loaded_remaining:
  "part_loaded q support index mem sc \<Longrightarrow> remaining mem sc \<subseteq> set (live_heaptids index (cand_tid mem sc))"
  by (fastforce simp: part_loaded_def remaining_def cand_tid_def)

text \<open>Different candidates in hand are different elements.\<close>

lemma hand_other_element:
  assumes "\<forall>t. count (image_mset (cand_tid mem) (add_mset sc M)) t \<le> 1" "x \<in># M"
  shows "sc_element x \<noteq> sc_element sc" "cand_tid mem x \<noteq> cand_tid mem sc"
proof -
  have "count (image_mset (cand_tid mem) M) (cand_tid mem sc) = 0"
    using assms(1) [rule_format, of "cand_tid mem sc"] by simp
  then have "cand_tid mem sc \<notin># image_mset (cand_tid mem) M" by (simp only: count_eq_zero_iff not_False_eq_True)
  then show "cand_tid mem x \<noteq> cand_tid mem sc" using assms(2) by (metis image_eqI set_image_mset)
  then show "sc_element x \<noteq> sc_element sc" by (auto simp: cand_tid_def)
qed

lemma memory_cong:
  assumes "mem_elems mem' (sc_element x) = mem_elems mem (sc_element x)"
  shows "cand_tid mem' x = cand_tid mem x" "remaining mem' x = remaining mem x"
    "part_loaded q support index mem' x = part_loaded q support index mem x" "tracked q support index mem' x = tracked q support index mem x"
  using assms by (simp_all add: cand_tid_def remaining_def part_loaded_def tracked_def)

lemma hand_last:
  assumes "so_w so \<noteq> []"
  shows "scan_hand so = add_mset (last (so_w so)) (mset (butlast (so_w so)) + disc_mset (so_discarded so))"
proof -
  have "mset (so_w so) = mset (butlast (so_w so) @ [last (so_w so)])" using assms by simp
  then show ?thesis by (simp add: scan_hand_def)
qed

lemma scan_inv_shrink:
  assumes inv: "scan_inv index so mem R" and sub: "scan_hand so' \<subseteq># scan_hand so"
    and disc: "set_mset (disc_mset (so_discarded so')) \<subseteq> set_mset (disc_mset (so_discarded so))"
    and same: "so_q so' = so_q so" "so_support so' = so_support so" "so_v so' = so_v so" and mem: "mem_ok mem'"
    and elems: "\<And>x. x \<in># scan_hand so' \<Longrightarrow> mem_elems mem' (sc_element x) = mem_elems mem (sc_element x)"
  shows "scan_inv index so' mem' R"
proof -
  note c = memory_cong [OF elems]
  have i: "image_mset (cand_tid mem') (scan_hand so') = image_mset (cand_tid mem) (scan_hand so')"
    by (rule image_mset_cong) (rule c(1))
  have "count (image_mset (cand_tid mem) (scan_hand so')) t \<le> 1" for t
    using mset_subset_eq_count [OF image_mset_subseteq_mono [OF sub], of "cand_tid mem" t] inv
    by (auto simp: scan_inv_def intro: order_trans)
  moreover have V: "scan_visited so' = scan_visited so" by (simp add: scan_visited_def same(3))
  moreover have "cand_tid mem' ` set_mset (scan_hand so') \<subseteq> scan_visited so"
  proof -
    have "cand_tid mem' ` set_mset (scan_hand so') = cand_tid mem ` set_mset (scan_hand so')"
      by (rule image_cong) (auto intro: c(1))
    also have "\<dots> \<subseteq> cand_tid mem ` set_mset (scan_hand so)" using set_mset_mono [OF sub] by (rule image_mono)
    also have "\<dots> \<subseteq> scan_visited so" using inv by (simp add: scan_inv_def)
    finally show ?thesis .
  qed
  moreover have "x \<in># scan_hand so' \<Longrightarrow> x \<in># scan_hand so" for x using sub by (rule mset_subset_eqD)
  moreover have "x \<in># disc_mset (so_discarded so') \<Longrightarrow> x \<in># scan_hand so'" for x by (simp add: scan_hand_def)
  moreover have "\<forall>x \<in># disc_mset (so_discarded so'). tracked (so_q so) (so_support so) index mem x"
    using inv disc by (auto simp: scan_inv_def)
  ultimately show ?thesis
    using inv mem same c unfolding scan_inv_def i by simp
qed

text \<open>One step of handing out. First the element \<open>e\<close> of the last candidate loses its last heap TID.\<close>

lemma pop_keeps:
  assumes inv: "scan_inv index so mem R" and ne: "so_w so \<noteq> []" and uniq: "heaps_unique index"
    and e: "mem_elems mem (sc_element (last (so_w so))) = Some e" "he_heaptids e \<noteq> []"
  defines "mem' \<equiv> element_store mem (sc_element (last (so_w so))) (e\<lparr>he_heaptids := butlast (he_heaptids e)\<rparr>)"
  shows "scan_inv index so mem' R" "scan_inv index so mem' (R @ [last (he_heaptids e)])"
proof -
  let ?sc = "last (so_w so)" and ?M = "mset (butlast (so_w so)) + disc_mset (so_discarded so)"
  let ?h = "last (he_heaptids e)"
  note hand = hand_last [OF ne]
  from inv hand obtain rest etup where r: "live_heaptids index (etid e) = he_heaptids e @ rest"
    "set (he_heaptids e) \<inter> set R = {}" "live_at index (etid e) etup"
    "sc_distance ?sc = tuple_distance (so_q so) (so_support so) etup"
    using e(1) by (auto simp: scan_inv_def part_loaded_def remaining_def)
  have he: "he_heaptids e = butlast (he_heaptids e) @ [?h]" using e(2) by simp
  have other: "sc_element x \<noteq> sc_element ?sc" "cand_tid mem x \<noteq> cand_tid mem ?sc" if "x \<in># ?M" for x
    using hand_other_element [of mem ?sc ?M x] inv that by (simp_all add: scan_inv_def hand)
  then have elems: "mem_elems mem' (sc_element x) = mem_elems mem (sc_element x)" if "x \<in># ?M" for x
    using that by (simp add: mem'_def element_store_def)
  note c = memory_cong [OF elems]
  have "live_heaptids index (etid e) = butlast (he_heaptids e) @ ?h # rest" using r(1) he by simp
  then have sc: "cand_tid mem' ?sc = cand_tid mem ?sc" "remaining mem' ?sc = set (butlast (he_heaptids e))"
    "part_loaded (so_q so) (so_support so) index mem' ?sc" "cand_tid mem ?sc = etid e"
    using e(1) r(3,4)
    by (auto simp: mem'_def element_store_def cand_tid_def etid_def remaining_def part_loaded_def)
  have tids: "cand_tid mem' x = cand_tid mem x" if "x \<in># scan_hand so" for x using that sc(1) c(1) hand by auto
  have i: "image_mset (cand_tid mem') (scan_hand so) = image_mset (cand_tid mem) (scan_hand so)"
    "cand_tid mem' ` set_mset (scan_hand so) = cand_tid mem ` set_mset (scan_hand so)"
    by (auto intro!: image_mset_cong image_cong tids)
  have "mem_ok mem" using inv by (simp add: scan_inv_def)
  then have mem: "mem_ok mem'" unfolding mem'_def by (rule element_store_ok) (simp add: e(1))
  have rem: "remaining mem' x \<subseteq> remaining mem x" "part_loaded (so_q so) (so_support so) index mem' x" if "x \<in># scan_hand so" for x
    using that sc e(1) c hand inv by (auto simp: remaining_def scan_inv_def dest: in_set_butlastD)
  have "remaining mem' x \<inter> set R = {}" if "x \<in># scan_hand so" for x
  proof -
    have "remaining mem x \<inter> set R = {}" using inv that by (simp add: scan_inv_def)
    with rem(1) [OF that] show ?thesis by blast
  qed
  moreover have "tracked (so_q so) (so_support so) index mem' x" if "x \<in># disc_mset (so_discarded so)" for x
    using inv that c(4) [of x] by (simp add: scan_inv_def)
  ultimately show 1: "scan_inv index so mem' R"
    using inv mem rem(2) unfolding scan_inv_def i by simp
  have "?h \<in> set (live_heaptids index (etid e))" using r(1) e(2) by simp
  moreover have "etid e \<in> scan_visited so" using inv hand sc(4) by (auto simp: scan_inv_def)
  moreover have "?h \<notin> set R" using r(2) e(2) last_in_set by blast
  moreover have "?h \<notin> remaining mem' ?sc"
  proof -
    have "distinct (butlast (he_heaptids e) @ [?h])" using uniq r(1) he by (metis distinct_append heaps_unique_def)
    then show ?thesis by (simp add: sc(2))
  qed
  moreover have "?h \<notin> remaining mem' x" if "x \<in># ?M" for x
  proof -
    have "part_loaded (so_q so) (so_support so) index mem x" using inv that hand by (auto simp: scan_inv_def)
    then have "remaining mem x \<subseteq> set (live_heaptids index (cand_tid mem x))" by (rule part_loaded_remaining)
    then show ?thesis
      using uniq other(2) [OF that] sc(4) \<open>?h \<in> set (live_heaptids index (etid e))\<close> c(2) [OF that]
      by (fastforce simp: heaps_unique_def)
  qed
  ultimately show "scan_inv index so mem' (R @ [?h])"
    using 1 hand by (auto simp: scan_inv_def)
qed

lemma mem_ok_free: "mem_ok mem \<Longrightarrow> mem_ok (mem\<lparr>mem_elems := (mem_elems mem)(p := None)\<rparr>)"
  by (auto simp: mem_ok_def)

lemma scan_inv_previous [simp]:
  "scan_inv index (so\<lparr>so_previousDistance := d\<rparr>) mem R = scan_inv index so mem R"
  by (simp add: scan_inv_def scan_hand_def scan_visited_def)

lemma fetch_keeps:
  assumes inv: "scan_inv index so mem R" and ne: "so_w so \<noteq> []" and uniq: "heaps_unique index"
    and f: "scan_fetch gs so mem = Inr (outcome, so', mem')"
  shows "scan_inv index so' mem' (case outcome of SReturn h \<Rightarrow> R @ [h] | _ \<Rightarrow> R)"
proof -
  let ?sc = "last (so_w so)" and ?M = "mset (butlast (so_w so)) + disc_mset (so_discarded so)"
  from f obtain e where e: "mem_elems mem (sc_element ?sc) = Some e" by (auto simp: scan_fetch_def Let_def)
  show ?thesis
  proof (cases "he_heaptids e = []")
    case True
    let ?so = "so\<lparr>so_w := butlast (so_w so)\<rparr>" and ?mem = "mem\<lparr>mem_elems := (mem_elems mem)(sc_element ?sc := None)\<rparr>"
    from True f e have o: "outcome = SContinue" "so' = ?so" "mem' = mem \<or> mem' = ?mem"
      by (auto simp: scan_fetch_def Let_def split: if_splits)
    have hand: "scan_hand ?so = ?M" "scan_hand so = add_mset ?sc ?M" using hand_last [OF ne] by (simp_all add: scan_hand_def)
    have "mem_ok mem" using inv by (simp add: scan_inv_def)
    then have "mem_ok mem'" using o(3) mem_ok_free [of mem "sc_element ?sc"] by blast
    moreover have "mem_elems mem' (sc_element x) = mem_elems mem (sc_element x)" if "x \<in># ?M" for x
    proof -
      have "sc_element x \<noteq> sc_element ?sc"
        by (rule hand_other_element(1) [of mem ?sc ?M]) (use inv hand(2) that in \<open>simp_all add: scan_inv_def\<close>)
      then show ?thesis using o(3) by auto
    qed
    ultimately have "scan_inv index ?so mem' R"
      by (intro scan_inv_shrink [OF inv]) (simp_all add: hand)
    then show ?thesis by (simp add: o)
  next
    case False
    with f e pop_keeps [OF inv ne uniq e] show ?thesis
      by (auto simp: scan_fetch_def Let_def split: if_splits)
  qed
qed

lemma resume_keeps:
  assumes inv: "scan_inv index so mem R" and w: "so_w so = []" and h: "so_discarded so = Some h"
    and uniq: "heaps_unique index" and r: "ResumeScanItems gs index h so mem = Inr (w, so1, mem')"
  shows "scan_inv index (so1\<lparr>so_w := w\<rparr>) mem' R"
  using r
proof (cases rule: ResumeScanItems_cases)
  case empty
  with inv w show ?thesis by (simp add: scan_inv_def scan_hand_def scan_visited_def)
next
  case (search ep h1 v trace st)
  let ?V = "vh_tids v" and ?V' = "vh_tids (ss_v st)" and ?hand = "mset_heap h"
  let ?K = "?V - cand_tid mem ` set_mset ?hand"
  have hand: "scan_hand so = ?hand" using w h by (simp add: scan_hand_def)
  have hand': "scan_hand (so1\<lparr>so_w := w\<rparr>) = mset w + disc_mset (ss_discarded st)"
    "scan_visited (so1\<lparr>so_w := w\<rparr>) = ?V'" using search(6) by (simp_all add: scan_hand_def)
  have tr: "\<forall>x \<in># ?hand. tracked (so_q so) (so_support so) index mem x" using inv h by (simp add: scan_inv_def)
  have sub: "cand_tid mem ` set_mset ?hand \<subseteq> ?V" using inv hand search(3) by (simp add: scan_inv_def)
  then have "?V - ?K = cand_tid mem ` set_mset ?hand" by auto
  then have "hand_ok (so_q so) (so_support so) index mem (mset ep + disc_mset (Some h1)) (?V - ?K)"
    using inv hand tr take_batch_mset [OF search(2)] by (simp add: hand_ok_def scan_inv_def)
  then have "hand_ok (sa_q (scan_args (so_q so) (gs_ef_search gs) 0 index (so_support so) (so_m so)))
      (sa_support (scan_args (so_q so) (gs_ef_search gs) 0 index (so_support so) (so_m so))) index mem
      (mset ep + disc_mset (Some h1)) (?V - ?K)"
    by (simp add: scan_args_def)
  from resumed_search_tracks [OF search(5) _ _ _ this] inv
  have t: "mem_ok (ss_mem st)" "?V \<subseteq> ?V'" "hand_ok (so_q so) (so_support so) index (ss_mem st)
      (mset w + disc_mset (ss_discarded st)) (?V' - ?K)"
    by (simp_all add: scan_args_def scan_inv_def)
  have "remaining (ss_mem st) x \<inter> set R = {}" if x: "x \<in># mset w + disc_mset (ss_discarded st)" for x
  proof -
    let ?t = "cand_tid (ss_mem st) x"
    have "tracked (so_q so) (so_support so) index (ss_mem st) x" using t(3) x by (simp add: hand_ok_def)
    then have rx: "remaining (ss_mem st) x = set (live_heaptids index ?t)" by (rule tracked_part_loaded(2))
    show ?thesis
    proof (cases "?t \<in> ?V")
      case True
      have "?t \<in> ?V' - ?K" using t(3) x by (auto simp: hand_ok_def)
      with True obtain y where y: "y \<in># ?hand" "cand_tid mem y = ?t" by auto
      then have "remaining mem y = set (live_heaptids index ?t)" using tracked_part_loaded(2) tr by fastforce
      moreover have "remaining mem y \<inter> set R = {}" using inv hand y(1) by (simp add: scan_inv_def)
      ultimately show ?thesis using rx by simp
    next
      case False
      have "set R \<subseteq> (\<Union>t \<in> ?V. set (live_heaptids index t))" using inv search(3) by (simp add: scan_inv_def)
      moreover have "set (live_heaptids index ?t) \<inter> set (live_heaptids index t) = {}" if "t \<in> ?V" for t
        using uniq False that unfolding heaps_unique_def by metis
      ultimately show ?thesis unfolding rx by blast
    qed
  qed
  moreover have "set R \<subseteq> (\<Union>t \<in> ?V'. set (live_heaptids index t))" "distinct R"
  proof -
    have "set R \<subseteq> (\<Union>t \<in> ?V. set (live_heaptids index t))" using inv search(3) by (simp add: scan_inv_def)
    then show "set R \<subseteq> (\<Union>t \<in> ?V'. set (live_heaptids index t))" using t(2) by blast
  qed (use inv in \<open>simp add: scan_inv_def\<close>)
  moreover have "cand_tid (ss_mem st) ` set_mset (mset w + disc_mset (ss_discarded st)) \<subseteq> ?V'"
    using t(3) by (auto simp: hand_ok_def)
  moreover have "\<forall>x \<in># mset w + disc_mset (ss_discarded st). part_loaded (so_q so) (so_support so) index (ss_mem st) x"
    using t(3) unfolding hand_ok_def by (blast intro: tracked_part_loaded(1))
  ultimately show ?thesis
    using t(1,3) search(6,7) unfolding scan_inv_def hand' by (simp add: hand_ok_def)
qed

lemma refill_keeps:
  assumes inv: "scan_inv index so mem R" and uniq: "heaps_unique index"
    and r: "scan_refill gs allocated index so mem = Inr (found, so', mem')"
  shows "scan_inv index so' mem' R"
  using r
proof (cases rule: scan_refill_cases)
  case (rest h sc h')
  have m: "mset_heap h = add_mset sc (mset_heap h')" by (rule pairingheap_remove_first_mset [OF rest(3)])
  show ?thesis
    unfolding rest(5,6)
    by (rule scan_inv_shrink [OF inv])
      (use rest(1,2) m inv in \<open>simp_all add: scan_hand_def scan_inv_def subset_insertI\<close>)
next
  case (resume h w so1)
  with resume_keeps [OF inv resume(1,2) uniq resume(4)] show ?thesis by simp
qed (use inv in simp_all)

lemma loop_keeps:
  "scan_loop gs allocated index so mem = Inr (r, so', mem') \<Longrightarrow> scan_inv index so mem R \<Longrightarrow> heaps_unique index \<Longrightarrow>
     scan_inv index so' mem' (R @ (case r of None \<Rightarrow> [] | Some h \<Rightarrow> [h]))"
proof (induction gs allocated index so mem rule: scan_loop.induct)
  case (1 gs allocated index so mem)
  from 1(2) obtain outcome so1 mem1 where s: "scan_round gs allocated index so mem = Inr (outcome, so1, mem1)"
    and rest: "(case outcome of SBreak \<Rightarrow> Inr (None, so1, mem1)
       | SContinue \<Rightarrow> scan_loop gs allocated index so1 mem1
       | SReturn heaptid \<Rightarrow> Inr (Some heaptid, so1, mem1)) = Inr (r, so', mem')"
    by (subst (asm) scan_loop.simps) auto
  from s obtain found so2 mem2 where f: "scan_refill gs allocated index so mem = Inr (found, so2, mem2)"
    "(if \<not> found then Inr (SBreak, so2, mem2) else scan_fetch gs so2 mem2) = Inr (outcome, so1, mem1)"
    by (auto simp: scan_round_def)
  have i2: "scan_inv index so2 mem2 R" by (rule refill_keeps [OF 1(3,4) f(1)])
  have i1: "scan_inv index so1 mem1 (case outcome of SReturn h \<Rightarrow> R @ [h] | _ \<Rightarrow> R)"
  proof (cases found)
    case True
    then have "so_w so2 \<noteq> []" using scan_refill_stock [OF f(1)] by simp
    from fetch_keeps [OF i2 this 1(4)] f(2) True show ?thesis by simp
  qed (use f(2) i2 in auto)
  show ?case
  proof (cases outcome)
    case SContinue
    with 1(1) [OF s refl refl SContinue _ _ 1(4)] rest i1 show ?thesis by simp
  qed (use rest i1 in auto)
qed

subsection \<open>The order of a strict scan\<close>

lemma ResumeScanItems_query:
  assumes "ResumeScanItems gs index h so mem = Inr (w, so', mem')"
  shows "so_q so' = so_q so \<and> so_support so' = so_support so"
  using assms by (cases rule: ResumeScanItems_cases) simp_all

lemma scan_refill_query:
  assumes "scan_refill gs allocated index so mem = Inr (found, so', mem')"
  shows "so_q so' = so_q so \<and> so_support so' = so_support so"
  using assms by (cases rule: scan_refill_cases) (simp_all add: ResumeScanItems_query)

lemma scan_fetch_query:
  assumes "scan_fetch gs so mem = Inr (outcome, so', mem')"
  shows "so_q so' = so_q so" "so_support so' = so_support so"
    "\<not> (\<exists>h. outcome = SReturn h) \<Longrightarrow> so_previousDistance so' = so_previousDistance so"
  using assms by (auto simp: scan_fetch_def Let_def split: if_splits)

lemma scan_fetch_returns:
  assumes "scan_fetch gs so mem = Inr (SReturn h, so', mem')" "gs_iterative_scan gs = HNSW_ITERATIVE_SCAN_STRICT"
    "part_loaded q support index mem (last (so_w so))"
  shows "\<not> float8_lt (so_previousDistance so') (so_previousDistance so)"
    "\<exists>t etup. live_at index t etup \<and> h \<in> set (live_heaptids index t) \<and>
       so_previousDistance so' = tuple_distance q support etup"
proof -
  from assms(1,2) obtain e where e: "mem_elems mem (sc_element (last (so_w so))) = Some e" "he_heaptids e \<noteq> []"
    "h = last (he_heaptids e)" "so_previousDistance so' = sc_distance (last (so_w so))"
    "\<not> float8_lt (sc_distance (last (so_w so))) (so_previousDistance so)"
    by (auto simp: scan_fetch_def Let_def split: if_splits)
  show "\<not> float8_lt (so_previousDistance so') (so_previousDistance so)" using e(4,5) by simp
  show "\<exists>t etup. live_at index t etup \<and> h \<in> set (live_heaptids index t) \<and>
      so_previousDistance so' = tuple_distance q support etup"
  proof -
    from assms(3) e(1,4) obtain etup rest where "live_at index (etid e) etup"
      "live_heaptids index (etid e) = he_heaptids e @ rest" "so_previousDistance so' = tuple_distance q support etup"
      by (auto simp: part_loaded_def)
    moreover have "last (he_heaptids e) \<in> set (he_heaptids e)" using e(2) by simp
    ultimately show ?thesis using e(3) by (intro exI [of _ "etid e"] exI [of _ etup]) simp
  qed
qed

text \<open>
  \<open>at_distance index q support h d\<close>: the heap TID \<open>h\<close> belongs to an element at distance \<open>d\<close> from the query.
\<close>

definition at_distance ::
  "'v relation \<Rightarrow> 'v option \<Rightarrow> 'v HnswSupport \<Rightarrow> ItemPointerData \<Rightarrow> float8 \<Rightarrow> bool" where
  "at_distance index q support h d \<longleftrightarrow>
     (\<exists>t etup. live_at index t etup \<and> h \<in> set (live_heaptids index t) \<and> d = tuple_distance q support etup)"

lemma loop_strict:
  assumes "scan_loop gs allocated index so mem = Inr (r, so', mem')" "scan_inv index so mem R" "heaps_unique index"
    "gs_iterative_scan gs = HNSW_ITERATIVE_SCAN_STRICT"
  shows "so_q so' = so_q so \<and> so_support so' = so_support so \<and>
    (case r of None \<Rightarrow> so_previousDistance so' = so_previousDistance so
     | Some h \<Rightarrow> \<not> float8_lt (so_previousDistance so') (so_previousDistance so) \<and>
         at_distance index (so_q so) (so_support so) h (so_previousDistance so'))"
  using assms
proof (induction gs allocated index so mem rule: scan_loop.induct)
  case (1 gs allocated index so mem)
  from 1(2) obtain outcome so1 mem1 where s: "scan_round gs allocated index so mem = Inr (outcome, so1, mem1)"
    and rest: "(case outcome of SBreak \<Rightarrow> Inr (None, so1, mem1)
       | SContinue \<Rightarrow> scan_loop gs allocated index so1 mem1
       | SReturn heaptid \<Rightarrow> Inr (Some heaptid, so1, mem1)) = Inr (r, so', mem')"
    by (subst (asm) scan_loop.simps) auto
  from s obtain found so2 mem2 where f: "scan_refill gs allocated index so mem = Inr (found, so2, mem2)"
    "(if \<not> found then Inr (SBreak, so2, mem2) else scan_fetch gs so2 mem2) = Inr (outcome, so1, mem1)"
    by (auto simp: scan_round_def)
  have i2: "scan_inv index so2 mem2 R" by (rule refill_keeps [OF 1(3,4) f(1)])
  note q = scan_refill_query [OF f(1)] scan_refill_stock [OF f(1)]
  show ?case
  proof (cases found)
    case False
    with f(2) rest q show ?thesis by auto
  next
    case True
    then have ft: "scan_fetch gs so2 mem2 = Inr (outcome, so1, mem1)" and w: "so_w so2 \<noteq> []"
      using f(2) q by auto
    note fq = scan_fetch_query [OF ft]
    have pl: "part_loaded (so_q so2) (so_support so2) index mem2 (last (so_w so2))"
      using i2 hand_last [OF w] by (simp add: scan_inv_def)
    show ?thesis
    proof (cases outcome)
      case SBreak
      with ft show ?thesis by (auto simp: scan_fetch_def Let_def split: if_splits)
    next
      case SContinue
      have "scan_inv index so1 mem1 R" using fetch_keeps [OF i2 w 1(4) ft] SContinue by simp
      with 1(1) [OF s refl refl SContinue _ _ 1(4,5)] rest SContinue fq q show ?thesis by (cases r) auto
    next
      case (SReturn h)
      note ret = scan_fetch_returns [OF ft [unfolded SReturn] 1(5) pl]
      have "at_distance index (so_q so2) (so_support so2) h (so_previousDistance so1)"
        using ret(2) unfolding at_distance_def .
      moreover have "r = Some h" "so' = so1" using rest SReturn by simp_all
      ultimately show ?thesis using ret(1) fq(1,2) q by simp
    qed
  qed
qed

subsection \<open>Whole scans\<close>

text \<open>
  The calls of \<^verbatim>\<open>hnswgettuple\<close> after \<^verbatim>\<open>hnswrescan\<close>, until it returns false or the caller stops. The settings may
  change between the calls. The result lists the heap TIDs with \<^verbatim>\<open>previousDistance\<close> after the call, which in
  strict mode is the distance of the tuple.
\<close>

fun scan_run ::
  "('v memory \<Rightarrow> nat) \<Rightarrow> 'v relation \<Rightarrow> (hnsw_settings \<times> observation \<times> observation) list
    \<Rightarrow> 'v IndexScanDescData \<Rightarrow> 'v memory \<Rightarrow> ((ItemPointerData \<times> float8) list) result" where
  "scan_run allocated index [] scan mem = Inr []"
| "scan_run allocated index ((gs, entry, now) # calls) scan mem =
     bindE (hnswgettuple gs allocated index entry now scan mem) (\<lambda>(found, scan1, mem1).
       if \<not> found then Inr []
       else bindE (scan_run allocated index calls scan1 mem1) (\<lambda>rs.
         Inr ((sd_xs_heaptid scan1,
               case sd_opaque scan1 of None \<Rightarrow> 0 | Some so \<Rightarrow> so_previousDistance so) # rs)))"

text \<open>The state between two calls.\<close>

definition scan_state :: "'v relation \<Rightarrow> 'v IndexScanDescData \<Rightarrow> 'v memory \<Rightarrow> ItemPointerData list \<Rightarrow> bool" where
  "scan_state index scan mem R \<longleftrightarrow>
     (\<exists>so. sd_opaque scan = Some so \<and>
        (if so_first so then mem_ok mem \<and> so_v so = None \<and> so_discarded so = None \<and> R = []
         else scan_inv index so mem R))"

lemma scan_inv_trace_back [simp]: "scan_inv index (trace_back t so) mem R = scan_inv index so mem R"
  by (simp add: scan_inv_def scan_hand_def scan_visited_def)

lemma first_keeps:
  assumes "scan_first gs index scan so mem = Inr (so', mem')" "mem_ok mem" "so_v so = None" "so_discarded so = None"
  shows "scan_inv index so' mem' []" "\<not> so_first so'" "so_previousDistance so' = so_previousDistance so"
proof -
  from assms(1) obtain v w so1 where g: "GetScanItems gs index so v mem = Inr (w, so1, mem')"
    and so': "so' = so1\<lparr>so_w := w, so_first := False\<rparr>"
    by (auto simp: scan_first_def split: option.splits if_splits)
  note t = GetScanItems_tracks [OF g assms(2-4)]
  have h: "scan_hand so' = mset w + disc_mset (so_discarded so1)" "scan_visited so' = scan_visited so1"
    by (simp_all add: so' scan_hand_def scan_visited_def)
  have "\<forall>x \<in># scan_hand so'. part_loaded (so_q so') (so_support so') index mem' x"
    using t(2) unfolding hand_ok_def h by (simp add: so' t(3,4)) (blast intro: tracked_part_loaded(1))
  then show "scan_inv index so' mem' []"
    using t unfolding scan_inv_def h by (simp add: hand_ok_def so')
  show "\<not> so_first so'" "so_previousDistance so' = so_previousDistance so" using so' t(5) by simp_all
qed

lemma first_support:
  assumes "scan_first gs index scan so mem = Inr (so', mem')" "mem_ok mem" "so_v so = None" "so_discarded so = None"
  shows "so_support so' = so_support so"
  using assms(1) GetScanItems_tracks(4) [OF _ assms(2-4)]
  by (auto simp: scan_first_def split: option.splits if_splits)

lemma scan_loop_first: "scan_loop gs allocated index so mem = Inr (r, so', mem') \<Longrightarrow> so_first so' = so_first so"
proof (induction gs allocated index so mem rule: scan_loop.induct)
  case (1 gs allocated index so mem)
  from 1(2) obtain outcome so1 mem1 where s: "scan_round gs allocated index so mem = Inr (outcome, so1, mem1)"
    and rest: "(case outcome of SBreak \<Rightarrow> Inr (None, so1, mem1)
       | SContinue \<Rightarrow> scan_loop gs allocated index so1 mem1
       | SReturn heaptid \<Rightarrow> Inr (Some heaptid, so1, mem1)) = Inr (r, so', mem')"
    by (subst (asm) scan_loop.simps) auto
  have resume: "so_first so2 = so_first so" if "ResumeScanItems gs index h so mem = Inr (w, so2, mem2)" for h w so2 mem2
    using that by (cases rule: ResumeScanItems_cases) simp_all
  have refill: "so_first so2 = so_first so" if "scan_refill gs allocated index so mem = Inr (found, so2, mem2)"
    for found so2 mem2
    using that by (cases rule: scan_refill_cases) (simp_all add: resume)
  have "so_first so1 = so_first so"
    using s by (auto simp: scan_round_def scan_fetch_def Let_def dest!: refill split: if_splits)
  with 1(1) [OF s refl refl] rest show ?case by (cases outcome) auto
qed

text \<open>A call in terms of its parts.\<close>

lemma hnswgettuple_run:
  assumes "hnswgettuple gs allocated index entry now scan mem = Inr (found, scan', mem')"
  obtains so scan1 so1 mem1 r so2 t where "sd_opaque scan = Some so" "sd_orderByData scan1 = sd_orderByData scan"
    "(if so_first so then scan_first gs index scan1 so mem else Inr (so, mem)) = Inr (so1, mem1)"
    "scan_loop gs allocated index so1 mem1 = Inr (r, so2, mem')" "found \<longleftrightarrow> r \<noteq> None"
    "sd_opaque scan' = Some (trace_back t so2)" "\<forall>h. r = Some h \<longrightarrow> sd_xs_heaptid scan' = h"
proof -
  from assms obtain so where so: "sd_opaque scan = Some so" by (auto simp: hnswgettuple_def)
  let ?scan = "if so_first so then scan\<lparr>sd_nsearches := map_option (\<lambda>n. n + 1) (sd_nsearches scan)\<rparr> else scan"
  from assms so obtain so1 mem1 r so2 mem2 trace where
    f: "(if so_first so then scan_first gs index ?scan so mem else Inr (so, mem)) = Inr (so1, mem1)"
    and l: "scan_loop gs allocated index so1 mem1 = Inr (r, so2, mem2)" "trace_arg gs so2 = Inr trace"
    and rest: "(case r of
          Some heaptid \<Rightarrow>
            bindE (case trace of None \<Rightarrow> Inr None
                   | Some t \<Rightarrow> bindE (trace_returned heaptid t) (\<lambda>t1. Inr (Some (trace_call entry now t1)))) (\<lambda>t2.
            Inr (True, ?scan\<lparr>sd_opaque := Some (trace_back t2 so2), sd_xs_heaptid := heaptid,
                            sd_xs_recheck := False, sd_xs_recheckorderby := False\<rparr>, mem2))
        | None \<Rightarrow>
            Inr (False, ?scan\<lparr>sd_opaque := Some (trace_back (map_option (trace_call entry now) trace) so2)\<rparr>,
                 mem2)) = Inr (found, scan', mem')"
    unfolding hnswgettuple_def Let_def by (auto simp only: so ofOption_simps bindE_simps elim!: bindE_InrE split: prod.splits)
  show thesis
  proof (cases r)
    case None
    with rest have e: "scan' = ?scan\<lparr>sd_opaque := Some (trace_back (map_option (trace_call entry now) trace) so2)\<rparr>"
      "\<not> found" "mem' = mem2"
      by auto
    show ?thesis using that [OF so _ f, of r so2 "map_option (trace_call entry now) trace"] l(1) None e by simp
  next
    case (Some h)
    with rest obtain t2 where "scan' = ?scan\<lparr>sd_opaque := Some (trace_back t2 so2), sd_xs_heaptid := h,
        sd_xs_recheck := False, sd_xs_recheckorderby := False\<rparr>" "found" "mem' = mem2"
      by (auto split: option.splits)
    with that [OF so _ f, of r so2 t2] l(1) Some show ?thesis by simp
  qed
qed

lemma gettuple_keeps:
  assumes "hnswgettuple gs allocated index entry now scan mem = Inr (found, scan', mem')"
    "scan_state index scan mem R" "heaps_unique index"
  shows "scan_state index scan' mem' (if found then R @ [sd_xs_heaptid scan'] else R)"
proof -
  from assms(1) obtain so scan1 so1 mem1 r so2 t where h: "sd_opaque scan = Some so"
    and "sd_orderByData scan1 = sd_orderByData scan" and h2:
    "(if so_first so then scan_first gs index scan1 so mem else Inr (so, mem)) = Inr (so1, mem1)"
    "scan_loop gs allocated index so1 mem1 = Inr (r, so2, mem')" "found \<longleftrightarrow> r \<noteq> None"
    "sd_opaque scan' = Some (trace_back t so2)" "\<forall>h. r = Some h \<longrightarrow> sd_xs_heaptid scan' = h"
    by (rule hnswgettuple_run)
  have i1: "scan_inv index so1 mem1 R \<and> \<not> so_first so1"
    using assms(2) h h2(1) first_keeps [of gs index scan1 so mem so1 mem1]
    by (auto simp: scan_state_def split: if_splits)
  have nf: "\<not> so_first (trace_back t so2)" using scan_loop_first [OF h2(2)] i1 by simp
  note k = loop_keeps [OF h2(2) _ assms(3), of R]
  show ?thesis
    using k i1 h2(3-5) nf by (auto simp: scan_state_def split: option.splits)
qed

text \<open>
  The query of a scan: nothing for a null order-by value; otherwise the value, normalized if the operator class has
  a normalization function.
\<close>

definition scan_query :: "'v HnswScanOpaqueData \<Rightarrow> 'v ScanKeyData \<Rightarrow> 'v option \<Rightarrow> bool" where
  "scan_query so key q \<longleftrightarrow>
     (case key of
        None \<Rightarrow> q = None
      | Some v \<Rightarrow>
          (if su_normprocinfo (so_support so) = None then q = Some v
           else \<exists>v'. HnswNormValue (so_typeInfo so) v = Inr v' \<and> q = Some v'))"

lemma GetScanValue_query: "GetScanValue keys so = Inr q \<Longrightarrow> keys \<noteq> [] \<and> scan_query so (hd keys) q"
  by (auto simp: GetScanValue_def scan_query_def hd_conv_nth split: option.splits if_splits)

lemma first_query:
  assumes "scan_first gs index scan so mem = Inr (so', mem')" "mem_ok mem" "so_v so = None" "so_discarded so = None"
  shows "\<exists>keys. sd_orderByData scan = Some keys \<and> keys \<noteq> [] \<and> scan_query so (hd keys) (so_q so')"
proof -
  from assms(1) obtain keys v w so1 where k: "sd_orderByData scan = Some keys" "GetScanValue keys so = Inr v"
    and g: "GetScanItems gs index so v mem = Inr (w, so1, mem')" "so' = so1\<lparr>so_w := w, so_first := False\<rparr>"
    by (auto simp: scan_first_def split: option.splits if_splits)
  have "so_q so' = v" using GetScanItems_tracks(3) [OF g(1) assms(2-4)] g(2) by simp
  with k GetScanValue_query [OF k(2)] show ?thesis by simp
qed

lemma gettuple_strict:
  assumes "hnswgettuple gs allocated index entry now scan mem = Inr (True, scan', mem')"
    "scan_state index scan mem R" "heaps_unique index" "gs_iterative_scan gs = HNSW_ITERATIVE_SCAN_STRICT"
    "sd_opaque scan = Some so"
  obtains so' where "sd_opaque scan' = Some so'" "\<not> float8_lt (so_previousDistance so') (so_previousDistance so)"
    "at_distance index (so_q so') (so_support so') (sd_xs_heaptid scan') (so_previousDistance so')"
    "\<not> so_first so \<longrightarrow> so_q so' = so_q so" "so_support so' = so_support so" "\<not> so_first so'"
    "so_first so \<longrightarrow> (\<exists>keys. sd_orderByData scan = Some keys \<and> keys \<noteq> [] \<and> scan_query so (hd keys) (so_q so'))"
proof -
  from assms(1) obtain so0 scan1 so1 mem1 r so2 t where o: "sd_opaque scan = Some so0" "sd_orderByData scan1 = sd_orderByData scan"
    and h: "(if so_first so0 then scan_first gs index scan1 so0 mem else Inr (so0, mem)) = Inr (so1, mem1)"
    "scan_loop gs allocated index so1 mem1 = Inr (r, so2, mem')" "True \<longleftrightarrow> r \<noteq> None"
    "sd_opaque scan' = Some (trace_back t so2)" "\<forall>h. r = Some h \<longrightarrow> sd_xs_heaptid scan' = h"
    by (rule hnswgettuple_run)
  have so0: "so0 = so" using o(1) assms(5) by simp
  have i1: "scan_inv index so1 mem1 R \<and> so_previousDistance so1 = so_previousDistance so \<and>
      (\<not> so_first so \<longrightarrow> so_q so1 = so_q so) \<and> so_support so1 = so_support so \<and> \<not> so_first so1"
    using assms(2,5) h(1) first_keeps [of gs index scan1 so mem so1 mem1] first_support [of gs index scan1 so mem so1 mem1]
    by (auto simp: scan_state_def so0 split: if_splits)
  have q: "so_first so \<longrightarrow> (\<exists>keys. sd_orderByData scan = Some keys \<and> keys \<noteq> [] \<and> scan_query so (hd keys) (so_q so1))"
    using assms(2,5) h(1) first_query [of gs index scan1 so mem so1 mem1] unfolding o(2)
    by (auto simp: scan_state_def so0 split: if_splits)
  obtain x where r: "r = Some x" using h(3) by auto
  from loop_strict [OF h(2) _ assms(3,4), of R] i1 r
  have "so_q so2 = so_q so1" "so_support so2 = so_support so1"
    "\<not> float8_lt (so_previousDistance so2) (so_previousDistance so)"
    "at_distance index (so_q so1) (so_support so1) x (so_previousDistance so2)"
    by simp_all
  with that [OF h(4)] i1 q h(5) r scan_loop_first [OF h(2)] show thesis by simp
qed

lemma scan_state_distinct: "scan_state index scan mem R \<Longrightarrow> distinct R"
  by (auto simp: scan_state_def scan_inv_def split: if_splits)

text \<open>Any scan returns a heap TID at most once.\<close>

lemma scan_run_distinct:
  assumes "scan_run allocated index calls scan mem = Inr rs" "scan_state index scan mem R" "heaps_unique index"
  shows "distinct (R @ map fst rs)"
  using assms
proof (induction allocated index calls scan mem arbitrary: rs R rule: scan_run.induct)
  case (1 allocated index scan mem)
  then show ?case by (simp add: scan_state_distinct)
next
  case (2 allocated index gs entry now calls scan mem)
  from 2(2) obtain found scan1 mem1 where
    g: "hnswgettuple gs allocated index entry now scan mem = Inr (found, scan1, mem1)"
    and rest: "(if \<not> found then Inr [] else bindE (scan_run allocated index calls scan1 mem1) (\<lambda>rs.
         Inr ((sd_xs_heaptid scan1, case sd_opaque scan1 of None \<Rightarrow> 0 | Some so \<Rightarrow> so_previousDistance so) # rs))) = Inr rs"
    by auto
  note k = gettuple_keeps [OF g 2(3,4)]
  show ?case
  proof (cases found)
    case False
    with rest 2(3) show ?thesis by (auto dest: scan_state_distinct)
  next
    case True
    with rest obtain rs1 where r: "scan_run allocated index calls scan1 mem1 = Inr rs1"
      "map fst rs = sd_xs_heaptid scan1 # map fst rs1"
      by auto
    have "distinct ((R @ [sd_xs_heaptid scan1]) @ map fst rs1)"
      by (rule 2(1) [OF g refl refl _ r(1) _ 2(4)]) (use True k in auto)
    with r(2) show ?thesis by simp
  qed
qed

text \<open>In strict mode each tuple is returned at the distance of its element, never below the previous one.\<close>

lemma scan_run_strict:
  assumes "scan_run allocated index calls scan mem = Inr rs" "scan_state index scan mem R" "heaps_unique index"
    "\<forall>(gs, entry, now) \<in> set calls. gs_iterative_scan gs = HNSW_ITERATIVE_SCAN_STRICT"
    "sd_opaque scan = Some so"
  shows "successively (\<lambda>d e. \<not> float8_lt e d) (so_previousDistance so # map snd rs) \<and>
    (\<exists>q. (\<not> so_first so \<longrightarrow> q = so_q so) \<and>
       (so_first so \<and> rs \<noteq> [] \<longrightarrow> (\<exists>keys. sd_orderByData scan = Some keys \<and> keys \<noteq> [] \<and> scan_query so (hd keys) q)) \<and>
       (\<forall>(h, d) \<in> set rs. at_distance index q (so_support so) h d))"
  using assms
proof (induction allocated index calls scan mem arbitrary: rs R so rule: scan_run.induct)
  case (1 allocated index scan mem)
  then show ?case by auto
next
  case (2 allocated index gs entry now calls scan mem)
  from 2(2) obtain found scan1 mem1 where
    g: "hnswgettuple gs allocated index entry now scan mem = Inr (found, scan1, mem1)"
    and rest: "(if \<not> found then Inr [] else bindE (scan_run allocated index calls scan1 mem1) (\<lambda>rs.
         Inr ((sd_xs_heaptid scan1, case sd_opaque scan1 of None \<Rightarrow> 0 | Some so \<Rightarrow> so_previousDistance so) # rs))) = Inr rs"
    by auto
  note k = gettuple_keeps [OF g 2(3,4)]
  show ?case
  proof (cases found)
    case False
    with rest show ?thesis by auto
  next
    case True
    with g have g1: "hnswgettuple gs allocated index entry now scan mem = Inr (True, scan1, mem1)" by simp
    from 2(5) have strict: "gs_iterative_scan gs = HNSW_ITERATIVE_SCAN_STRICT" by simp
    from g1 2(3,4) strict 2(6) obtain so' where so': "sd_opaque scan1 = Some so'"
      "\<not> float8_lt (so_previousDistance so') (so_previousDistance so)"
      "at_distance index (so_q so') (so_support so') (sd_xs_heaptid scan1) (so_previousDistance so')"
      "\<not> so_first so \<longrightarrow> so_q so' = so_q so" "so_support so' = so_support so" "\<not> so_first so'"
      "so_first so \<longrightarrow> (\<exists>keys. sd_orderByData scan = Some keys \<and> keys \<noteq> [] \<and> scan_query so (hd keys) (so_q so'))"
      by (rule gettuple_strict)
    from rest True so'(1) obtain rs1 where r: "scan_run allocated index calls scan1 mem1 = Inr rs1"
      "rs = (sd_xs_heaptid scan1, so_previousDistance so') # rs1"
      by auto
    have "successively (\<lambda>d e. \<not> float8_lt e d) (so_previousDistance so' # map snd rs1) \<and>
      (\<exists>q. (\<not> so_first so' \<longrightarrow> q = so_q so') \<and>
         (so_first so' \<and> rs1 \<noteq> [] \<longrightarrow> (\<exists>keys. sd_orderByData scan1 = Some keys \<and> keys \<noteq> [] \<and> scan_query so' (hd keys) q)) \<and>
         (\<forall>(h, d) \<in> set rs1. at_distance index q (so_support so') h d))"
      by (rule 2(1) [OF g refl refl _ r(1) _ 2(4) _ so'(1)]) (use True k 2(5) in auto)
    with so' have "successively (\<lambda>d e. \<not> float8_lt e d) (so_previousDistance so' # map snd rs1)"
      "\<forall>(h, d) \<in> set rs1. at_distance index (so_q so') (so_support so) h d"
      by auto
    with so' show ?thesis unfolding r(2) by (intro conjI exI [of _ "so_q so'"]) simp_all
  qed
qed

text \<open>\<^verbatim>\<open>hnswrescan\<close> starts a scan, also after an earlier one with the same descriptor.\<close>

lemma hnswrescan_opaque:
  assumes "hnswrescan gs now counter scan keys orderbys mem = Inr (scan', mem', counter')"
  obtains so so' where "sd_opaque scan = Some so" "sd_opaque scan' = Some so'" "so_first so'" "so_v so' = None"
    "so_discarded so' = None" "so_previousDistance so' = float8_minus_infinity" "so_support so' = so_support so"
    "so_trace so' \<noteq> None \<longleftrightarrow> gs_trace_enabled gs" "mem' = mem\<lparr>mem_elems := Map.empty\<rparr>"
    "so_typeInfo so' = so_typeInfo so"
    "\<And>ks. orderbys = Some ks \<Longrightarrow> 0 < sd_numberOfOrderBys scan \<Longrightarrow>
       sd_orderByData scan' = Some (take (sd_numberOfOrderBys scan) ks)"
proof -
  from assms obtain so where so: "sd_opaque scan = Some so" by (auto simp: hnswrescan_def)
  define so1 where "so1 = so\<lparr>so_first := True, so_v := None, so_discarded := None, so_tuples := 0,
    so_previousDistance := float8_minus_infinity, so_trace := None\<rparr>"
  have "sd_opaque scan' = Some (if gs_trace_enabled gs then fst (HnswTraceInit now counter so1) else so1)"
    "mem' = mem\<lparr>mem_elems := Map.empty\<rparr>"
    using assms so by (auto simp: hnswrescan_def so1_def Let_def split: prod.splits if_splits)
  moreover have "sd_orderByData scan' = Some (take (sd_numberOfOrderBys scan) ks)"
    if "orderbys = Some ks" "0 < sd_numberOfOrderBys scan" for ks
    using assms so that by (auto simp: hnswrescan_def Let_def copy_keys_def split: prod.splits if_splits)
  ultimately show thesis using that [OF so] by (simp add: so1_def HnswTraceInit_def split: if_splits)
qed

lemma hnswrescan_state:
  assumes "hnswrescan gs now counter scan keys orderbys mem = Inr (scan', mem', counter')" "mem_ok mem"
  shows "scan_state index scan' mem' []"
  using assms(1)
  by (rule hnswrescan_opaque) (use assms(2) in \<open>simp add: scan_state_def mem_ok_def\<close>)

end
