(* ===== verification/Hnsw_Select_Correct.thy ===== *)
theory Hnsw_Select_Correct
  imports Hnsw_Neighbors "HOL-Library.Product_Lexorder"
begin

section \<open>Correctness of neighbor selection\<close>

text \<open>
  \<^verbatim>\<open>SelectNeighbors\<close> against the selection heuristic as the paper states it, without flags: process
  the candidates from the nearest on, select one when it is closer to the base element than to
  every candidate selected so far, and fill up with discarded ones. The cached \<^verbatim>\<open>closer\<close> flags only
  save distance computations.
\<close>

subsection \<open>Candidates without their flag\<close>

type_synonym bare_candidate = "eptr \<times> float4"

definition bare :: "HnswCandidate \<Rightarrow> bare_candidate" where
  "bare hc = (hc_element hc, hc_distance hc)"

lemma bare_closer [simp]: "bare (hc\<lparr>hc_closer := b\<rparr>) = bare hc"
  by (simp add: bare_def)

definition bare_value :: "'v memory \<Rightarrow> bare_candidate \<Rightarrow> 'v option" where
  "bare_value mem b = (case mem_elems mem (fst b) of None \<Rightarrow> None | Some e \<Rightarrow> he_value e)"

text \<open>\<open>ri\<close> is at most as far from \<open>e\<close> as \<open>e\<close> is from the base element, in single precision.\<close>

definition too_close :: "'v memory \<Rightarrow> 'v HnswSupport \<Rightarrow> bare_candidate \<Rightarrow> bare_candidate \<Rightarrow> bool" where
  "too_close mem support e ri =
     (case (bare_value mem e, bare_value mem ri) of
        (Some ev, Some rv) \<Rightarrow>
          (case HnswGetDistance ev rv support of
             Inl _ \<Rightarrow> False | Inr d \<Rightarrow> float4_le (float8_to_float4 d) (snd e))
      | _ \<Rightarrow> False)"

text \<open>All candidates have a value, and the distance function is defined on them.\<close>

definition values_ok :: "'v memory \<Rightarrow> 'v HnswSupport \<Rightarrow> bare_candidate set \<Rightarrow> bool" where
  "values_ok mem support B \<longleftrightarrow>
     (\<forall>x \<in> B. bare_value mem x \<noteq> None) \<and>
     (\<forall>x \<in> B. \<forall>y \<in> B. \<exists>d.
        HnswGetDistance (the (bare_value mem x)) (the (bare_value mem y)) support = Inr d)"

lemma cand_value_ok: "bare_value mem (bare hc) = Some v \<Longrightarrow> cand_value mem hc = Inr v"
  by (auto simp: bare_value_def bare_def cand_value_def split: option.splits)

lemma check_closer_ok:
  assumes "values_ok mem support B" "bare e \<in> B"
  shows "bare ` set r \<subseteq> B \<Longrightarrow>
    check_closer mem support (the (bare_value mem (bare e))) (hc_distance e) r =
      Inr (\<forall>ri \<in> set r. \<not> too_close mem support (bare e) (bare ri))"
proof (induction r)
  case (Cons ri r)
  obtain ev where ev: "bare_value mem (bare e) = Some ev" using assms by (auto simp: values_ok_def)
  obtain rv where rv: "bare_value mem (bare ri) = Some rv" using assms Cons.prems by (auto simp: values_ok_def)
  obtain d where d: "HnswGetDistance ev rv support = Inr d"
    using assms Cons.prems ev rv unfolding values_ok_def by (metis image_insert insert_subset list.simps(15) option.sel)
  have "snd (bare e) = hc_distance e" by (simp add: bare_def)
  then show ?case
    using Cons ev rv d by (simp add: cand_value_ok [OF rv] too_close_def)
qed simp

lemma CheckElementCloser_ok:
  assumes "values_ok mem support B" "bare e \<in> B" "bare ` set r \<subseteq> B"
  shows "CheckElementCloser mem e r support =
    Inr (\<forall>ri \<in> set r. \<not> too_close mem support (bare e) (bare ri))"
proof -
  obtain ev where ev: "bare_value mem (bare e) = Some ev" using assms by (auto simp: values_ok_def)
  then show ?thesis
    using check_closer_ok [OF assms] by (simp add: CheckElementCloser_def cand_value_ok [OF ev])
qed

subsection \<open>The heuristic\<close>

text \<open>
  \<open>heuristic T lm xs r wd\<close> processes \<open>xs\<close> from the left until \<open>lm\<close> candidates are selected; the result is
  the selected, the discarded and the unprocessed candidates.
\<close>

fun heuristic :: "('a \<Rightarrow> 'a \<Rightarrow> bool) \<Rightarrow> nat \<Rightarrow> 'a list \<Rightarrow> 'a list \<Rightarrow> 'a list \<Rightarrow> 'a list \<times> 'a list \<times> 'a list" where
  "heuristic T lm [] r wd = (r, wd, [])"
| "heuristic T lm (x # xs) r wd =
     (if length r < lm
      then if \<forall>y \<in> set r. \<not> T x y then heuristic T lm xs (r @ [x]) wd
           else heuristic T lm xs r (wd @ [x])
      else (r, wd, x # xs))"

text \<open>
  The state after one round. \<open>names_ok B s\<close>: the candidates are those of \<open>B\<close> and the positions the state
  speaks about are positions of \<open>B\<close>.
\<close>

definition select_next :: "select_state \<Rightarrow> bool \<Rightarrow> nat list \<Rightarrow> bool \<Rightarrow> select_state" where
  "select_next s cl added removed =
     (let i = last (sn_w s);
          s1 = s\<lparr>sn_w := butlast (sn_w s), sn_c := (sn_c s)[i := (sn_c s ! i)\<lparr>hc_closer := cl\<rparr>],
                 sn_added := added, sn_removedAny := removed\<rparr>
      in if cl then s1\<lparr>sn_r := sn_r s @ [i]\<rparr> else s1\<lparr>sn_wd := sn_wd s @ [i]\<rparr>)"

definition names_ok :: "bare_candidate list \<Rightarrow> select_state \<Rightarrow> bool" where
  "names_ok B s \<longleftrightarrow>
     map bare (sn_c s) = B \<and>
     (\<forall>i \<in> set (sn_w s) \<union> set (sn_r s) \<union> set (sn_wd s) \<union> set (sn_added s). i < length B)"

lemma select_next_simps [simp]:
  "sn_w (select_next s cl added removed) = butlast (sn_w s)"
  "sn_r (select_next s cl added removed) = (if cl then sn_r s @ [last (sn_w s)] else sn_r s)"
  "sn_wd (select_next s cl added removed) = (if cl then sn_wd s else sn_wd s @ [last (sn_w s)])"
  "sn_added (select_next s cl added removed) = added"
  "sn_removedAny (select_next s cl added removed) = removed"
  "sn_c (select_next s cl added removed) =
     (sn_c s)[last (sn_w s) := (sn_c s ! last (sn_w s))\<lparr>hc_closer := cl\<rparr>]"
  by (simp_all add: select_next_def Let_def)

lemma select_step_next:
  "update_closer mem support mc nc (last (sn_w s)) (s\<lparr>sn_w := butlast (sn_w s)\<rparr>) = Inr (cl, added, removed) \<Longrightarrow>
     select_step mem support mc nc s = Inr (select_next s cl added removed)"
  by (simp add: select_step_def select_next_def Let_def)

lemma select_step_Inr:
  assumes "select_step mem support mc nc s = Inr s'"
  shows "\<exists>cl added removed. s' = select_next s cl added removed"
proof (cases "update_closer mem support mc nc (last (sn_w s)) (s\<lparr>sn_w := butlast (sn_w s)\<rparr>)")
  case (Inl e)
  with assms show ?thesis by (simp add: select_step_def Let_def)
next
  case (Inr u)
  obtain cl added removed where "u = (cl, added, removed)" by (rule prod_cases3)
  with Inr have "select_step mem support mc nc s = Inr (select_next s cl added removed)"
    by (intro select_step_next) simp
  with assms show ?thesis by auto
qed

lemma names_ok_last: "names_ok B s \<Longrightarrow> sn_w s \<noteq> [] \<Longrightarrow> last (sn_w s) < length B"
  by (simp add: names_ok_def)

lemma names_ok_next:
  assumes "names_ok B s" "sn_w s \<noteq> []" "set added \<subseteq> insert (last (sn_w s)) (set (sn_added s))"
  shows "names_ok B (select_next s cl added removed)"
proof -
  have "map bare ((sn_c s)[last (sn_w s) := (sn_c s ! last (sn_w s))\<lparr>hc_closer := cl\<rparr>]) = B"
  proof -
    have B: "map bare (sn_c s) = B" using assms(1) by (simp add: names_ok_def)
    then have "last (sn_w s) < length (sn_c s)" using names_ok_last [OF assms(1,2)] by auto
    then have "bare (sn_c s ! last (sn_w s)) = B ! last (sn_w s)" using B by auto
    then show ?thesis by (simp add: map_update B)
  qed
  moreover have "last (sn_w s) < length B" by (rule names_ok_last [OF assms(1,2)])
  ultimately show ?thesis
    using assms by (auto simp: names_ok_def subset_iff dest: in_set_butlastD)
qed

text \<open>
  The rule of the main loop: if under an invariant each round decides as the heuristic does, the loop
  computes the heuristic. \<open>closer_now\<close> is that decision.
\<close>

definition closer_now ::
  "'v memory \<Rightarrow> 'v HnswSupport \<Rightarrow> bare_candidate list \<Rightarrow> nat \<Rightarrow> nat list \<Rightarrow> bool" where
  "closer_now mem support B i r \<longleftrightarrow> (\<forall>j \<in> set r. \<not> too_close mem support (B ! i) (B ! j))"

lemma select_loop_heuristic:
  assumes step: "\<And>s. I s \<Longrightarrow> sn_w s \<noteq> [] \<Longrightarrow> length (sn_r s) < lm \<Longrightarrow>
      \<exists>added removed. update_closer mem support mc nc (last (sn_w s)) (s\<lparr>sn_w := butlast (sn_w s)\<rparr>) =
          Inr (closer_now mem support B (last (sn_w s)) (sn_r s), added, removed) \<and>
        I (select_next s (closer_now mem support B (last (sn_w s)) (sn_r s)) added removed)"
  shows "I s \<Longrightarrow> \<exists>s'. select_loop mem support lm mc nc s = Inr s' \<and> I s' \<and>
    heuristic (\<lambda>i j. too_close mem support (B ! i) (B ! j)) lm (rev (sn_w s)) (sn_r s) (sn_wd s) =
      (sn_r s', sn_wd s', rev (sn_w s'))"
proof (induction "length (sn_w s)" arbitrary: s)
  case 0
  then show ?case by (subst select_loop.simps) auto
next
  case (Suc n)
  then have ne: "sn_w s \<noteq> []" by auto
  then have w: "rev (sn_w s) = last (sn_w s) # rev (butlast (sn_w s))"
    by (metis append_butlast_last_id rev_eq_Cons_iff rev_rev_ident)
  show ?case
  proof (cases "length (sn_r s) < lm")
    case True
    let ?cl = "closer_now mem support B (last (sn_w s)) (sn_r s)"
    from step [OF Suc.prems ne True] obtain added removed where
      u: "update_closer mem support mc nc (last (sn_w s)) (s\<lparr>sn_w := butlast (sn_w s)\<rparr>) = Inr (?cl, added, removed)"
      and I': "I (select_next s ?cl added removed)"
      by blast
    have "select_loop mem support lm mc nc s = select_loop mem support lm mc nc (select_next s ?cl added removed)"
      using ne True by (subst select_loop.simps) (simp add: select_step_next [OF u])
    moreover have "n = length (sn_w (select_next s ?cl added removed))" using Suc.hyps(2) by simp
    ultimately show ?thesis
      using Suc.hyps(1) [OF _ I'] True by (auto simp: w closer_now_def split: if_splits)
  next
    case False
    with ne Suc.prems show ?thesis by (subst select_loop.simps) (auto simp: w)
  qed
qed

text \<open>Without a cache every flag is computed.\<close>

lemma names_ok_check:
  assumes "names_ok B s" "i < length B" "values_ok mem support (set B)" "\<forall>j \<in> set r. j < length B"
  shows "CheckElementCloser mem (sn_c s ! i) (map ((!) (sn_c s)) r) support = Inr (closer_now mem support B i r)"
proof -
  have len: "length (sn_c s) = length B" and nm: "j < length B \<Longrightarrow> bare (sn_c s ! j) = B ! j" for j
    using assms(1) by (auto simp: names_ok_def)
  show ?thesis
    using assms(2,4) len by (subst CheckElementCloser_ok [OF assms(3)]) (auto simp: closer_now_def nm)
qed

lemma fresh_decides:
  assumes "names_ok B s" "sn_w s \<noteq> []" "values_ok mem support (set B)"
  shows "update_closer mem support True nc (last (sn_w s)) (s\<lparr>sn_w := butlast (sn_w s)\<rparr>) =
    Inr (closer_now mem support B (last (sn_w s)) (sn_r s), sn_added s, sn_removedAny s)"
  using names_ok_check [OF assms(1) names_ok_last [OF assms(1,2)] assms(3), of "sn_r s"] assms(1)
  by (simp add: update_closer_def names_ok_def)

lemma fresh_loop:
  assumes "names_ok B s" "values_ok mem support (set B)"
  shows "\<exists>s'. select_loop mem support lm True nc s = Inr s' \<and> names_ok B s' \<and>
    heuristic (\<lambda>i j. too_close mem support (B ! i) (B ! j)) lm (rev (sn_w s)) (sn_r s) (sn_wd s) =
      (sn_r s', sn_wd s', rev (sn_w s'))"
  by (rule select_loop_heuristic [where I = "names_ok B", OF _ assms(1)])
    (simp add: fresh_decides [OF _ _ assms(2)] names_ok_next subset_insertI)

subsection \<open>The cached flags\<close>

text \<open>
  \<open>heuristic_r\<close> is the selection without a limit. The cache is valid for candidates in the order \<open>xs\<close>
  when the flag of each says whether it is selected. The positions other than \<open>n\<close>, that of the new
  candidate, carry a valid cache.
\<close>

fun heuristic_r :: "('a \<Rightarrow> 'a \<Rightarrow> bool) \<Rightarrow> 'a list \<Rightarrow> 'a list \<Rightarrow> 'a list" where
  "heuristic_r T [] r = r"
| "heuristic_r T (x # xs) r = heuristic_r T xs (if \<forall>y \<in> set r. \<not> T x y then r @ [x] else r)"

lemma heuristic_r_append: "heuristic_r T (xs @ ys) r = heuristic_r T ys (heuristic_r T xs r)"
  by (induction xs arbitrary: r) auto

lemma heuristic_r_set: "set r \<subseteq> set (heuristic_r T xs r) \<and> set (heuristic_r T xs r) \<subseteq> set r \<union> set xs"
proof (induction xs arbitrary: r)
  case (Cons x xs)
  from Cons [of "if \<forall>y \<in> set r. \<not> T x y then r @ [x] else r"] show ?case by (auto split: if_splits)
qed simp

text \<open>Whether a candidate is selected is decided when it is processed.\<close>

lemma heuristic_r_member:
  assumes "distinct (xs @ x # ys)" "x \<notin> set r"
  shows "x \<in> set (heuristic_r T (xs @ x # ys) r) \<longleftrightarrow> (\<forall>y \<in> set (heuristic_r T xs r). \<not> T x y)"
  using assms heuristic_r_set [of r T xs] heuristic_r_set [of "heuristic_r T xs r" T ys]
    heuristic_r_set [of "heuristic_r T xs r @ [x]" T ys]
  by (auto simp: heuristic_r_append subset_iff)

text \<open>
  The invariant of a run that uses the cache. \<open>p\<close> are the positions processed so far without the new one,
  \<open>r0\<close> is what the heuristic selects from them. Once a candidate was added, the current selection
  consists of old selected ones and added ones, and contains all old selected ones until one was
  removed.
\<close>

definition cache_inv ::
  "'v memory \<Rightarrow> 'v HnswSupport \<Rightarrow> bare_candidate list \<Rightarrow> nat list \<Rightarrow> nat \<Rightarrow> select_state \<Rightarrow> bool" where
  "cache_inv mem support B os n s \<longleftrightarrow>
     names_ok B s \<and>
     (\<exists>p. os = p @ rev (sn_w s) \<and>
       (let T = (\<lambda>i j. too_close mem support (B ! i) (B ! j));
            r0 = heuristic_r T (filter (\<lambda>i. i \<noteq> n) p) []
        in (\<forall>i \<in> set (sn_w s). i \<noteq> n \<longrightarrow>
              (hc_closer (sn_c s ! i) \<longleftrightarrow> i \<in> set (heuristic_r T (filter (\<lambda>i. i \<noteq> n) os) []))) \<and>
           set (sn_added s) \<subseteq> set (sn_r s) \<and> set (sn_r s) \<subseteq> set r0 \<union> set (sn_added s) \<and>
           (\<not> sn_removedAny s \<longrightarrow> set r0 \<subseteq> set (sn_r s)) \<and>
           (sn_added s = [] \<longrightarrow> \<not> sn_removedAny s) \<and> (n \<in> set (sn_w s) \<longrightarrow> sn_added s = [])))"

lemma cache_inv_cases:
  assumes inv: "cache_inv mem support B os n s" and ne: "sn_w s \<noteq> []" and dist: "distinct os"
  obtains p where "os = p @ last (sn_w s) # rev (butlast (sn_w s))" "last (sn_w s) \<notin> set (butlast (sn_w s))"
    "last (sn_w s) \<noteq> n \<Longrightarrow> hc_closer (sn_c s ! last (sn_w s)) \<longleftrightarrow>
       (\<forall>y \<in> set (heuristic_r (\<lambda>i j. too_close mem support (B ! i) (B ! j)) (filter (\<lambda>i. i \<noteq> n) p) []).
          \<not> too_close mem support (B ! last (sn_w s)) (B ! y))"
    "set (sn_r s) \<subseteq> set (heuristic_r (\<lambda>i j. too_close mem support (B ! i) (B ! j)) (filter (\<lambda>i. i \<noteq> n) p) [])
       \<union> set (sn_added s)"
    "\<not> sn_removedAny s \<Longrightarrow>
       set (heuristic_r (\<lambda>i j. too_close mem support (B ! i) (B ! j)) (filter (\<lambda>i. i \<noteq> n) p) []) \<subseteq> set (sn_r s)"
proof -
  let ?i = "last (sn_w s)" and ?T = "\<lambda>i j. too_close mem support (B ! i) (B ! j)"
  have w: "rev (sn_w s) = ?i # rev (butlast (sn_w s))"
    using ne by (metis append_butlast_last_id rev_eq_Cons_iff rev_rev_ident)
  from inv obtain p where os: "os = p @ rev (sn_w s)"
    and fl: "\<forall>i \<in> set (sn_w s). i \<noteq> n \<longrightarrow>
      (hc_closer (sn_c s ! i) \<longleftrightarrow> i \<in> set (heuristic_r ?T (filter (\<lambda>i. i \<noteq> n) os) []))"
    and r: "set (sn_r s) \<subseteq> set (heuristic_r ?T (filter (\<lambda>i. i \<noteq> n) p) []) \<union> set (sn_added s)"
      "\<not> sn_removedAny s \<longrightarrow> set (heuristic_r ?T (filter (\<lambda>i. i \<noteq> n) p) []) \<subseteq> set (sn_r s)"
    by (auto simp: cache_inv_def Let_def)
  have "hc_closer (sn_c s ! ?i) \<longleftrightarrow>
      (\<forall>y \<in> set (heuristic_r ?T (filter (\<lambda>i. i \<noteq> n) p) []). \<not> ?T ?i y)" if n: "?i \<noteq> n"
  proof -
    have f: "filter (\<lambda>i. i \<noteq> n) os =
        filter (\<lambda>i. i \<noteq> n) p @ ?i # filter (\<lambda>i. i \<noteq> n) (rev (butlast (sn_w s)))"
      using os w n by simp
    have "distinct (filter (\<lambda>i. i \<noteq> n) p @ ?i # filter (\<lambda>i. i \<noteq> n) (rev (butlast (sn_w s))))"
      using distinct_filter [OF dist, of "\<lambda>i. i \<noteq> n"] unfolding f .
    from heuristic_r_member [OF this, of "[]" ?T] fl n ne show ?thesis unfolding f by simp
  qed
  with os r w dist show thesis by (intro that) auto
qed

lemma cached_decides:
  assumes inv: "cache_inv mem support B os n s" and ne: "sn_w s \<noteq> []" and dist: "distinct os"
    and vals: "values_ok mem support (set B)"
  defines "i \<equiv> last (sn_w s)" and "cl \<equiv> closer_now mem support B (last (sn_w s)) (sn_r s)"
  obtains added removed where
    "update_closer mem support False (Some n) i (s\<lparr>sn_w := butlast (sn_w s)\<rparr>) = Inr (cl, added, removed)"
    "sn_added s = [] \<and> i \<noteq> n \<and> added = [] \<and> removed = sn_removedAny s \<and> cl = hc_closer (sn_c s ! i) \<or>
     sn_added s = [] \<and> i = n \<and> added = (if cl then [i] else []) \<and> removed = sn_removedAny s \<or>
     sn_added s \<noteq> [] \<and> i \<noteq> n \<and> hc_closer (sn_c s ! i) \<and> added = sn_added s \<and>
       removed = (sn_removedAny s \<or> \<not> cl) \<or>
     sn_added s \<noteq> [] \<and> i \<noteq> n \<and> \<not> hc_closer (sn_c s ! i) \<and> added = (if cl then sn_added s @ [i] else sn_added s) \<and>
       removed = sn_removedAny s"
proof -
  from inv have nm: "names_ok B s" and ad: "set (sn_added s) \<subseteq> set (sn_r s)"
    "sn_added s = [] \<longrightarrow> \<not> sn_removedAny s" "n \<in> set (sn_w s) \<longrightarrow> sn_added s = []"
    by (auto simp: cache_inv_def Let_def)
  obtain p where p: "os = p @ i # rev (butlast (sn_w s))"
    and fl: "i \<noteq> n \<Longrightarrow> hc_closer (sn_c s ! i) \<longleftrightarrow>
       (\<forall>y \<in> set (heuristic_r (\<lambda>i j. too_close mem support (B ! i) (B ! j)) (filter (\<lambda>i. i \<noteq> n) p) []).
          \<not> too_close mem support (B ! i) (B ! y))"
    and r: "set (sn_r s) \<subseteq> set (heuristic_r (\<lambda>i j. too_close mem support (B ! i) (B ! j)) (filter (\<lambda>i. i \<noteq> n) p) [])
       \<union> set (sn_added s)"
    "\<not> sn_removedAny s \<Longrightarrow>
       set (heuristic_r (\<lambda>i j. too_close mem support (B ! i) (B ! j)) (filter (\<lambda>i. i \<noteq> n) p) []) \<subseteq> set (sn_r s)"
    using cache_inv_cases [OF inv ne dist] unfolding i_def by blast
  have il: "i < length B" unfolding i_def by (rule names_ok_last [OF nm ne])
  have chk: "CheckElementCloser mem (sn_c s ! i) (map ((!) (sn_c s)) (sn_r s)) support = Inr cl"
    "CheckElementCloser mem (sn_c s ! i) (map ((!) (sn_c s)) (sn_added s)) support =
       Inr (closer_now mem support B i (sn_added s))"
    using names_ok_check [OF nm il vals] nm by (simp_all add: names_ok_def cl_def i_def)
  have iw: "i \<in> set (sn_w s)" using ne by (simp add: i_def)
  have added_only: "hc_closer (sn_c s ! i) \<Longrightarrow> i \<noteq> n \<Longrightarrow> closer_now mem support B i (sn_added s) = cl"
    using fl r(1) ad(1) unfolding cl_def closer_now_def i_def by blast
  have no_added: "sn_added s = [] \<Longrightarrow> i \<noteq> n \<Longrightarrow> hc_closer (sn_c s ! i) = cl"
    using fl r ad(2) unfolding cl_def closer_now_def i_def by auto
  have kept: "\<not> hc_closer (sn_c s ! i) \<Longrightarrow> i \<noteq> n \<Longrightarrow> \<not> sn_removedAny s \<Longrightarrow> \<not> cl"
    using fl r(2) unfolding cl_def closer_now_def i_def by blast
  consider "sn_added s = []" "i = n" | "sn_added s = []" "i \<noteq> n" | "sn_added s \<noteq> []" "i \<noteq> n"
    using ad(3) iw by blast
  then show thesis
  proof cases
    case 1
    show ?thesis
      by (rule that [of "if cl then [i] else []" "sn_removedAny s"])
        (use 1 chk in \<open>auto simp: update_closer_def Let_def\<close>)
  next
    case 2
    show ?thesis
      by (rule that [of "[]" "sn_removedAny s"])
        (use 2 no_added in \<open>auto simp: update_closer_def Let_def\<close>)
  next
    case 3
    show ?thesis
    proof (cases "hc_closer (sn_c s ! i)")
      case True
      show ?thesis
        by (rule that [of "sn_added s" "sn_removedAny s \<or> \<not> cl"])
          (use 3 True chk(2) added_only in \<open>auto simp: update_closer_def Let_def\<close>)
    next
      case False
      show ?thesis
        by (rule that [of "if cl then sn_added s @ [i] else sn_added s" "sn_removedAny s"])
          (use 3 False chk(1) kept in \<open>auto simp: update_closer_def Let_def\<close>)
    qed
  qed
qed

lemma cache_inv_next:
  assumes inv: "cache_inv mem support B os n s" and ne: "sn_w s \<noteq> []" and dist: "distinct os"
    and cases: "sn_added s = [] \<and> last (sn_w s) \<noteq> n \<and> added = [] \<and> removed = sn_removedAny s \<and>
        cl = hc_closer (sn_c s ! last (sn_w s)) \<or>
      sn_added s = [] \<and> last (sn_w s) = n \<and> added = (if cl then [last (sn_w s)] else []) \<and>
        removed = sn_removedAny s \<or>
      sn_added s \<noteq> [] \<and> last (sn_w s) \<noteq> n \<and> hc_closer (sn_c s ! last (sn_w s)) \<and> added = sn_added s \<and>
        removed = (sn_removedAny s \<or> \<not> cl) \<or>
      sn_added s \<noteq> [] \<and> last (sn_w s) \<noteq> n \<and> \<not> hc_closer (sn_c s ! last (sn_w s)) \<and>
        added = (if cl then sn_added s @ [last (sn_w s)] else sn_added s) \<and> removed = sn_removedAny s"
  shows "cache_inv mem support B os n (select_next s cl added removed)"
proof -
  let ?i = "last (sn_w s)" and ?s' = "select_next s cl added removed"
  let ?T = "\<lambda>i j. too_close mem support (B ! i) (B ! j)"
  let ?F = "filter (\<lambda>i. i \<noteq> n)"
  obtain p where p: "os = p @ ?i # rev (butlast (sn_w s))" "?i \<notin> set (butlast (sn_w s))"
    and fl: "?i \<noteq> n \<Longrightarrow> hc_closer (sn_c s ! ?i) \<longleftrightarrow> (\<forall>y \<in> set (heuristic_r ?T (?F p) []). \<not> ?T ?i y)"
    and r: "set (sn_r s) \<subseteq> set (heuristic_r ?T (?F p) []) \<union> set (sn_added s)"
      "\<not> sn_removedAny s \<Longrightarrow> set (heuristic_r ?T (?F p) []) \<subseteq> set (sn_r s)"
    using cache_inv_cases [OF inv ne dist] by blast
  from inv have nm: "names_ok B s" and ad: "set (sn_added s) \<subseteq> set (sn_r s)"
    "sn_added s = [] \<longrightarrow> \<not> sn_removedAny s" "n \<in> set (sn_w s) \<longrightarrow> sn_added s = []"
    and flags: "\<forall>i \<in> set (sn_w s). i \<noteq> n \<longrightarrow>
      (hc_closer (sn_c s ! i) \<longleftrightarrow> i \<in> set (heuristic_r ?T (?F os) []))"
    by (auto simp: cache_inv_def Let_def)
  have r0: "heuristic_r ?T (?F (p @ [?i])) [] =
      (if ?i \<noteq> n \<and> hc_closer (sn_c s ! ?i) then heuristic_r ?T (?F p) [] @ [?i] else heuristic_r ?T (?F p) [])"
    using fl by (simp add: heuristic_r_append)
  have nw: "n \<in> set (butlast (sn_w s)) \<Longrightarrow> added = []"
    using cases ad(3) p(2) by (auto dest: in_set_butlastD)
  have "names_ok B ?s'"
    by (rule names_ok_next [OF nm ne]) (use cases in \<open>auto split: if_splits\<close>)
  moreover have "os = (p @ [?i]) @ rev (sn_w ?s')" using p(1) by simp
  moreover have "\<forall>i \<in> set (sn_w ?s'). i \<noteq> n \<longrightarrow>
      (hc_closer (sn_c ?s' ! i) \<longleftrightarrow> i \<in> set (heuristic_r ?T (?F os) []))"
  proof (intro ballI impI)
    fix j
    assume j: "j \<in> set (sn_w ?s')" "j \<noteq> n"
    then have "?i \<noteq> j" using p(2) by auto
    then show "hc_closer (sn_c ?s' ! j) \<longleftrightarrow> j \<in> set (heuristic_r ?T (?F os) [])"
      using flags j by (auto dest: in_set_butlastD)
  qed
  moreover have "set (sn_added ?s') \<subseteq> set (sn_r ?s')"
    using cases ad(1) by (auto split: if_splits)
  moreover have "set (sn_r ?s') \<subseteq> set (heuristic_r ?T (?F (p @ [?i])) []) \<union> set (sn_added ?s')"
    using cases r(1) unfolding r0 by (auto split: if_splits)
  moreover have "\<not> sn_removedAny ?s' \<longrightarrow> set (heuristic_r ?T (?F (p @ [?i])) []) \<subseteq> set (sn_r ?s')"
    using cases r(2) unfolding r0 by (auto split: if_splits)
  moreover have "sn_added ?s' = [] \<longrightarrow> \<not> sn_removedAny ?s'" using cases ad(2) by (auto split: if_splits)
  moreover have "n \<in> set (sn_w ?s') \<longrightarrow> sn_added ?s' = []" using nw by simp
  ultimately show ?thesis unfolding cache_inv_def Let_def by blast
qed

lemma cached_loop:
  assumes "cache_inv mem support B os n s" "distinct os" "values_ok mem support (set B)"
  shows "\<exists>s'. select_loop mem support lm False (Some n) s = Inr s' \<and> cache_inv mem support B os n s' \<and>
    heuristic (\<lambda>i j. too_close mem support (B ! i) (B ! j)) lm (rev (sn_w s)) (sn_r s) (sn_wd s) =
      (sn_r s', sn_wd s', rev (sn_w s'))"
proof (rule select_loop_heuristic [where I = "cache_inv mem support B os n", OF _ assms(1)])
  fix s
  assume s: "cache_inv mem support B os n s" "sn_w s \<noteq> []"
  show "\<exists>added removed. update_closer mem support False (Some n) (last (sn_w s)) (s\<lparr>sn_w := butlast (sn_w s)\<rparr>) =
        Inr (closer_now mem support B (last (sn_w s)) (sn_r s), added, removed) \<and>
      cache_inv mem support B os n (select_next s (closer_now mem support B (last (sn_w s)) (sn_r s)) added removed)"
    by (rule cached_decides [OF s assms(2,3)]) (use cache_inv_next [OF s assms(2)] in blast)
qed

subsection \<open>What a run leaves\<close>

text \<open>
  The positions to process, selected and discarded stay a partition; the processed candidates carry
  their decision in their flag.
\<close>

definition select_part :: "nat list \<Rightarrow> select_state \<Rightarrow> bool" where
  "select_part os s \<longleftrightarrow>
     mset (sn_w s) + mset (sn_r s) + mset (sn_wd s) = mset os \<and>
     length (sn_c s) = length os \<and>
     (\<forall>i \<in> set (sn_r s). hc_closer (sn_c s ! i)) \<and> (\<forall>i \<in> set (sn_wd s). \<not> hc_closer (sn_c s ! i))"

lemma select_part_next:
  assumes p: "select_part os s" and ne: "sn_w s \<noteq> []" and os: "distinct os" "set os = {..<length os}"
  shows "select_part os (select_next s cl added removed)"
proof -
  let ?i = "last (sn_w s)"
  have "mset (sn_w s) = mset (butlast (sn_w s) @ [?i])" using ne by simp
  then have w: "mset (sn_w s) = add_mset ?i (mset (butlast (sn_w s)))" by simp
  have part: "add_mset ?i (mset (butlast (sn_w s))) + mset (sn_r s) + mset (sn_wd s) = mset os"
    using p w by (simp add: select_part_def)
  then have "mset (?i # butlast (sn_w s) @ sn_r s @ sn_wd s) = mset os" by (simp add: ac_simps)
  then have "distinct (?i # butlast (sn_w s) @ sn_r s @ sn_wd s)"
    "set (?i # butlast (sn_w s) @ sn_r s @ sn_wd s) = {..<length os}"
    using os by (metis mset_eq_imp_distinct_iff, metis mset_eq_setD)
  then have i: "?i \<notin> set (sn_r s)" "?i \<notin> set (sn_wd s)" "?i < length (sn_c s)"
    using p by (auto simp: select_part_def)
  have same: "\<And>j. j \<noteq> ?i \<Longrightarrow> sn_c (select_next s cl added removed) ! j = sn_c s ! j" by simp
  show ?thesis
    using p part i unfolding select_part_def by (auto simp: nth_list_update ac_simps)
qed

lemma select_loop_part:
  assumes "select_loop mem support lm mc nc s = Inr s'" "select_part os s" "distinct os"
    "set os = {..<length os}" "length (sn_r s) \<le> lm"
  shows "select_part os s' \<and> (sn_w s' = [] \<or> length (sn_r s') = lm) \<and> length (sn_r s') \<le> lm"
  using assms
proof (induction mem support lm mc nc s rule: select_loop.induct)
  case (1 mem support lm mc nc s)
  show ?case
  proof (cases "sn_w s \<noteq> [] \<and> length (sn_r s) < lm")
    case True
    with 1(2) obtain s1 where s1: "select_step mem support mc nc s = Inr s1"
      "select_loop mem support lm mc nc s1 = Inr s'"
      by (subst (asm) select_loop.simps) auto
    then obtain cl added removed where "s1 = select_next s cl added removed"
      using select_step_Inr by blast
    then have "select_part os s1" "length (sn_r s1) \<le> lm"
      using select_part_next [OF 1(3) _ 1(4,5)] True by auto
    then show ?thesis by (intro 1(1) [OF True s1(1) s1(2)] 1(4,5))
  next
    case False
    then have "s' = s" using 1(2) by (subst (asm) select_loop.simps) (auto split: if_splits)
    with False 1(3,6) show ?thesis by auto
  qed
qed

subsection \<open>Sorting the candidates\<close>

lemma mset_sort_insert [simp]: "mset (sort_insert cmp x xs) = add_mset x (mset xs)"
  by (induction xs) auto

lemma mset_list_sort [simp]: "mset (list_sort cmp xs) = mset xs"
  unfolding list_sort_def by (induction xs) auto

lemma set_list_sort [simp]: "set (list_sort cmp xs) = set xs"
  by (metis mset_list_sort set_mset_mset)

lemma distinct_list_sort [simp]: "distinct (list_sort cmp xs) = distinct xs"
  by (metis mset_list_sort mset_eq_imp_distinct_iff)

lemma length_list_sort [simp]: "length (list_sort cmp xs) = length xs"
  by (metis mset_list_sort size_mset)

lemma sort_insert_sorted:
  fixes K :: "'a \<Rightarrow> 'k::linorder"
  assumes "sorted_wrt (\<lambda>x y. K y \<le> K x) xs" "\<And>y. y \<in> set xs \<Longrightarrow> cmp x y \<le> 0 \<longleftrightarrow> K y \<le> K x"
  shows "sorted_wrt (\<lambda>x y. K y \<le> K x) (sort_insert cmp x xs)"
  using assms
proof (induction xs)
  case (Cons y ys)
  have s: "set (sort_insert cmp x ys) = insert x (set ys)"
    by (metis mset_sort_insert set_mset_add_mset_insert set_mset_mset)
  show ?case
  proof (cases "cmp x y \<le> 0")
    case True
    with Cons.prems show ?thesis by (auto intro: order_trans)
  next
    case False
    with Cons.prems(2) [of y] have "K x \<le> K y" by auto
    with Cons False s show ?thesis by auto
  qed
qed simp

lemma list_sort_sorted:
  fixes K :: "'a \<Rightarrow> 'k::linorder"
  assumes "\<And>x y. x \<in> set xs \<Longrightarrow> y \<in> set xs \<Longrightarrow> cmp x y \<le> 0 \<longleftrightarrow> K y \<le> K x"
  shows "sorted_wrt (\<lambda>x y. K y \<le> K x) (list_sort cmp xs)"
  using assms
proof (induction xs)
  case (Cons x xs)
  have l: "list_sort cmp (x # xs) = sort_insert cmp x (list_sort cmp xs)" by (simp add: list_sort_def)
  show ?case
    unfolding l by (rule sort_insert_sorted) (use Cons in auto)
qed (simp add: list_sort_def)

text \<open>A list sorted strictly by a key is determined by its elements.\<close>

lemma sorted_key_unique:
  fixes K :: "'a \<Rightarrow> 'k::linorder"
  assumes "sorted_wrt (\<lambda>x y. K y \<le> K x) xs" "sorted_wrt (\<lambda>x y. K y \<le> K x) ys"
    and "set xs = set ys" "inj_on K (set xs)" "distinct xs" "distinct ys"
  shows "xs = ys"
proof -
  have "sorted (map K (rev zs))" if "sorted_wrt (\<lambda>x y. K y \<le> K x) zs" for zs
    using that by (simp add: sorted_map sorted_wrt_rev)
  moreover have "distinct (map K (rev xs))" "distinct (map K (rev ys))"
    using assms(3-6) by (simp_all add: distinct_map)
  moreover have "set (map K (rev xs)) = set (map K (rev ys))" using assms(3) by simp
  ultimately have "map K (rev xs) = map K (rev ys)"
    using sorted_distinct_set_unique assms(1,2) by blast
  then have "rev xs = rev ys" using assms(3,4) by (simp add: inj_on_map_eq_map)
  then show ?thesis by simp
qed

definition cand_key :: "bare_candidate \<Rightarrow> int \<times> eptr" where
  "cand_key b = (float4_key (snd b), fst b)"

lemma Compare_key:
  assumes "\<not> float4_isnan (hc_distance x)" "\<not> float4_isnan (hc_distance y)"
  shows "CompareCandidateDistances x y \<le> 0 \<longleftrightarrow> cand_key (bare y) \<le> cand_key (bare x)"
  using assms by (auto simp: CompareCandidateDistances_def cand_key_def bare_def float_key_simps less_eq_prod_def)

text \<open>Candidates with numeric distances and different elements.\<close>

definition sortable :: "HnswCandidate list \<Rightarrow> bool" where
  "sortable c \<longleftrightarrow> distinct (map hc_element c) \<and> (\<forall>x \<in> set c. \<not> float4_isnan (hc_distance x))"

definition cand_order :: "HnswCandidate list \<Rightarrow> nat list" where
  "cand_order c = list_sort (\<lambda>i j. CompareCandidateDistances (c ! i) (c ! j)) [0..<length c]"

lemma cand_order_sorted:
  assumes "sortable c"
  shows "sorted_wrt (\<lambda>i j. cand_key (bare (c ! j)) \<le> cand_key (bare (c ! i))) (cand_order c)"
    "inj_on (\<lambda>i. cand_key (bare (c ! i))) {..<length c}"
proof -
  show "sorted_wrt (\<lambda>i j. cand_key (bare (c ! j)) \<le> cand_key (bare (c ! i))) (cand_order c)"
    unfolding cand_order_def
    by (rule list_sort_sorted) (use assms in \<open>auto simp: sortable_def Compare_key\<close>)
  show "inj_on (\<lambda>i. cand_key (bare (c ! i))) {..<length c}"
  proof (rule inj_onI)
    fix i j
    assume "i \<in> {..<length c}" "j \<in> {..<length c}" "cand_key (bare (c ! i)) = cand_key (bare (c ! j))"
    then have "map hc_element c ! i = map hc_element c ! j" "i < length c" "j < length c"
      by (auto simp: cand_key_def bare_def)
    with assms show "i = j" by (simp add: sortable_def distinct_conv_nth) (metis length_map)
  qed
qed

lemma cand_order_simps [simp]:
  "set (cand_order c) = {..<length c}" "distinct (cand_order c)" "length (cand_order c) = length c"
  "mset (cand_order c) = mset [0..<length c]"
  by (auto simp: cand_order_def)

subsection \<open>The selection as the paper states it\<close>

text \<open>
  \<open>choose_neighbors\<close>: the candidates from the nearest on (ties by the element) through the heuristic,
  filled up to \<open>lm\<close> with the nearest discarded ones.
\<close>

definition choose_neighbors ::
  "'v memory \<Rightarrow> 'v HnswSupport \<Rightarrow> nat \<Rightarrow> bare_candidate list \<Rightarrow> bare_candidate list" where
  "choose_neighbors mem support lm xs =
     (case heuristic (too_close mem support) lm xs [] [] of (r, wd, _) \<Rightarrow> r @ take (lm - length r) wd)"

lemma heuristic_map:
  "heuristic T lm (map f xs) (map f r) (map f wd) =
     (case heuristic (\<lambda>i j. T (f i) (f j)) lm xs r wd of (a, b, c) \<Rightarrow> (map f a, map f b, map f c))"
proof (induction xs arbitrary: r wd)
  case (Cons x xs)
  from Cons [of "r @ [x]" wd] Cons [of r "wd @ [x]"] show ?case by simp
qed simp

lemma heuristic_r_map: "heuristic_r T (map f xs) (map f r) = map f (heuristic_r (\<lambda>i j. T (f i) (f j)) xs r)"
proof (induction xs arbitrary: r)
  case (Cons x xs)
  from Cons [of "r @ [x]"] Cons [of r] show ?case by simp
qed simp

text \<open>The limited and the unlimited selection agree on the candidates that were processed.\<close>

lemma heuristic_r_of:
  assumes "heuristic T lm xs r wd = (r', wd', rest)"
  shows "\<exists>p. xs = p @ rest \<and> heuristic_r T p r = r'"
  using assms
proof (induction xs arbitrary: r wd)
  case (Cons x xs)
  let ?sel = "\<forall>y \<in> set r. \<not> T x y"
  show ?case
  proof (cases "length r < lm")
    case True
    with Cons.prems have "\<exists>wd1. heuristic T lm xs (if ?sel then r @ [x] else r) wd1 = (r', wd', rest)"
      by (auto split: if_splits)
    then obtain p where "xs = p @ rest" "heuristic_r T p (if ?sel then r @ [x] else r) = r'"
      using Cons.IH by blast
    then show ?thesis by (intro exI [of _ "x # p"]) simp
  next
    case False
    with Cons.prems show ?thesis by auto
  qed
qed auto

lemma heuristic_r_remove:
  "k \<notin> set (heuristic_r T xs r) \<Longrightarrow> heuristic_r T (filter (\<lambda>i. i \<noteq> k) xs) r = heuristic_r T xs r"
proof (induction xs arbitrary: r)
  case (Cons x xs)
  have "k \<in> set (heuristic_r T xs (r @ [k]))" using heuristic_r_set [of "r @ [k]" T xs] by auto
  with Cons show ?case by (auto split: if_splits)
qed simp

text \<open>Both depend on the relation between the listed candidates only.\<close>

lemma heuristic_cong:
  assumes "\<And>i j. i \<in> set xs \<union> set r \<Longrightarrow> j \<in> set xs \<union> set r \<Longrightarrow> T i j = T' i j"
  shows "heuristic T lm xs r wd = heuristic T' lm xs r wd"
  using assms
proof (induction xs arbitrary: r wd)
  case (Cons x xs)
  have "(\<forall>y \<in> set r. \<not> T x y) \<longleftrightarrow> (\<forall>y \<in> set r. \<not> T' x y)" using Cons.prems by auto
  moreover have "heuristic T lm xs (r @ [x]) wd = heuristic T' lm xs (r @ [x]) wd"
    "heuristic T lm xs r (wd @ [x]) = heuristic T' lm xs r (wd @ [x])"
    by (rule Cons.IH; use Cons.prems in auto)+
  ultimately show ?case by simp
qed simp

lemma heuristic_r_cong:
  assumes "\<And>i j. i \<in> set xs \<union> set r \<Longrightarrow> j \<in> set xs \<union> set r \<Longrightarrow> T i j = T' i j"
  shows "heuristic_r T xs r = heuristic_r T' xs r"
  using assms
proof (induction xs arbitrary: r)
  case (Cons x xs)
  have "(\<forall>y \<in> set r. \<not> T x y) \<longleftrightarrow> (\<forall>y \<in> set r. \<not> T' x y)" using Cons.prems by auto
  moreover have "heuristic_r T xs (r @ [x]) = heuristic_r T' xs (r @ [x])"
    "heuristic_r T xs r = heuristic_r T' xs r"
    by (rule Cons.IH; use Cons.prems in auto)+
  ultimately show ?case by simp
qed simp

lemma cand_order_bare:
  assumes "sortable c"
  shows "map (\<lambda>i. bare (c ! i)) (rev (cand_order c)) = sort_key cand_key (map bare c)"
proof -
  let ?xs = "map (\<lambda>i. bare (c ! i)) (rev (cand_order c))"
  have m: "mset ?xs = mset (map bare c)"
  proof -
    have "mset ?xs = image_mset (\<lambda>i. bare (c ! i)) (mset [0..<length c])"
      by (simp only: mset_map mset_rev cand_order_simps)
    also have "\<dots> = mset (map bare (map ((!) c) [0..<length c]))"
      by (simp only: mset_map multiset.map_comp comp_def)
    finally show ?thesis by (simp only: map_nth)
  qed
  have s: "sorted (map cand_key ?xs)"
    using cand_order_sorted(1) [OF assms] by (simp add: sorted_map sorted_wrt_map sorted_wrt_rev)
  have "inj_on cand_key (set (map bare c))"
    using cand_order_sorted(2) [OF assms] by (fastforce simp: inj_on_def in_set_conv_nth)
  then show ?thesis using sort_key_inj_key_eq [OF m [symmetric] _ s] by simp
qed

subsection \<open>SelectNeighbors\<close>

text \<open>The flags of an array tell which of its candidates the heuristic selects from them.\<close>

definition cache_valid :: "'v memory \<Rightarrow> 'v HnswSupport \<Rightarrow> HnswCandidate list \<Rightarrow> bool" where
  "cache_valid mem support c \<longleftrightarrow>
     (\<forall>i < length c. hc_closer (c ! i) \<longleftrightarrow>
        i \<in> set (heuristic_r (\<lambda>i j. too_close mem support (bare (c ! i)) (bare (c ! j))) (rev (cand_order c)) []))"

definition select_start :: "HnswCandidate list \<Rightarrow> nat list \<Rightarrow> select_state" where
  "select_start c w = \<lparr>sn_c = c, sn_w = w, sn_r = [], sn_wd = [], sn_added = [], sn_removedAny = False\<rparr>"

lemma select_start_simps [simp]:
  "sn_c (select_start c w) = c" "sn_w (select_start c w) = w" "sn_r (select_start c w) = []"
  "sn_wd (select_start c w) = []" "sn_added (select_start c w) = []" "\<not> sn_removedAny (select_start c w)"
  by (simp_all add: select_start_def)

lemma cand_order_butlast:
  assumes "sortable (c @ [x])"
  shows "cand_order c = filter (\<lambda>i. i \<noteq> length c) (cand_order (c @ [x]))"
proof (rule sorted_key_unique)
  let ?K = "\<lambda>i. cand_key (bare (c ! i))" and ?K' = "\<lambda>i. cand_key (bare ((c @ [x]) ! i))"
  have c: "sortable c" using assms by (simp add: sortable_def)
  show "sorted_wrt (\<lambda>i j. ?K j \<le> ?K i) (cand_order c)" "inj_on ?K (set (cand_order c))"
    using cand_order_sorted [OF c] by simp_all
  have "sorted_wrt (\<lambda>i j. ?K' j \<le> ?K' i) (filter (\<lambda>i. i \<noteq> length c) (cand_order (c @ [x])))"
    by (rule sorted_wrt_filter, rule cand_order_sorted(1) [OF assms])
  then show "sorted_wrt (\<lambda>i j. ?K j \<le> ?K i) (filter (\<lambda>i. i \<noteq> length c) (cand_order (c @ [x])))"
    by (rule sorted_wrt_mono_rel [rotated]) (auto simp: nth_append)
qed auto

lemma cache_inv_start:
  assumes s: "sortable (c @ [x])" and v: "cache_valid mem support c"
  shows "cache_inv mem support (map bare (c @ [x])) (rev (cand_order (c @ [x]))) (length c)
    (select_start (c @ [x]) (cand_order (c @ [x])))"
proof -
  let ?B = "map bare (c @ [x])" and ?n = "length c"
  have "heuristic_r (\<lambda>i j. too_close mem support (bare (c ! i)) (bare (c ! j))) (rev (cand_order c)) [] =
      heuristic_r (\<lambda>i j. too_close mem support (?B ! i) (?B ! j)) (rev (cand_order c)) []"
    by (rule heuristic_r_cong) (simp add: nth_append)
  moreover have o: "rev (cand_order c) = filter (\<lambda>i. i \<noteq> ?n) (rev (cand_order (c @ [x])))"
    by (simp add: cand_order_butlast [OF s] rev_filter)
  ultimately have e: "heuristic_r (\<lambda>i j. too_close mem support (bare (c ! i)) (bare (c ! j)))
        (filter (\<lambda>i. i \<noteq> ?n) (rev (cand_order (c @ [x])))) [] =
      heuristic_r (\<lambda>i j. too_close mem support (?B ! i) (?B ! j)) (filter (\<lambda>i. i \<noteq> ?n) (rev (cand_order (c @ [x])))) []"
    by simp
  have "\<forall>i \<in> set (cand_order (c @ [x])). i \<noteq> ?n \<longrightarrow> (hc_closer ((c @ [x]) ! i) \<longleftrightarrow>
      i \<in> set (heuristic_r (\<lambda>i j. too_close mem support (?B ! i) (?B ! j))
                 (filter (\<lambda>i. i \<noteq> ?n) (rev (cand_order (c @ [x])))) []))"
    using v unfolding cache_valid_def o e by (auto simp: nth_append)
  then show ?thesis
    unfolding cache_inv_def Let_def by (intro conjI exI [of _ "[]"]) (auto simp: names_ok_def)
qed

text \<open>
  The cache that may be passed in: none, or valid flags for all candidates but the last, which is the new
  one.
\<close>

definition cache_arg :: "'v memory \<Rightarrow> 'v HnswSupport \<Rightarrow> HnswCandidate list \<Rightarrow> bool \<Rightarrow> nat option \<Rightarrow> bool" where
  "cache_arg mem support c closerSet newCandidate \<longleftrightarrow>
     (closerSet \<longrightarrow> c \<noteq> [] \<and> newCandidate = Some (length c - 1) \<and> cache_valid mem support (butlast c))"

lemma select_run:
  assumes s: "sortable c" and v: "values_ok mem support (set (map bare c))"
    and cs: "cache_arg mem support c closerSet nc"
  obtains s' where "select_loop mem support lm (\<not> closerSet) nc (select_start c (cand_order c)) = Inr s'"
    "map bare (sn_c s') = map bare c"
    "heuristic (\<lambda>i j. too_close mem support (bare (c ! i)) (bare (c ! j))) lm (rev (cand_order c)) [] [] =
       (sn_r s', sn_wd s', rev (sn_w s'))"
    "select_part (cand_order c) s'" "sn_w s' = [] \<or> length (sn_r s') = lm" "length (sn_r s') \<le> lm"
proof -
  let ?s0 = "select_start c (cand_order c)" and ?B = "map bare c"
  let ?H = "\<lambda>s'. heuristic (\<lambda>i j. too_close mem support (?B ! i) (?B ! j)) lm (rev (cand_order c)) [] [] =
    (sn_r s', sn_wd s', rev (sn_w s'))"
  have "\<exists>s'. select_loop mem support lm (\<not> closerSet) nc ?s0 = Inr s' \<and> names_ok ?B s' \<and> ?H s'"
  proof (cases closerSet)
    case False
    have "names_ok ?B ?s0" by (simp add: names_ok_def)
    from fresh_loop [OF this v, of lm nc] False show ?thesis by simp
  next
    case True
    with cs have c: "c = butlast c @ [last c]" and n: "nc = Some (length (butlast c))"
      and cv: "cache_valid mem support (butlast c)" by (auto simp: cache_arg_def)
    from cache_inv_start [of "butlast c" "last c" mem support] s c cv
    have ci: "cache_inv mem support ?B (rev (cand_order c)) (length (butlast c)) ?s0" by simp
    from cached_loop [OF ci _ v, of lm] True n show ?thesis by (auto simp: cache_inv_def)
  qed
  then obtain s' where r: "select_loop mem support lm (\<not> closerSet) nc ?s0 = Inr s'" "names_ok ?B s'" "?H s'"
    by blast
  have h: "heuristic (\<lambda>i j. too_close mem support (?B ! i) (?B ! j)) lm (rev (cand_order c)) [] [] =
      heuristic (\<lambda>i j. too_close mem support (bare (c ! i)) (bare (c ! j))) lm (rev (cand_order c)) [] []"
    by (rule heuristic_cong) simp
  have p: "select_part (cand_order c) ?s0" by (simp add: select_part_def)
  from select_loop_part [OF r(1) p] r(2,3) show thesis
    by (intro that [OF r(1)]) (auto simp: names_ok_def h)
qed

text \<open>The parts of the candidates: the selected, the rest, and the pruned one.\<close>

lemma SelectNeighbors_sorted:
  assumes lm: "lm < length c" and s: "sortable c" and v: "values_ok mem support (set (map bare c))"
    and cs: "cache_arg mem support c closerSet nc"
  obtains r wd w c' where
    "SelectNeighbors mem c lm support closerSet nc True True =
       Inr \<lparr>sr_r = r @ take (lm - length r) wd, sr_c = c', sr_closerSet = True,
            sr_pruned = Some (hd (drop (lm - length r) wd @ w))\<rparr>"
    "heuristic (\<lambda>i j. too_close mem support (bare (c ! i)) (bare (c ! j))) lm (rev (cand_order c)) [] [] =
       (r, wd, rev w)"
    "map bare c' = map bare c" "mset w + mset r + mset wd = mset [0..<length c]"
    "\<forall>i \<in> set r. hc_closer (c' ! i)" "\<forall>i \<in> set wd. \<not> hc_closer (c' ! i)"
    "w = [] \<or> length r = lm" "length r \<le> lm"
proof -
  obtain s' where s': "select_loop mem support lm (\<not> closerSet) nc (select_start c (cand_order c)) = Inr s'"
    "map bare (sn_c s') = map bare c"
    "heuristic (\<lambda>i j. too_close mem support (bare (c ! i)) (bare (c ! j))) lm (rev (cand_order c)) [] [] =
       (sn_r s', sn_wd s', rev (sn_w s'))"
    "select_part (cand_order c) s'" "sn_w s' = [] \<or> length (sn_r s') = lm" "length (sn_r s') \<le> lm"
    by (rule select_run [OF s v cs])
  have "size (mset (sn_w s') + mset (sn_r s') + mset (sn_wd s')) = length c"
    using s'(4) by (simp only: select_part_def cand_order_simps size_mset length_upt)
  then have ne: "drop (lm - length (sn_r s')) (sn_wd s') = [] \<longrightarrow> sn_w s' \<noteq> []" using lm s'(5,6) by auto
  have "SelectNeighbors mem c lm support closerSet nc True True =
      Inr \<lparr>sr_r = sn_r s' @ take (lm - length (sn_r s')) (sn_wd s'), sr_c = sn_c s', sr_closerSet = True,
           sr_pruned = Some (hd (drop (lm - length (sn_r s')) (sn_wd s') @ sn_w s'))\<rparr>"
    using s'(1) lm ne unfolding SelectNeighbors_def Let_def cand_order_def [symmetric] select_start_def [symmetric]
    by (simp add: hd_append)
  with s' show thesis
    by (intro that [of "sn_r s'" "sn_wd s'" "sn_c s'" "sn_w s'"]) (simp_all add: select_part_def)
qed

lemma choose_neighbors_order:
  assumes s: "sortable c"
    and h: "heuristic (\<lambda>i j. too_close mem support (bare (c ! i)) (bare (c ! j))) lm (rev (cand_order c)) [] [] =
      (r, wd, w)"
  shows "choose_neighbors mem support lm (sort_key cand_key (map bare c)) =
    map (\<lambda>i. bare (c ! i)) (r @ take (lm - length r) wd)"
  using heuristic_map [of "too_close mem support" lm "\<lambda>i. bare (c ! i)" "rev (cand_order c)" "[]" "[]"] h
  by (simp add: choose_neighbors_def cand_order_bare [OF s, symmetric] take_map)

lemma bare_same: "map bare c' = map bare c \<Longrightarrow> i < length c \<Longrightarrow> bare (c' ! i) = bare (c ! i)"
  by (metis length_map nth_map)

text \<open>The positions of a run that ends with all but one candidate kept.\<close>

lemma split_all_but_one:
  assumes "mset w + mset r + mset wd = mset [0..<Suc lm]" "w = [] \<or> length r = lm" "length r \<le> lm"
  obtains k where "hd (drop (lm - length r) wd @ w) = k" "k \<le> lm" "k \<notin> set r"
    "set (r @ take (lm - length r) wd) = {..<Suc lm} - {k}"
    "distinct (r @ take (lm - length r) wd)" "w = [] \<or> w = [k]"
proof -
  let ?keep = "r @ take (lm - length r) wd" and ?rest = "drop (lm - length r) wd @ w"
  have "mset (?keep @ ?rest) = mset r + mset (take (lm - length r) wd @ drop (lm - length r) wd) + mset w"
    by (simp only: mset_append ac_simps)
  then have m: "mset (?keep @ ?rest) = mset [0..<Suc lm]"
    using assms(1) by (simp only: append_take_drop_id ac_simps)
  then have len: "length ?keep + length ?rest = Suc lm"
    by (metis length_append length_upt minus_nat.diff_0 size_mset)
  have d: "distinct (?keep @ ?rest)" and st: "set (?keep @ ?rest) = {..<Suc lm}"
    using m by (metis distinct_upt mset_eq_imp_distinct_iff) (metis m atLeast_upt mset_eq_setD)
  have "length ?keep = lm" using len assms(2,3) by auto
  with len have "length ?rest = 1" by simp
  then obtain k where k: "?rest = [k]" by (metis One_nat_def length_0_conv length_Suc_conv)
  then have "w = [] \<or> w = [k]" by (auto simp: append_eq_Cons_conv)
  moreover have "k \<notin> set ?keep" "set ?keep \<union> {k} = {..<Suc lm}" using d st k by auto
  ultimately show thesis
    using d k st by (intro that [of k]) auto
qed

subsection \<open>HnswUpdateConnection\<close>

text \<open>
  The new array: position \<open>k\<close> is overwritten with the last candidate (nothing is moved when \<open>k\<close> is the last
  one itself). \<open>moved n k\<close> maps its positions to those of the candidates.
\<close>

definition moved :: "nat \<Rightarrow> nat \<Rightarrow> nat \<Rightarrow> nat" where
  "moved n k i = (if i = k then n else i)"

lemma moved_range: "k \<le> n \<Longrightarrow> moved n k ` {..<n} = {..<Suc n} - {k}"
  by (auto simp: moved_def image_iff)

lemma inj_moved: "inj_on (moved n k) {..<n}"
  by (auto simp: inj_on_def moved_def)

lemma cand_order_moved:
  assumes s: "sortable c" and c: "length c = Suc n" "k \<le> n" and d: "length d = n"
    and same: "\<And>i. i < n \<Longrightarrow> bare (d ! i) = bare (c ! moved n k i)" and sd: "sortable d"
  shows "map (moved n k) (cand_order d) = filter (\<lambda>i. i \<noteq> k) (cand_order c)"
proof (rule sorted_key_unique)
  let ?K = "\<lambda>i. cand_key (bare (c ! i))"
  show "set (map (moved n k) (cand_order d)) = set (filter (\<lambda>i. i \<noteq> k) (cand_order c))"
    using c d moved_range by (auto simp: set_eq_iff)
  have "sorted_wrt (\<lambda>i j. ?K (moved n k j) \<le> ?K (moved n k i)) (cand_order d)"
    by (rule sorted_wrt_mono_rel [OF _ cand_order_sorted(1) [OF sd]]) (simp add: d same)
  then show "sorted_wrt (\<lambda>i j. ?K j \<le> ?K i) (map (moved n k) (cand_order d))" by (simp add: sorted_wrt_map)
  show "sorted_wrt (\<lambda>i j. ?K j \<le> ?K i) (filter (\<lambda>i. i \<noteq> k) (cand_order c))"
    by (rule sorted_wrt_filter, rule cand_order_sorted(1) [OF s])
  show "inj_on ?K (set (map (moved n k) (cand_order d)))"
    by (rule inj_on_subset [OF cand_order_sorted(2) [OF s]]) (use c d moved_range in auto)
  show "distinct (map (moved n k) (cand_order d))" using inj_moved d by (simp add: distinct_map)
qed simp

lemma cache_valid_moved:
  assumes s: "sortable c" and c: "length c = Suc n" "k \<le> n" and d: "length d = n"
    and same: "\<And>i. i < n \<Longrightarrow> bare (d ! i) = bare (c ! moved n k i)" and sd: "sortable d"
    and h: "heuristic (\<lambda>i j. too_close mem support (bare (c ! i)) (bare (c ! j))) lm (rev (cand_order c)) [] [] =
      (r, wd, rev w)"
    and k: "k \<notin> set r" "w = [] \<or> w = [k]"
    and flags: "\<And>i. i < n \<Longrightarrow> hc_closer (d ! i) \<longleftrightarrow> moved n k i \<in> set r"
  shows "cache_valid mem support d"
proof -
  let ?T = "\<lambda>i j. too_close mem support (bare (c ! i)) (bare (c ! j))"
  let ?T' = "\<lambda>i j. too_close mem support (bare (d ! i)) (bare (d ! j))"
  obtain p where p: "rev (cand_order c) = p @ rev w" "heuristic_r ?T p [] = r"
    using heuristic_r_of [OF h] by blast
  have "map (moved n k) (rev (cand_order d)) = filter (\<lambda>i. i \<noteq> k) (rev (cand_order c))"
    using cand_order_moved [OF s c d same sd] by (simp flip: rev_map rev_filter)
  also have "\<dots> = filter (\<lambda>i. i \<noteq> k) p" using p(1) k(2) by auto
  finally have "heuristic_r ?T (map (moved n k) (rev (cand_order d))) (map (moved n k) []) = r"
    using heuristic_r_remove [of k ?T p "[]"] p(2) k(1) by simp
  then have "map (moved n k) (heuristic_r (\<lambda>i j. ?T (moved n k i) (moved n k j)) (rev (cand_order d)) []) = r"
    by (simp only: heuristic_r_map)
  moreover have "heuristic_r (\<lambda>i j. ?T (moved n k i) (moved n k j)) (rev (cand_order d)) [] =
      heuristic_r ?T' (rev (cand_order d)) []"
    by (rule heuristic_r_cong) (simp add: d same)
  ultimately have r: "set r = moved n k ` set (heuristic_r ?T' (rev (cand_order d)) [])" by (metis set_map)
  have sub: "set (heuristic_r ?T' (rev (cand_order d)) []) \<subseteq> {..<n}"
    using heuristic_r_set [of "[]" ?T' "rev (cand_order d)"] d by simp
  have "moved n k i \<in> set r \<longleftrightarrow> i \<in> set (heuristic_r ?T' (rev (cand_order d)) [])" if "i < n" for i
    unfolding r by (rule inj_on_image_mem_iff [OF inj_moved _ sub]) (simp add: that)
  then show ?thesis unfolding cache_valid_def using flags d by simp
qed

lemma find_element_nth:
  "distinct (map hc_element xs) \<Longrightarrow> j < length xs \<Longrightarrow> find_element xs (hc_element (xs ! j)) i = Some (i + j)"
proof (induction xs arbitrary: i j)
  case (Cons x xs)
  then show ?case by (cases j) (auto simp: image_iff)
qed simp

lemma find_element_none: "p \<notin> hc_element ` set xs \<Longrightarrow> find_element xs p i = None"
  by (induction xs arbitrary: i) auto

text \<open>
  A neighbor array of a layer with at most \<open>lm\<close> connections. The flags are only used once the array is full,
  and then they are valid.
\<close>

definition neighbors_ok :: "'v memory \<Rightarrow> 'v HnswSupport \<Rightarrow> nat \<Rightarrow> HnswNeighborArray \<Rightarrow> bool" where
  "neighbors_ok mem support lm a \<longleftrightarrow>
     length (na_items a) \<le> lm \<and> lm \<le> na_alloc a \<and> sortable (na_items a) \<and>
     values_ok mem support (set (map bare (na_items a))) \<and>
     (na_closerSet a \<longrightarrow> length (na_items a) = lm \<and> cache_valid mem support (na_items a))"

text \<open>A candidate that may be connected to such an element.\<close>

definition new_neighbor_ok :: "'v memory \<Rightarrow> 'v HnswSupport \<Rightarrow> HnswNeighborArray \<Rightarrow> bare_candidate \<Rightarrow> bool" where
  "new_neighbor_ok mem support a b \<longleftrightarrow>
     fst b \<notin> hc_element ` set (na_items a) \<and> \<not> float4_isnan (snd b) \<and>
     values_ok mem support (insert b (set (map bare (na_items a))))"

lemma values_ok_mono: "values_ok mem support B \<Longrightarrow> A \<subseteq> B \<Longrightarrow> values_ok mem support A"
  unfolding values_ok_def by blast

lemma bare_sortable:
  assumes "map bare c = map bare d"
  shows "sortable c = sortable d"
proof -
  have e: "sortable c \<longleftrightarrow> distinct (map fst (map bare c)) \<and> (\<forall>b \<in> set (map bare c). \<not> float4_isnan (snd b))" for c
    by (simp add: sortable_def bare_def comp_def)
  show ?thesis unfolding e assms ..
qed

lemma sortable_distinct: "sortable c \<Longrightarrow> distinct (map bare c)"
  by (auto simp: sortable_def distinct_map bare_def inj_on_def)

lemma sortable_sub:
  assumes "sortable c" "set (map bare d) \<subseteq> set (map bare c)" "distinct (map bare d)"
  shows "sortable d"
proof -
  have i: "inj_on fst (set (map bare c))"
    using assms(1) by (fastforce simp: sortable_def distinct_map inj_on_def bare_def)
  have "distinct (map fst (map bare d))"
    using assms(3) inj_on_subset [OF i assms(2)] by (simp only: distinct_map [of fst])
  then have "distinct (map hc_element d)" by (simp add: bare_def comp_def)
  moreover have "\<forall>x \<in> set d. \<not> float4_isnan (hc_distance x)"
    using assms(1,2) by (fastforce simp: sortable_def bare_def)
  ultimately show ?thesis by (simp add: sortable_def)
qed

lemma HnswUpdateConnection_append:
  fixes garbage :: bool
  assumes ok: "neighbors_ok mem support lm a" and new: "new_neighbor_ok mem support a (p, dist)"
    and len: "length (na_items a) < lm"
  defines "a' \<equiv> a\<lparr>na_items := na_items a @ [\<lparr>hc_element = p, hc_distance = dist, hc_closer = garbage\<rparr>]\<rparr>"
  shows "HnswUpdateConnection mem a p dist lm support garbage = Inr (a', Some (-2))" "neighbors_ok mem support lm a'"
proof -
  show "HnswUpdateConnection mem a p dist lm support garbage = Inr (a', Some (-2))"
    using ok len by (simp add: HnswUpdateConnection_def append_item_def neighbors_ok_def a'_def)
  have "sortable (na_items a')"
    using ok new by (auto simp: sortable_def neighbors_ok_def new_neighbor_ok_def a'_def)
  then show "neighbors_ok mem support lm a'"
    using ok new len by (auto simp: neighbors_ok_def new_neighbor_ok_def a'_def bare_def)
qed

lemma replaced_array:
  assumes lc: "length c = Suc lm" and s: "sortable c" and c': "map bare c' = map bare c" and k: "k \<le> lm"
  defines "d \<equiv> (take lm c')[k := c' ! lm]"
  shows "length d = lm" "\<And>i. i < lm \<Longrightarrow> d ! i = c' ! moved lm k i"
    "\<And>i. i < lm \<Longrightarrow> bare (d ! i) = bare (c ! moved lm k i)"
    "map bare d = (map bare (butlast c))[k := bare (last c)]"
    "set (map bare d) = (\<lambda>i. bare (c ! i)) ` ({..<Suc lm} - {k})" "sortable d"
proof -
  have lc': "length c' = Suc lm" using c' lc by (metis length_map)
  show ld: "length d = lm" by (simp add: d_def lc')
  show nd: "d ! i = c' ! moved lm k i" if "i < lm" for i
    using that k by (simp add: d_def moved_def lc' nth_list_update)
  show bd: "bare (d ! i) = bare (c ! moved lm k i)" if "i < lm" for i
    using nd [OF that] bare_same [OF c'] that lc by (simp add: moved_def)
  have "c \<noteq> []" using lc by auto
  then have "last c = c ! lm" using lc by (simp add: last_conv_nth)
  then show b: "map bare d = (map bare (butlast c))[k := bare (last c)]"
    by (intro nth_equalityI) (auto simp: ld lc bd moved_def nth_butlast nth_list_update)
  have "set d = (\<lambda>i. d ! i) ` {..<lm}" by (metis ld atLeast_upt map_nth set_map)
  then have "set (map bare d) = (\<lambda>i. bare (d ! i)) ` {..<lm}" by (simp add: image_image)
  also have "\<dots> = (\<lambda>i. bare (c ! i)) ` moved lm k ` {..<lm}" using bd by (auto simp: image_iff)
  finally show sb: "set (map bare d) = (\<lambda>i. bare (c ! i)) ` ({..<Suc lm} - {k})"
    by (simp only: moved_range [OF k])
  have "inj_on (\<lambda>i. bare (c ! i)) {..<Suc lm}"
    using cand_order_sorted(2) [OF s] lc by (metis (no_types, lifting) inj_onI inj_onD)
  then have "card (set (map bare d)) = card ({..<Suc lm} - {k})"
    unfolding sb by (intro card_image) (auto elim: inj_on_subset)
  then have "distinct (map bare d)" using k ld by (intro card_distinct) simp
  moreover have "set (map bare d) \<subseteq> set (map bare c)" unfolding sb using lc by auto
  ultimately show "sortable d" using sortable_sub [OF s] by blast
qed

text \<open>What the search for the pruned element does with the array.\<close>

lemma find_pruned:
  assumes lc: "length c = Suc lm" and s: "sortable c" and c': "map bare c' = map bare c" and k: "k \<le> lm"
  shows "find_element (take lm c') (hc_element (c' ! k)) 0 = (if k = lm then None else Some k)"
proof -
  have lc': "length c' = Suc lm" using c' lc by (metis length_map)
  have "sortable c'" using bare_sortable [OF c'] s by simp
  then have di: "distinct (map hc_element c')" by (simp add: sortable_def)
  then have dt: "distinct (map hc_element (take lm c'))" by (simp add: take_map [symmetric] distinct_take)
  show ?thesis
  proof (cases "k = lm")
    case True
    have "hc_element (c' ! lm) \<notin> hc_element ` set (take lm c')"
      using di lc' by (auto simp: distinct_conv_nth in_set_conv_nth)
    with True show ?thesis by (simp add: find_element_none)
  next
    case False
    with find_element_nth [OF dt, of k 0] k lc' show ?thesis by simp
  qed
qed

lemma HnswUpdateConnection_full:
  assumes ok: "neighbors_ok mem support lm a" and new: "new_neighbor_ok mem support a (p, dist)"
    and len: "length (na_items a) = lm"
  obtains a' k where
    "HnswUpdateConnection mem a p dist lm support garbage = Inr (a', if k = lm then None else Some (int k))"
    "k \<le> lm" "map bare (na_items a') = (map bare (na_items a))[k := (p, dist)]"
    "set (map bare (na_items a')) =
       set (choose_neighbors mem support lm (sort_key cand_key (map bare (na_items a) @ [(p, dist)])))"
    "neighbors_ok mem support lm a'"
proof -
  define c where "c = na_items a @ [\<lparr>hc_element = p, hc_distance = dist, hc_closer = garbage\<rparr>]"
  have lc: "length c = Suc lm" by (simp add: c_def len)
  have B: "map bare c = map bare (na_items a) @ [(p, dist)]" by (simp add: c_def bare_def)
  have s: "sortable c" using ok new by (auto simp: sortable_def neighbors_ok_def new_neighbor_ok_def c_def)
  have v: "values_ok mem support (set (map bare c))" using new by (simp add: B new_neighbor_ok_def)
  have cs: "cache_arg mem support c (na_closerSet a) (Some (length (na_items a)))"
    using ok by (simp add: cache_arg_def c_def neighbors_ok_def)
  obtain r wd w c' where sel: "SelectNeighbors mem c lm support (na_closerSet a) (Some (length (na_items a))) True True =
       Inr \<lparr>sr_r = r @ take (lm - length r) wd, sr_c = c', sr_closerSet = True,
            sr_pruned = Some (hd (drop (lm - length r) wd @ w))\<rparr>"
    and h: "heuristic (\<lambda>i j. too_close mem support (bare (c ! i)) (bare (c ! j))) lm (rev (cand_order c)) [] [] =
       (r, wd, rev w)"
    and c': "map bare c' = map bare c" and ms: "mset w + mset r + mset wd = mset [0..<length c]"
    and fl: "\<forall>i \<in> set r. hc_closer (c' ! i)" "\<forall>i \<in> set wd. \<not> hc_closer (c' ! i)"
    and w: "w = [] \<or> length r = lm" "length r \<le> lm"
    by (rule SelectNeighbors_sorted [OF _ s v cs, of lm]) (simp add: lc)
  obtain k where k: "hd (drop (lm - length r) wd @ w) = k" "k \<le> lm" "k \<notin> set r"
    "set (r @ take (lm - length r) wd) = {..<Suc lm} - {k}"
    "distinct (r @ take (lm - length r) wd)" "w = [] \<or> w = [k]"
    using split_all_but_one [OF ms [unfolded lc] w] by metis
  have lc': "length c' = Suc lm" using c' lc by (metis length_map)
  define d where "d = (take lm c')[k := c' ! lm]"
  note rd = replaced_array [OF lc s c' k(2), folded d_def]
  have dfl: "hc_closer (d ! i) \<longleftrightarrow> moved lm k i \<in> set r" if "i < lm" for i
  proof -
    have "moved lm k i \<in> {..<Suc lm} - {k}" using moved_range [OF k(2)] that by auto
    then have "moved lm k i \<in> set r \<union> set wd" using k(4) by (auto dest: in_set_takeD)
    with fl rd(2) [OF that] show ?thesis by auto
  qed
  have cv: "cache_valid mem support d"
    by (rule cache_valid_moved [OF s lc k(2) rd(1) _ rd(6) h k(3,6)]) (simp_all only: rd(3) dfl)
  define a' where "a' = a\<lparr>na_items := d, na_closerSet := True\<rparr>"
  have eq: "HnswUpdateConnection mem a p dist lm support garbage = Inr (a', if k = lm then None else Some (int k))"
    using sel len find_pruned [OF lc s c' k(2)] lc' rd(1)
    by (auto simp: HnswUpdateConnection_def Let_def c_def [symmetric] k(1) a'_def d_def list_update_beyond)
  have items: "map bare (na_items a') = (map bare (na_items a))[k := (p, dist)]"
    using rd(4) B by (simp add: a'_def c_def bare_def)
  have ch: "set (map bare (na_items a')) =
      set (choose_neighbors mem support lm (sort_key cand_key (map bare (na_items a) @ [(p, dist)])))"
    unfolding B [symmetric] choose_neighbors_order [OF s h] using rd(5) k(4) [symmetric]
    by (simp add: a'_def image_Un)
  have "values_ok mem support (set (map bare d))"
    unfolding rd(5) by (rule values_ok_mono [OF v]) (use lc in auto)
  then have ok': "neighbors_ok mem support lm a'"
    using ok rd(1,6) cv by (simp add: neighbors_ok_def a'_def)
  show thesis by (rule that [OF eq k(2) items ch ok'])
qed

end
