(* ===== verification/Hnsw_Connect.thy ===== *)
theory Hnsw_Connect
  imports Hnsw_Scan_Correct Hnsw_Select_Correct
begin

section \<open>Finding the neighbors of an element on disk\<close>

text \<open>
  \<^verbatim>\<open>HnswFindElementNeighbors\<close> on a well-formed index returns or runs out of memory, and afterwards the neighbor
  arrays of the element hold loaded live elements of their layers, different from each other and from the element,
  and no more of them than the layer allows.
\<close>

subsection \<open>The memory of a search that loads values\<close>

text \<open>Elements with heap TIDs that belong to a live tuple carry its value.\<close>

definition mem_values :: "'v relation \<Rightarrow> 'v memory \<Rightarrow> bool" where
  "mem_values index mem \<longleftrightarrow>
     (\<forall>q e etup. mem_elems mem q = Some e \<longrightarrow> he_heaptids e \<noteq> [] \<longrightarrow> live_at index (etid e) etup \<longrightarrow>
        he_value e = et_data etup)"

lemma load_from_tuple_value:
  assumes "HnswLoadElementFromTuple e etup True True = Inr e'"
  shows "he_value e' = et_data etup"
  using assms by (auto simp: HnswLoadElementFromTuple_def Let_def dest!: load_heaptids)

lemma mem_values_upd:
  assumes "mem_values index mem" "mem_elems mem' = (mem_elems mem)(p \<mapsto> e)"
    and "\<And>etup. he_heaptids e \<noteq> [] \<Longrightarrow> live_at index (etid e) etup \<Longrightarrow> he_value e = et_data etup"
  shows "mem_values index mem'"
  unfolding mem_values_def
proof (intro allI impI)
  fix q x et
  assume x: "mem_elems mem' q = Some x" "he_heaptids x \<noteq> []" "live_at index (etid x) et"
  show "he_value x = et_data et"
  proof (cases "q = p")
    case True
    then have "x = e" using x(1) assms(2) by simp
    with x assms(3) show ?thesis by blast
  next
    case False
    then have "mem_elems mem q = Some x" using x(1) assms(2) by simp
    with assms(1) x(2,3) show ?thesis unfolding mem_values_def by blast
  qed
qed

lemma load_unvisited_values:
  assumes l: "load_unvisited a aa fd (UTid u) st = Inr (d, po, st')" and a: "sa_index a = Some index" "sa_inserting a"
    and mem: "mem_ok (ss_mem st)" "mem_values index (ss_mem st)"
  shows "mem_values index (ss_mem st')"
proof -
  let ?b = "ItemPointerGetBlockNumber u" and ?off = "ItemPointerGetOffsetNumber u"
  let ?max = "if aa \<or> ss_discarded st \<noteq> None then None else Some fd"
  from l a obtain etup where e: "ReadItem index ?b ?off = Inr (ETup etup)" "et_deleted etup = 0"
    and m: "(if ?max = None \<or> float8_lt d (the ?max)
              then bindE (HnswInitElementFromBlock (ss_mem st) ?b ?off) (\<lambda>(p, mem1).
                   bindE (HnswPtrAccess mem1 p) (\<lambda>e.
                   bindE (HnswLoadElementFromTuple e etup True True) (\<lambda>e'.
                   Inr (Some p, element_store mem1 p e'))))
              else Inr (None, ss_mem st)) = Inr (po, ss_mem st')"
    by (auto simp: HnswLoadElementImpl_def split: if_splits)
  show ?thesis
  proof (cases "?max = None \<or> float8_lt d (the ?max)")
    case True
    let ?e0 = "blank_element\<lparr>he_blkno := ?b, he_offno := ?off, he_neighbors := None, he_value := None\<rparr>"
    from True m obtain p mem1 e1 e' where s: "HnswAlloc (ss_mem st) ?e0 = Inr (p, mem1)"
      "mem_elems mem1 p = Some e1" "HnswLoadElementFromTuple e1 etup True True = Inr e'"
      "ss_mem st' = element_store mem1 p e'"
      by (auto simp: HnswInitElementFromBlock_def)
    note f = HnswAlloc_Inr(3) [OF s(1) mem(1)]
    with s(2) have e1: "e1 = ?e0" by simp
    have et: "etid e' = u" using load_from_tuple(2) [OF s(3)] e1 by (simp add: etid_def)
    have un: "x = etup" if "live_at index u x" for x using e that by (simp add: live_at_def etup_at_def)
    have "mem_values index mem1"
      by (rule mem_values_upd [OF mem(2) f]) (simp add: blank_element_def)
    then show ?thesis
    proof (rule mem_values_upd)
      show "mem_elems (ss_mem st') = (mem_elems mem1)(p \<mapsto> e')" by (simp add: s(4) element_store_def)
      fix x
      assume "live_at index (etid e') x"
      with un et show "he_value e' = et_data x" using load_from_tuple_value [OF s(3)] by blast
    qed
  qed (use m mem(2) in \<open>auto split: if_splits\<close>)
qed

text \<open>What loading keeps, the search keeps.\<close>

lemma search_mem_inv:
  assumes s: "HnswSearchLayer a ep v discarded init tuples trace mem = Inr (w, st)" and a: "sa_index a = Some index"
    and "P mem"
    and load: "\<And>aa fd u s d po s'. load_unvisited a aa fd (UTid u) s = Inr (d, po, s') \<Longrightarrow> P (ss_mem s) \<Longrightarrow> P (ss_mem s')"
  shows "P (ss_mem st)"
proof -
  have visit: "P (ss_mem s')" if "visit_neighbor a (UTid u) s = Inr s'" "P (ss_mem s)" for u s s'
    using that(1)
  proof (cases rule: visit_hand)
    case (1 d po aa fd st1)
    show ?thesis unfolding 1(2) by (rule load [OF 1(1) that(2)])
  next
    case (2 d p aa fd st1)
    show ?thesis unfolding 2(2) by (rule load [OF 2(1) that(2)])
  qed
  have step: "P (ss_mem s')" if "search_step a s = Inr (cont, s')" "P (ss_mem s)" for s s' cont
  proof -
    from that(1) obtain c C' f where c: "pairingheap_remove_first (ss_C s) = Some (c, C')"
      "pairingheap_first (ss_W s) = Some f"
      and step: "(if float8_lt (sc_distance f) (sc_distance c) then Inr (False, s\<lparr>ss_C := C'\<rparr>)
      else bindE (expand_candidate a c (s\<lparr>ss_C := C'\<rparr>)) (\<lambda>(us, st1).
        bindE (foldE (visit_neighbor a) us st1) (\<lambda>st2. Inr (True, st2)))) = Inr (cont, s')"
      by (auto simp: search_step_def)
    show ?thesis
    proof (cases "float8_lt (sc_distance f) (sc_distance c)")
      case True
      with step that(2) show ?thesis by auto
    next
      case False
      with step obtain us s1 where u: "expand_candidate a c (s\<lparr>ss_C := C'\<rparr>) = Inr (us, s1)"
        "foldE (visit_neighbor a) us s1 = Inr s'" by auto
      obtain ts where ts: "us = map UTid ts" "ss_mem s1 = ss_mem s"
        by (rule expand_disk [OF u(1) a]) simp
      show ?thesis
        using u(2)
      proof (rule foldE_inv)
        show "P (ss_mem s1)" using ts(2) that(2) by simp
        fix x r t
        assume "x \<in> set us" "P (ss_mem r)" "visit_neighbor a x r = Inr t"
        with visit ts(1) show "P (ss_mem t)" by fastforce
      qed
    qed
  qed
  have loop: "search_loop a s = Inr s' \<Longrightarrow> P (ss_mem s) \<Longrightarrow> P (ss_mem s')" for s s'
  proof (induction a\<equiv>a s rule: search_loop.induct)
    case (1 s)
    show ?case
    proof (cases "pairingheap_is_empty (ss_C s)")
      case True
      with 1(2,3) show ?thesis by (subst (asm) search_loop.simps) simp
    next
      case False
      with 1(2) obtain cont s1 where r: "search_step a s = Inr (cont, s1)"
        "(if cont then search_loop a s1 else Inr s1) = Inr s'"
        by (subst (asm) search_loop.simps) auto
      with 1(1) [OF False r(1) refl] step [OF r(1) 1(3)] show ?thesis by (cases cont) auto
    qed
  qed
  obtain st0 where st0: "foldE (add_entry_point a (v = None \<or> init)) ep
      (search_init v discarded (v = None \<or> init) tuples trace mem) = Inr st0" "search_loop a st0 = Inr st"
    using HnswSearchLayer_run [OF s] by metis
  have "ss_mem st0 = mem" using entry_points_frame [OF st0(1) a] by (simp add: search_init_def)
  with loop [OF st0(2)] assms(3) show ?thesis by simp
qed

subsection \<open>The layer searches\<close>

definition layer_cand ::
  "'v option \<Rightarrow> 'v HnswSupport \<Rightarrow> 'v relation \<Rightarrow> nat \<Rightarrow> 'v memory \<Rightarrow> HnswSearchCandidate \<Rightarrow> bool" where
  "layer_cand q support index lc mem sc \<longleftrightarrow>
     (\<exists>e etup. mem_elems mem (sc_element sc) = Some e \<and> live_at index (etid e) etup \<and> loaded e etup \<and>
        lc \<le> unat (et_level etup) \<and> sc_distance sc = tuple_distance q support etup)"

lemma cand_ok_insert_args [simp]:
  "cand_ok (insert_args q ef lc i support m existing) index mem sc = layer_cand q support index lc mem sc"
  by (simp add: cand_ok_def insert_args_def layer_cand_def)

lemma layer_cand_below: "layer_cand q support index lc mem sc \<Longrightarrow> lc' \<le> lc \<Longrightarrow> layer_cand q support index lc' mem sc"
  unfolding layer_cand_def by (meson order_trans)

lemma layer_cand_tracked: "layer_cand q support index lc mem sc \<Longrightarrow> tracked q support index mem sc"
  unfolding layer_cand_def tracked_def by blast

text \<open>What is passed from layer to layer: different loaded elements of the layer.\<close>

definition layer_eps ::
  "'v option \<Rightarrow> 'v HnswSupport \<Rightarrow> 'v relation \<Rightarrow> nat \<Rightarrow> 'v memory \<Rightarrow> HnswSearchCandidate list \<Rightarrow> bool" where
  "layer_eps q support index lc mem ep \<longleftrightarrow>
     ep \<noteq> [] \<and> (\<forall>sc \<in> set ep. layer_cand q support index lc mem sc) \<and> distinct (map (cand_tid mem) ep)"

lemma layer_eps_below: "layer_eps q support index lc mem ep \<Longrightarrow> lc' \<le> lc \<Longrightarrow> layer_eps q support index lc' mem ep"
  unfolding layer_eps_def using layer_cand_below by blast

lemma distinct_count: "distinct xs \<longleftrightarrow> (\<forall>x. count (mset xs) x \<le> 1)"
proof -
  have "count (mset xs) x \<le> 1 \<longleftrightarrow> count (mset xs) x = (if x \<in> set xs then 1 else 0)" for x
  proof (cases "x \<in> set xs")
    case True
    then have "count (mset xs) x \<noteq> 0" using count_mset_0_iff [of xs x] by blast
    then have "count (mset xs) x \<le> 1 \<longleftrightarrow> count (mset xs) x = 1" by linarith
    with True show ?thesis by metis
  next
    case False
    then have c: "count (mset xs) x = 0" using count_mset_0_iff [of xs x] by blast
    show ?thesis unfolding c using False by simp
  qed
  then show ?thesis unfolding distinct_count_atmost_1 by simp
qed

lemma layer_eps_hand:
  assumes "layer_eps q support index lc mem ep"
  shows "hand_ok q support index mem (mset ep) (cand_tid mem ` set ep)"
  using assms unfolding layer_eps_def hand_ok_def mset_map [symmetric] distinct_count
  by (auto simp del: mset_map dest: layer_cand_tracked)

definition insert_ok :: "'v relation \<Rightarrow> nat \<Rightarrow> 'v option \<Rightarrow> 'v HnswSupport \<Rightarrow> bool" where
  "insert_ok index m q support \<longleftrightarrow> index_ok index m \<and> m \<le> HNSW_MAX_M \<and> distances_ok index q support"

lemma insert_search:
  assumes ok: "insert_ok index m q support" "0 < ef" and mem: "mem_ok mem" "mem_values index mem"
    and ep: "layer_eps q support index lc mem ep" "\<not> existing \<longrightarrow> length ep \<le> ef"
  defines "r \<equiv> HnswSearchLayer (insert_args q ef lc (Some index) support m existing) ep None None True None None mem"
  shows "r = Inl out_of_memory \<or>
    (\<exists>w st. r = Inr (w, st) \<and> layer_eps q support index lc (ss_mem st) w \<and> (\<not> existing \<longrightarrow> length w \<le> ef) \<and>
       sorted_wrt (\<lambda>a b. float8_le (sc_distance b) (sc_distance a)) w \<and>
       mem_ok (ss_mem st) \<and> mem_values index (ss_mem st) \<and> mem_extends mem (ss_mem st))"
proof -
  let ?a = "insert_args q ef lc (Some index) support m existing"
  have a: "sa_index ?a = Some index" "sa_inserting ?a" "sa_skip ?a = existing" "sa_ef ?a = ef" "sa_q ?a = q"
    "sa_support ?a = support" by (simp_all add: insert_args_def)
  have so: "search_ok ?a index" using ok by (simp add: search_ok_def insert_args_def insert_ok_def)
  have e: "ep \<noteq> []" "\<forall>sc \<in> set ep. cand_ok ?a index mem sc" "\<not> sa_skip ?a \<longrightarrow> length ep \<le> sa_ef ?a"
    using ep by (simp_all add: layer_eps_def) (simp add: insert_args_def)
  have "trace_safe index None" by (simp add: trace_safe_def)
  from search_layer_done [OF so mem(1) this e, of None None True None] show ?thesis
  proof (elim disjE exE conjE)
    fix st
    assume s: "HnswSearchLayer ?a ep None None True None None mem = Inr (drain_candidates (ss_W st), st)"
      and d: "search_done ?a index (visited_before ep None True mem) st"
    let ?w = "drain_candidates (ss_W st)"
    note f = search_done_result [OF d]
    have h: "hand_ok q support index (ss_mem st) (mset ?w + disc_mset (ss_discarded st)) (vh_tids (ss_v st))"
      using new_search_tracks [OF s _ a(1) mem(1)] layer_eps_hand [OF ep(1)] by (simp add: a)
    have "\<forall>t. count (image_mset (cand_tid (ss_mem st)) (mset ?w)) t \<le> 1"
      using hand_ok_sub [OF h, of "mset ?w"] by (simp add: hand_ok_def)
    then have "distinct (map (cand_tid (ss_mem st)) ?w)" by (simp add: distinct_count)
    then have eps: "layer_eps q support index lc (ss_mem st) ?w" using f(1,4) by (simp add: layer_eps_def)
    have "mem_ok (ss_mem st) \<and> mem_values index (ss_mem st) \<and> mem_extends mem (ss_mem st)"
      using s a(1)
    proof (rule search_mem_inv)
      fix aa fd u s1 d1 po s'
      assume l: "load_unvisited ?a aa fd (UTid u) s1 = Inr (d1, po, s')"
        and i: "mem_ok (ss_mem s1) \<and> mem_values index (ss_mem s1) \<and> mem_extends mem (ss_mem s1)"
      show "mem_ok (ss_mem s') \<and> mem_values index (ss_mem s') \<and> mem_extends mem (ss_mem s')"
        using load_unvisited_tracks [OF l a(1)] load_unvisited_values [OF l a(1,2)] i mem_extends_trans by blast
    qed (use mem in simp)
    moreover have "\<not> existing \<longrightarrow> length ?w \<le> ef" using f(3) unfolding a(3,4) by simp
    ultimately show ?thesis using s eps f(2) unfolding r_def by blast
  qed (simp add: r_def)
qed

subsection \<open>Choosing and adding the connections\<close>

text \<open>\<open>kept\<close>: the candidates \<^verbatim>\<open>RemoveElements\<close> leaves.\<close>

definition kept :: "'v memory \<Rightarrow> 'v HnswElementData option \<Rightarrow> HnswCandidate \<Rightarrow> bool" where
  "kept mem skip hc \<longleftrightarrow>
     (\<exists>e. mem_elems mem (hc_element hc) = Some e \<and> he_heaptids e \<noteq> [] \<and>
        (\<forall>se. skip = Some se \<longrightarrow> etid e \<noteq> etid se))"

lemma RemoveElements_filter:
  assumes "\<forall>hc \<in> set w. mem_elems mem (hc_element hc) \<noteq> None"
  shows "RemoveElements mem w skip = Inr (filter (kept mem skip) w)"
  using assms
proof (induction w)
  case (Cons hc w)
  then obtain e where e: "mem_elems mem (hc_element hc) = Some e" by auto
  have "kept mem skip hc \<longleftrightarrow> he_heaptids e \<noteq> [] \<and>
      \<not> (case skip of None \<Rightarrow> False | Some se \<Rightarrow> he_blkno e = he_blkno se \<and> he_offno e = he_offno se)"
    using e by (cases skip) (auto simp: kept_def etid_def)
  with Cons e show ?case by (simp split del: if_split) auto
qed simp

lemma bare_nth: "map (\<lambda>i. bare (c ! i)) [0..<length c] = map bare c"
  by (rule nth_equalityI) simp_all

lemma SelectNeighbors_fresh:
  assumes "values_ok mem support (set (map bare c))"
  obtains sr where "SelectNeighbors mem c lm support False nc False False = Inr sr" "length (sr_r sr) \<le> lm"
    "distinct (sr_r sr)" "set (sr_r sr) \<subseteq> {..<length c}" "map bare (sr_c sr) = map bare c" "\<not> sr_closerSet sr"
    "map (\<lambda>i. bare (c ! i)) (sr_r sr) =
       (if length c \<le> lm then map bare c else choose_neighbors mem support lm (rev (map bare c)))"
proof (cases "length c \<le> lm")
  case True
  have "SelectNeighbors mem c lm support False nc False False =
      Inr \<lparr>sr_r = [0..<length c], sr_c = c, sr_closerSet = False, sr_pruned = None\<rparr>"
    using True by (simp add: SelectNeighbors_def)
  then show ?thesis using True bare_nth [of c] by (intro that) (assumption | simp add: atLeast0LessThan)+
next
  case False
  let ?s0 = "select_start c [0..<length c]"
  have "names_ok (map bare c) ?s0" by (auto simp: names_ok_def)
  from fresh_loop [OF this assms, of lm nc] obtain s' where
    s': "select_loop mem support lm True nc ?s0 = Inr s'" "names_ok (map bare c) s'"
    and h: "heuristic (\<lambda>i j. too_close mem support (map bare c ! i) (map bare c ! j)) lm (rev [0..<length c]) [] [] =
      (sn_r s', sn_wd s', rev (sn_w s'))"
    by auto
  have "select_part [0..<length c] ?s0" by (simp add: select_part_def)
  from select_loop_part [OF s'(1) this] have p: "select_part [0..<length c] s'" "length (sn_r s') \<le> lm"
    by (auto simp: atLeast0LessThan)
  let ?k = "take (lm - length (sn_r s')) (sn_wd s')"
  have run: "SelectNeighbors mem c lm support False nc False False =
      Inr \<lparr>sr_r = sn_r s' @ ?k, sr_c = sn_c s', sr_closerSet = False, sr_pruned = None\<rparr>"
    using False s'(1) by (simp add: SelectNeighbors_def Let_def select_start_def)
  have m: "mset (sn_w s' @ sn_r s' @ sn_wd s') = mset [0..<length c]" using p(1) by (simp add: select_part_def ac_simps)
  have "distinct (sn_w s' @ sn_r s' @ sn_wd s')" "set (sn_w s' @ sn_r s' @ sn_wd s') = {..<length c}"
    using mset_eq_imp_distinct_iff [OF m] mset_eq_setD [OF m] by (simp_all add: atLeast0LessThan)
  then have "distinct (sn_r s' @ ?k)" "set (sn_r s' @ ?k) \<subseteq> {..<length c}"
    by (auto dest: in_set_takeD)
  moreover have "map (\<lambda>i. bare (c ! i)) (sn_r s' @ ?k) = choose_neighbors mem support lm (rev (map bare c))"
  proof -
    have "heuristic (\<lambda>i j. too_close mem support (bare (c ! i)) (bare (c ! j))) lm (rev [0..<length c]) [] [] =
        (sn_r s', sn_wd s', rev (sn_w s'))"
      unfolding h [symmetric] by (rule heuristic_cong) simp
    moreover have "rev (map bare c) = map (\<lambda>i. bare (c ! i)) (rev [0..<length c])"
      unfolding rev_map [symmetric] bare_nth ..
    ultimately show ?thesis
      using heuristic_map [of "too_close mem support" lm "\<lambda>i. bare (c ! i)" "rev [0..<length c]" "[]" "[]"]
      by (simp add: choose_neighbors_def take_map)
  qed
  ultimately show ?thesis using p(2) s'(2) False by (intro that [OF run]) (simp_all add: names_ok_def)
qed

lemma foldE_append_item:
  "length (na_items a) + length hcs \<le> na_alloc a \<Longrightarrow>
     foldE (\<lambda>hc a. append_item a hc) hcs a = Inr (a\<lparr>na_items := na_items a @ hcs\<rparr>)"
  by (induction hcs arbitrary: a) (simp_all add: append_item_def)

text \<open>A connection in memory: a loaded live element of the layer with heap TIDs, its value and its distance.\<close>

definition link_ok ::
  "'v relation \<Rightarrow> 'v option \<Rightarrow> 'v HnswSupport \<Rightarrow> nat \<Rightarrow> 'v memory \<Rightarrow> HnswCandidate \<Rightarrow> bool" where
  "link_ok index q support lc mem hc \<longleftrightarrow>
     (\<exists>e etup. mem_elems mem (hc_element hc) = Some e \<and> live_at index (etid e) etup \<and> loaded e etup \<and>
        he_value e = et_data etup \<and> he_heaptids e \<noteq> [] \<and> lc \<le> unat (et_level etup) \<and>
        hc_distance hc = float8_to_float4 (tuple_distance q support etup))"

lemma link_ok_bare: "bare hc = bare hc' \<Longrightarrow> link_ok index q support lc mem hc = link_ok index q support lc mem hc'"
  by (simp add: link_ok_def bare_def)

text \<open>The distance function is defined on all pairs of stored values.\<close>

definition pairs_ok :: "'v relation \<Rightarrow> 'v HnswSupport \<Rightarrow> bool" where
  "pairs_ok index support \<longleftrightarrow>
     (\<forall>t1 e1 t2 e2 v1 v2. live_at index t1 e1 \<longrightarrow> live_at index t2 e2 \<longrightarrow> et_data e1 = Some v1 \<longrightarrow> et_data e2 = Some v2 \<longrightarrow>
        (\<exists>d. HnswGetDistance v1 v2 support = Inr d))"

lemma links_values:
  assumes "index_ok index m" "pairs_ok index support" "\<forall>hc \<in> set hcs. link_ok index q support lc mem hc"
  shows "values_ok mem support (set (map bare hcs))"
proof -
  have v: "\<exists>t etup v. live_at index t etup \<and> et_data etup = Some v \<and> bare_value mem b = Some v"
    if "b \<in> set (map bare hcs)" for b
  proof -
    from that assms(3) obtain e etup where "mem_elems mem (fst b) = Some e" "live_at index (etid e) etup"
      "he_value e = et_data etup" by (fastforce simp: link_ok_def bare_def)
    moreover from this(2) assms(1) obtain v where "et_data etup = Some v" by (auto simp: index_ok_def)
    ultimately show ?thesis by (auto simp: bare_value_def)
  qed
  show ?thesis unfolding values_ok_def
  proof (intro conjI ballI)
    fix x y
    assume "x \<in> set (map bare hcs)" "y \<in> set (map bare hcs)"
    then show "\<exists>d. HnswGetDistance (the (bare_value mem x)) (the (bare_value mem y)) support = Inr d"
      using v [of x] v [of y] assms(2) unfolding pairs_ok_def by fastforce
  qed (use v in fastforce)
qed

text \<open>
  The element being connected is not one of the elements a search finds: it is not stored yet, or it was read
  without its heap TIDs.
\<close>

definition apart :: "'v relation \<Rightarrow> 'v HnswElementData \<Rightarrow> bool" where
  "apart index e \<longleftrightarrow> (\<forall>etup. live_at index (etid e) etup \<longrightarrow> \<not> loaded e etup)"

lemma apart_neighbors [simp]: "apart index (e\<lparr>he_neighbors := ns\<rparr>) = apart index e"
  by (simp add: apart_def etid_def loaded_def)

lemma apart_cand:
  "mem_elems mem p = Some e \<Longrightarrow> apart index e \<Longrightarrow> layer_cand q support index lc mem sc \<Longrightarrow> sc_element sc \<noteq> p"
  by (auto simp: apart_def layer_cand_def)

lemma apart_link:
  "mem_elems mem p = Some e \<Longrightarrow> apart index e \<Longrightarrow> link_ok index q support lc mem hc \<Longrightarrow> hc_element hc \<noteq> p"
  by (auto simp: apart_def link_ok_def)

lemma link_ok_frame:
  "link_ok index q support lc mem hc \<Longrightarrow> (\<And>x. mem_elems mem (hc_element hc) = Some x \<Longrightarrow> mem_elems mem' (hc_element hc) = Some x)
    \<Longrightarrow> link_ok index q support lc mem' hc"
  unfolding link_ok_def by blast

lemma layer_eps_frame:
  assumes "layer_eps q support index lc mem ep"
    and "\<And>sc. sc \<in> set ep \<Longrightarrow> mem_elems mem' (sc_element sc) = mem_elems mem (sc_element sc)"
  shows "layer_eps q support index lc mem' ep"
proof -
  have m: "map (cand_tid mem') ep = map (cand_tid mem) ep" using assms(2) by (simp add: cand_tid_def)
  show ?thesis using assms unfolding layer_eps_def m by (simp add: layer_cand_def)
qed

definition links_ok ::
  "'v relation \<Rightarrow> 'v option \<Rightarrow> 'v HnswSupport \<Rightarrow> nat \<Rightarrow> nat \<Rightarrow> 'v memory \<Rightarrow> HnswNeighborArray \<Rightarrow> bool" where
  "links_ok index q support m lc mem a \<longleftrightarrow>
     length (na_items a) \<le> HnswGetLayerM m lc \<and> distinct (map hc_element (na_items a)) \<and>
     (\<forall>hc \<in> set (na_items a). link_ok index q support lc mem hc)"

lemma links_ok_frame:
  assumes "links_ok index q support m lc mem a"
    and "\<And>hc x. hc \<in> set (na_items a) \<Longrightarrow> link_ok index q support lc mem hc \<Longrightarrow> mem_elems mem (hc_element hc) = Some x
      \<Longrightarrow> mem_elems mem' (hc_element hc) = Some x"
  shows "links_ok index q support m lc mem' a"
  using assms(1) link_ok_frame [OF _ assms(2)] unfolding links_ok_def by blast

lemma candidates_links:
  assumes "layer_eps q support index lc mem w" "mem_values index mem"
  shows "\<forall>hc \<in> set (filter (kept mem skip) (candidates_of w)). link_ok index q support lc mem hc"
    "distinct (map hc_element (candidates_of w))"
    "\<forall>hc \<in> set (candidates_of w). mem_elems mem (hc_element hc) \<noteq> None"
proof -
  have c: "\<exists>sc \<in> set w. hc_element hc = sc_element sc \<and> hc_distance hc = float8_to_float4 (sc_distance sc)"
    if "hc \<in> set (candidates_of w)" for hc
    using that by (auto simp: candidates_of_def)
  have l: "layer_cand q support index lc mem sc" if "sc \<in> set w" for sc using assms(1) that by (simp add: layer_eps_def)
  show "\<forall>hc \<in> set (candidates_of w). mem_elems mem (hc_element hc) \<noteq> None"
    using c l by (fastforce simp: layer_cand_def)
  show "\<forall>hc \<in> set (filter (kept mem skip) (candidates_of w)). link_ok index q support lc mem hc"
  proof
    fix hc
    assume "hc \<in> set (filter (kept mem skip) (candidates_of w))"
    then have h: "hc \<in> set (candidates_of w)" "kept mem skip hc" by auto
    from c [OF h(1)] obtain sc where sc: "sc \<in> set w" "hc_element hc = sc_element sc"
      "hc_distance hc = float8_to_float4 (sc_distance sc)" by blast
    from l [OF sc(1)] obtain e etup where e: "mem_elems mem (sc_element sc) = Some e" "live_at index (etid e) etup"
      "loaded e etup" "lc \<le> unat (et_level etup)" "sc_distance sc = tuple_distance q support etup"
      unfolding layer_cand_def by blast
    moreover have "he_heaptids e \<noteq> []" using h(2) e(1) sc(2) by (auto simp: kept_def)
    moreover from this e(1,2) assms(2) have "he_value e = et_data etup" unfolding mem_values_def by blast
    ultimately show "link_ok index q support lc mem hc" unfolding link_ok_def sc(2,3)
      by (intro exI [of _ e] exI [of _ etup]) simp
  qed
  have "distinct (map (cand_tid mem) w)" using assms(1) by (simp add: layer_eps_def)
  moreover have "map (cand_tid mem) w =
      map (\<lambda>p. case mem_elems mem p of None \<Rightarrow> ItemPointerSetInvalid | Some e \<Rightarrow> etid e) (map sc_element w)"
    by (simp add: cand_tid_def)
  ultimately have "distinct (map sc_element w)" by (metis distinct_map)
  then show "distinct (map hc_element (candidates_of w))" by (simp add: candidates_of_def comp_def)
qed

text \<open>
  The elements of a search result that may become neighbors, nearest first: those with heap TIDs other than the
  element itself, each with its distance in single precision.
\<close>

definition nearest_first ::
  "'v memory \<Rightarrow> 'v HnswElementData option \<Rightarrow> HnswSearchCandidate list \<Rightarrow> bare_candidate list" where
  "nearest_first mem skip w =
     map (\<lambda>sc. (sc_element sc, float8_to_float4 (sc_distance sc)))
       (filter (\<lambda>sc. \<exists>e. mem_elems mem (sc_element sc) = Some e \<and> he_heaptids e \<noteq> [] \<and>
                    (\<forall>se. skip = Some se \<longrightarrow> etid e \<noteq> etid se)) (rev w))"

lemma nearest_first_kept: "rev (map bare (filter (kept mem skip) (candidates_of w))) = nearest_first mem skip w"
  by (simp add: nearest_first_def candidates_of_def filter_map comp_def kept_def bare_def rev_map rev_filter)

lemma nearest_first_sorted:
  assumes "sorted_wrt (\<lambda>a b. float8_le (sc_distance b) (sc_distance a)) w"
  shows "sorted_wrt (\<lambda>x y. float4_le (snd x) (snd y)) (nearest_first mem skip w)"
proof -
  have "sorted_wrt (\<lambda>a b. float8_le (sc_distance a) (sc_distance b)) (rev w)"
    using assms by (simp add: sorted_wrt_rev)
  then have "sorted_wrt (\<lambda>a b. float4_le (float8_to_float4 (sc_distance a)) (float8_to_float4 (sc_distance b))) (rev w)"
    by (rule sorted_wrt_mono_rel [rotated]) (rule float8_to_float4_le)
  then show ?thesis by (simp add: nearest_first_def sorted_wrt_map sorted_wrt_filter)
qed

lemma selected_links:
  assumes "\<forall>hc \<in> set c. link_ok index q support lc mem hc" "distinct (map hc_element c)"
    and "length r \<le> HnswGetLayerM m lc" "distinct r" "set r \<subseteq> {..<length c}" "map bare c' = map bare c"
    and "na_items a = map ((!) c') r"
  shows "links_ok index q support m lc mem a"
proof -
  have len: "length c' = length c" using assms(6) by (metis length_map)
  have b: "bare (c' ! i) = bare (c ! i)" if "i < length c" for i
    using assms(6) that len by (metis nth_map)
  have "map hc_element (na_items a) = map ((!) (map hc_element c)) r"
    unfolding assms(7) using assms(5) b by (auto simp: bare_def)
  moreover have "inj_on ((!) (map hc_element c)) (set r)"
    using inj_on_nth [OF assms(2), of "set r"] assms(5) by auto
  ultimately have "distinct (map hc_element (na_items a))" using assms(4) by (simp add: distinct_map)
  moreover have "link_ok index q support lc mem hc" if "hc \<in> set (na_items a)" for hc
  proof -
    from that obtain i where i: "i \<in> set r" "hc = c' ! i" by (auto simp: assms(7))
    then have "i < length c" using assms(5) by auto
    with i(2) b link_ok_bare assms(1) show ?thesis by (metis nth_mem)
  qed
  ultimately show ?thesis using assms(3) by (simp add: links_ok_def assms(7))
qed

subsection \<open>One layer\<close>

text \<open>Memory in which only the element \<open>p\<close> changed and new elements were added.\<close>

definition extends_but :: "eptr set \<Rightarrow> 'v memory \<Rightarrow> 'v memory \<Rightarrow> bool" where
  "extends_but P mem mem' \<longleftrightarrow> (\<forall>q e. q \<notin> P \<longrightarrow> mem_elems mem q = Some e \<longrightarrow> mem_elems mem' q = Some e)"

lemma extends_but_trans: "extends_but P a b \<Longrightarrow> extends_but P b c \<Longrightarrow> extends_but P a c"
  unfolding extends_but_def by blast

lemma extends_but_store:
  "mem_extends mem mem1 \<Longrightarrow> extends_but {p} mem (element_store mem1 p e)"
  by (auto simp: extends_but_def mem_extends_def element_store_def)

lemma link_ok_extends_but:
  "link_ok index q support lc mem hc \<Longrightarrow> hc_element hc \<notin> P \<Longrightarrow> extends_but P mem mem' \<Longrightarrow> link_ok index q support lc mem' hc"
  unfolding extends_but_def by (rule link_ok_frame) blast+

text \<open>
  \<open>layer_choice\<close>: the array holds all candidates if there are at most \<open>lm\<close>, and else what the heuristic chooses from
  them, nearest first.
\<close>

definition layer_choice ::
  "'v memory \<Rightarrow> 'v HnswSupport \<Rightarrow> nat \<Rightarrow> bare_candidate list \<Rightarrow> bare_candidate list" where
  "layer_choice mem support lm order =
     (if length order \<le> lm then rev order else choose_neighbors mem support lm order)"

lemma connect_layer_chooses:
  assumes ok: "insert_ok index m q support" "pairs_ok index support" "0 < ef"
    and mem: "mem_ok mem" "mem_values index mem"
    and ep: "layer_eps q support index lc mem ep" "\<not> existing \<longrightarrow> length ep \<le> ef"
    and p: "mem_elems mem p = Some e" "apart index e" "he_neighbors e = Some ns" "lc < length ns"
      "ns ! lc = HnswInitNeighborArray (HnswGetLayerM m lc)"
  defines "r \<equiv> connect_layer p q ef (Some index) support m existing lc (ep, mem)"
  shows "r = Inl out_of_memory \<or>
    (\<exists>w mem' a. r = Inr (w, mem') \<and> layer_eps q support index lc mem' w \<and> (\<not> existing \<longrightarrow> length w \<le> ef) \<and>
       mem_ok mem' \<and> mem_values index mem' \<and> extends_but {p} mem mem' \<and>
       mem_elems mem' p = Some (e\<lparr>he_neighbors := Some (ns[lc := a])\<rparr>) \<and> links_ok index q support m lc mem' a \<and>
       (\<exists>st. HnswSearchLayer (insert_args q ef lc (Some index) support m existing) ep None None True None None mem = Inr (w, st) \<and>
          sorted_wrt (\<lambda>x y. float4_le (snd x) (snd y)) (nearest_first (ss_mem st) (if existing then Some e else None) w) \<and>
          map bare (na_items a) = layer_choice (ss_mem st) support (HnswGetLayerM m lc)
            (nearest_first (ss_mem st) (if existing then Some e else None) w)))"
proof -
  from insert_search [OF ok(1,3) mem ep]
  consider "HnswSearchLayer (insert_args q ef lc (Some index) support m existing) ep None None True None None mem = Inl out_of_memory"
    | w st where "HnswSearchLayer (insert_args q ef lc (Some index) support m existing) ep None None True None None mem = Inr (w, st)"
      "layer_eps q support index lc (ss_mem st) w" "\<not> existing \<longrightarrow> length w \<le> ef"
      "mem_ok (ss_mem st)" "mem_values index (ss_mem st)" "mem_extends mem (ss_mem st)"
      "sorted_wrt (\<lambda>a b. float8_le (sc_distance b) (sc_distance a)) w" by blast
  then show ?thesis
  proof cases
    case 1
    then show ?thesis by (simp add: r_def connect_layer_def)
  next
    case (2 w st)
    let ?mem1 = "ss_mem st" and ?skip = "if existing then Some e else None" and ?lm = "HnswGetLayerM m lc"
    let ?lw = "filter (kept ?mem1 ?skip) (candidates_of w)"
    have p1: "mem_elems ?mem1 p = Some e" using 2(6) p(1) by (simp add: mem_extends_def)
    note cl = candidates_links [OF 2(2,5)]
    have i: "index_ok index m" using ok(1) by (simp add: insert_ok_def)
    obtain sr where sr: "SelectNeighbors ?mem1 ?lw ?lm support False None False False = Inr sr" "length (sr_r sr) \<le> ?lm"
      "distinct (sr_r sr)" "set (sr_r sr) \<subseteq> {..<length ?lw}" "map bare (sr_c sr) = map bare ?lw" "\<not> sr_closerSet sr"
      "map (\<lambda>i. bare (?lw ! i)) (sr_r sr) =
         (if length ?lw \<le> ?lm then map bare ?lw else choose_neighbors ?mem1 support ?lm (rev (map bare ?lw)))"
      by (rule SelectNeighbors_fresh [OF links_values [OF i ok(2) cl(1) [of ?skip]]])
    let ?a = "(HnswInitNeighborArray ?lm)\<lparr>na_items := map ((!) (sr_c sr)) (sr_r sr)\<rparr>"
    let ?e = "e\<lparr>he_neighbors := Some (ns[lc := ?a])\<rparr>"
    have add: "foldE (\<lambda>hc a. append_item a hc) (map ((!) (sr_c sr)) (sr_r sr)) (HnswInitNeighborArray ?lm) = Inr ?a"
      using sr(2) by (subst foldE_append_item) (simp_all add: HnswInitNeighborArray_def)
    have r: "r = Inr (w, element_store ?mem1 p ?e)"
      using 2(1) p1 p(3-5) sr(1,6) add
      by (simp add: r_def connect_layer_def Let_def RemoveElements_filter [OF cl(3)] HnswGetNeighbors_def array_get_def
          HnswSetNeighbors_def array_set_def AddConnections_def HnswInitNeighborArray_def)
    have "distinct (map hc_element ?lw)" using cl(2) by (simp add: distinct_map_filter)
    then have lk1: "links_ok index q support m lc ?mem1 ?a"
      by (intro selected_links [OF cl(1) _ sr(2-5)]) simp_all
    have a1: "apart index e" by (rule p(2))
    have "links_ok index q support m lc (element_store ?mem1 p ?e) ?a"
      by (rule links_ok_frame [OF lk1]) (use apart_link [OF p1 a1] in \<open>auto simp: element_store_def\<close>)
    moreover have "layer_eps q support index lc (element_store ?mem1 p ?e) w"
    proof (rule layer_eps_frame [OF 2(2)])
      fix sc
      assume "sc \<in> set w"
      then have "sc_element sc \<noteq> p" using 2(2) apart_cand [OF p1 a1] unfolding layer_eps_def by blast
      then show "mem_elems (element_store ?mem1 p ?e) (sc_element sc) = mem_elems ?mem1 (sc_element sc)"
        by (simp add: element_store_def)
    qed
    moreover have "mem_ok (element_store ?mem1 p ?e)" using element_store_ok [OF 2(4)] p1 by simp
    moreover have "mem_values index (element_store ?mem1 p ?e)"
    proof (rule mem_values_upd [OF 2(5)])
      show "mem_elems (element_store ?mem1 p ?e) = (mem_elems ?mem1)(p \<mapsto> ?e)" by (simp add: element_store_def)
      fix et
      assume "he_heaptids ?e \<noteq> []" "live_at index (etid ?e) et"
      then have "he_heaptids e \<noteq> []" "live_at index (etid e) et" by (simp_all add: etid_def)
      with 2(5) p1 have "he_value e = et_data et" unfolding mem_values_def by blast
      then show "he_value ?e = et_data et" by simp
    qed
    moreover have "extends_but {p} mem (element_store ?mem1 p ?e)" by (rule extends_but_store [OF 2(6)])
    moreover have "mem_elems (element_store ?mem1 p ?e) p = Some ?e" by (simp add: element_store_def)
    moreover have "map bare (na_items ?a) = layer_choice ?mem1 support ?lm (nearest_first ?mem1 ?skip w)"
    proof -
      have "map bare (na_items ?a) = map (\<lambda>i. bare (?lw ! i)) (sr_r sr)"
        using sr(4) bare_same [OF sr(5)] by (auto simp del: bare_same)
      also have "\<dots> = layer_choice ?mem1 support ?lm (rev (map bare ?lw))"
        unfolding sr(7) layer_choice_def by simp
      finally show ?thesis unfolding nearest_first_kept .
    qed
    ultimately show ?thesis using r 2(1,3) nearest_first_sorted [OF 2(7)] by blast
  qed
qed

lemma connect_layer_ok:
  assumes "insert_ok index m q support" "pairs_ok index support" "0 < ef" "mem_ok mem" "mem_values index mem"
    and "layer_eps q support index lc mem ep" "\<not> existing \<longrightarrow> length ep \<le> ef"
    and "mem_elems mem p = Some e" "apart index e" "he_neighbors e = Some ns" "lc < length ns"
      "ns ! lc = HnswInitNeighborArray (HnswGetLayerM m lc)"
  defines "r \<equiv> connect_layer p q ef (Some index) support m existing lc (ep, mem)"
  shows "r = Inl out_of_memory \<or>
    (\<exists>w mem' a. r = Inr (w, mem') \<and> layer_eps q support index lc mem' w \<and> (\<not> existing \<longrightarrow> length w \<le> ef) \<and>
       mem_ok mem' \<and> mem_values index mem' \<and> extends_but {p} mem mem' \<and>
       mem_elems mem' p = Some (e\<lparr>he_neighbors := Some (ns[lc := a])\<rparr>) \<and> links_ok index q support m lc mem' a)"
  using connect_layer_chooses [OF assms(1-12)] unfolding r_def by blast

subsection \<open>All layers\<close>

lemma connect_layers_ok:
  assumes ok: "insert_ok index m q support" "pairs_ok index support" "0 < ef"
    and mem: "mem_ok mem" "mem_values index mem"
    and ep: "layer_eps q support index (k - 1) mem ep" "\<not> existing \<longrightarrow> length ep \<le> ef"
    and p: "mem_elems mem p = Some e" "apart index e" "he_neighbors e = Some ns" "k \<le> length ns"
      "\<forall>lc < k. ns ! lc = HnswInitNeighborArray (HnswGetLayerM m lc)"
  defines "r \<equiv> foldE (connect_layer p q ef (Some index) support m existing) (rev [0..<k]) (ep, mem)"
  shows "r = Inl out_of_memory \<or>
    (\<exists>ep' mem' ns'. r = Inr (ep', mem') \<and> mem_ok mem' \<and> mem_values index mem' \<and> extends_but {p} mem mem' \<and>
       mem_elems mem' p = Some (e\<lparr>he_neighbors := Some ns'\<rparr>) \<and> length ns' = length ns \<and>
       (\<forall>lc < length ns. if lc < k then links_ok index q support m lc mem' (ns' ! lc) else ns' ! lc = ns ! lc))"
  using mem ep p unfolding r_def
proof (induction k arbitrary: ep mem e ns)
  case 0
  have "extends_but {p} mem mem" by (simp add: extends_but_def)
  moreover have "e = e\<lparr>he_neighbors := Some ns\<rparr>" using 0(7) by simp
  ultimately show ?case
    using 0 by (intro disjI2 exI [of _ ep] exI [of _ mem] exI [of _ ns]) simp
next
  case (Suc k)
  let ?f = "connect_layer p q ef (Some index) support m existing"
  have k: "k < length ns" "ns ! k = HnswInitNeighborArray (HnswGetLayerM m k)" using Suc.prems(8,9) by simp_all
  have run: "foldE ?f (rev [0..<Suc k]) (ep, mem) = bindE (?f k (ep, mem)) (foldE ?f (rev [0..<k]))" by simp
  have epk: "layer_eps q support index k mem ep" using Suc.prems(3) by simp
  from connect_layer_ok [OF ok Suc.prems(1,2) epk Suc.prems(4-7) k] show ?case
  proof (elim disjE exE conjE)
    assume "?f k (ep, mem) = Inl out_of_memory"
    then show ?thesis unfolding run by simp
  next
    fix w mem1 a
    assume c: "?f k (ep, mem) = Inr (w, mem1)" "layer_eps q support index k mem1 w" "\<not> existing \<longrightarrow> length w \<le> ef"
      "mem_ok mem1" "mem_values index mem1" "extends_but {p} mem mem1"
      "mem_elems mem1 p = Some (e\<lparr>he_neighbors := Some (ns[k := a])\<rparr>)" "links_ok index q support m k mem1 a"
    have ap: "apart index (e\<lparr>he_neighbors := Some (ns[k := a])\<rparr>)" using Suc.prems(6) by simp
    have ini: "\<forall>lc < k. ns[k := a] ! lc = HnswInitNeighborArray (HnswGetLayerM m lc)" using Suc.prems(9) by simp
    from Suc.IH [OF c(4,5) layer_eps_below [OF c(2)] c(3,7) ap _ _ ini] k(1)
    consider "foldE ?f (rev [0..<k]) (w, mem1) = Inl out_of_memory"
      | ep' mem' ns' where "foldE ?f (rev [0..<k]) (w, mem1) = Inr (ep', mem')" "mem_ok mem'" "mem_values index mem'"
        "extends_but {p} mem1 mem'" "mem_elems mem' p = Some (e\<lparr>he_neighbors := Some ns'\<rparr>)" "length ns' = length ns"
        "\<forall>lc < length ns. if lc < k then links_ok index q support m lc mem' (ns' ! lc) else ns' ! lc = ns[k := a] ! lc"
      by auto
    then show ?thesis
    proof cases
      case 1
      then show ?thesis unfolding run c(1) by simp
    next
      case (2 ep' mem' ns')
      have "links_ok index q support m k mem' a"
        by (rule links_ok_frame [OF c(8)])
          (use apart_link [OF c(7) ap] 2(4) in \<open>auto simp: extends_but_def\<close>)
      with 2(7) k(1) have "\<forall>lc < length ns. if lc < Suc k then links_ok index q support m lc mem' (ns' ! lc) else ns' ! lc = ns ! lc"
        by (auto simp: less_Suc_eq)
      with 2 c(1) extends_but_trans [OF c(6) 2(4)] show ?thesis unfolding run by auto
    qed
  qed
qed

lemma greedy_descent_ok:
  assumes "insert_ok index m q support" "mem_ok mem" "mem_values index mem" "layer_eps q support index tp mem ep"
    "\<not> existing \<longrightarrow> length ep \<le> 1" "sorted_wrt (\<ge>) (tp # lcs)"
  shows "greedy_descent q (Some index) support m existing lcs (ep, mem) = Inl out_of_memory \<or>
    (\<exists>ep' mem'. greedy_descent q (Some index) support m existing lcs (ep, mem) = Inr (ep', mem') \<and> mem_ok mem' \<and>
       mem_values index mem' \<and> mem_extends mem mem' \<and> layer_eps q support index (last (tp # lcs)) mem' ep' \<and>
       (\<not> existing \<longrightarrow> length ep' \<le> 1))"
  using assms(2-6)
proof (induction lcs arbitrary: tp ep mem)
  case (Cons lc lcs)
  have "layer_eps q support index lc mem ep" using layer_eps_below [OF Cons.prems(3)] Cons.prems(5) by simp
  from insert_search [OF assms(1) _ Cons.prems(1,2) this, of 1 existing] Cons.prems(4)
  consider "HnswSearchLayer (insert_args q 1 lc (Some index) support m existing) ep None None True None None mem = Inl out_of_memory"
    | w st where "HnswSearchLayer (insert_args q 1 lc (Some index) support m existing) ep None None True None None mem = Inr (w, st)"
      "layer_eps q support index lc (ss_mem st) w" "\<not> existing \<longrightarrow> length w \<le> 1"
      "mem_ok (ss_mem st)" "mem_values index (ss_mem st)" "mem_extends mem (ss_mem st)"
    by auto
  then show ?case
  proof cases
    case 1
    then show ?thesis by simp
  next
    case (2 w st)
    have s: "sorted_wrt (\<ge>) (lc # lcs)" using Cons.prems(5) by simp
    from Cons.IH [OF 2(4,5,2,3) s] 2(1,6) show ?thesis
      by (elim disjE exE conjE) (auto intro: mem_extends_trans)
  qed
qed simp

subsection \<open>The whole function\<close>

lemma entry_candidate_ok:
  assumes ok: "insert_ok index m q support" and mem: "mem_ok mem" "mem_values index mem"
    and en: "mem_elems mem p = Some e" "live_at index (etid e) etup"
  obtains sc e' where "HnswEntryCandidate p q (Some index) support True mem = Inr (sc, element_store mem p e')"
    "layer_eps q support index (unat (et_level etup)) (element_store mem p e') [sc]" "mem_ok (element_store mem p e')"
    "mem_values index (element_store mem p e')" "he_level e' = et_level etup"
proof -
  have et: "length (et_heaptids etup) = HNSW_HEAPTIDS" "et_data etup \<noteq> None"
    using ok en(2) by (auto simp: insert_ok_def index_ok_def)
  have d: "element_distance True q etup support None = Inr (tuple_distance q support etup, None)"
    using element_distance_live(1) [OF _ en(2) et(2), of q support None] ok by (auto simp: insert_ok_def)
  obtain e' where e': "HnswLoadElementFromTuple e etup True True = Inr e'"
    by (simp add: HnswLoadElementFromTuple_eq [OF et(1)])
  note l = load_from_tuple [OF e'] load_from_tuple_value [OF e']
  let ?sc = "HnswInitSearchCandidate p (tuple_distance q support etup)" and ?mem' = "element_store mem p e'"
  have "ReadItem index (he_blkno e) (he_offno e) = Inr (ETup etup)" "et_deleted etup = 0"
    using live_at_ReadItem [OF en(2)] by (simp_all add: etid_def)
  then have "HnswEntryCandidate p q (Some index) support True mem = Inr (?sc, ?mem')"
    using en(1) d e'
    by (simp add: HnswEntryCandidate_def HnswLoadElement_def HnswLoadElementImpl_def
        HnswTraceRecordElementPage_def)
  moreover have "layer_cand q support index (unat (et_level etup)) ?mem' ?sc"
    using l en(2) by (auto simp: layer_cand_def element_store_def HnswInitSearchCandidate_def)
  then have "layer_eps q support index (unat (et_level etup)) ?mem' [?sc]" by (simp add: layer_eps_def)
  moreover have "mem_ok ?mem'" using element_store_ok [OF mem(1)] en(1) by simp
  moreover have "mem_values index ?mem'"
  proof (rule mem_values_upd [OF mem(2)])
    show "mem_elems ?mem' = (mem_elems mem)(p \<mapsto> e')" by (simp add: element_store_def)
    fix et'
    assume "live_at index (etid e') et'"
    then have "et' = etup" using live_at_unique en(2) l(2) by metis
    then show "he_value e' = et_data et'" using l(3) by simp
  qed
  moreover have "he_level e' = et_level etup" using l(1) by (simp add: loaded_def)
  ultimately show thesis by (rule that)
qed

text \<open>
  An element to connect: it has its neighbor arrays, still empty, and is apart from the stored elements.
\<close>

definition to_connect :: "'v relation \<Rightarrow> nat \<Rightarrow> 'v HnswElementData \<Rightarrow> bool" where
  "to_connect index m e \<longleftrightarrow>
     apart index e \<and>
     he_neighbors e = Some (map (\<lambda>lc. HnswInitNeighborArray (HnswGetLayerM m lc)) [0..<Suc (unat (he_level e))])"

lemma HnswFindElementNeighbors_ok:
  fixes existing :: bool
  assumes ok: "insert_ok index m (he_value e) support" "pairs_ok index support" "0 < ef"
    and mem: "mem_ok mem" "mem_values index mem" and p: "mem_elems mem p = Some e" "to_connect index m e"
    and entry: "\<And>ep. entry = Some ep \<Longrightarrow> ep \<noteq> p \<and> (\<exists>en etup. mem_elems mem ep = Some en \<and> live_at index (etid en) etup)"
  defines "r \<equiv> HnswFindElementNeighbors p entry (Some index) support m ef existing mem"
  shows "r = Inl out_of_memory \<or>
    (\<exists>mem' ns. r = Inr mem' \<and> mem_ok mem' \<and> mem_values index mem' \<and> extends_but (insert p (set_option entry)) mem mem' \<and>
       mem_elems mem' p = Some (e\<lparr>he_neighbors := Some ns\<rparr>) \<and> length ns = Suc (unat (he_level e)) \<and>
       (\<forall>ep. entry = Some ep \<longrightarrow> mem_elems mem' ep \<noteq> None) \<and>
       (\<forall>lc < length ns. links_ok index (he_value e) support m lc mem' (ns ! lc)))"
proof -
  let ?q = "he_value e" and ?L = "unat (he_level e)"
  define ns0 where "ns0 = map (\<lambda>lc. HnswInitNeighborArray (HnswGetLayerM m lc)) [0..<Suc ?L]"
  have e: "apart index e" "he_neighbors e = Some ns0" using p(2) by (simp_all add: to_connect_def ns0_def)
  have ini: "length ns0 = Suc ?L" "\<forall>lc < Suc ?L. ns0 ! lc = HnswInitNeighborArray (HnswGetLayerM m lc)"
    by (simp_all add: ns0_def del: upt_Suc)
  have empty: "links_ok index ?q support m lc mm (ns0 ! lc)" if "lc < Suc ?L" for lc mm
    using ini(2) that by (simp add: links_ok_def HnswInitNeighborArray_def)
  show ?thesis
  proof (cases entry)
    case None
    have "e = e\<lparr>he_neighbors := Some ns0\<rparr>" using e(2) by simp
    then have "mem_elems mem p = Some (e\<lparr>he_neighbors := Some ns0\<rparr>)" using p(1) by simp
    moreover have "r = Inr mem" using p(1) None by (simp add: r_def HnswFindElementNeighbors_def)
    moreover have "extends_but (insert p (set_option entry)) mem mem" by (simp add: extends_but_def)
    moreover have "\<forall>lc < length ns0. links_ok index ?q support m lc mem (ns0 ! lc)" using empty ini(1) by simp
    ultimately show ?thesis using mem ini(1) None by blast
  next
    case (Some ep)
    with entry obtain en etup where en: "mem_elems mem ep = Some en" "live_at index (etid en) etup" "ep \<noteq> p" by blast
    obtain sc e' where c: "HnswEntryCandidate ep ?q (Some index) support True mem = Inr (sc, element_store mem ep e')"
      "layer_eps ?q support index (unat (et_level etup)) (element_store mem ep e') [sc]" "mem_ok (element_store mem ep e')"
      "mem_values index (element_store mem ep e')" "he_level e' = et_level etup"
      by (rule entry_candidate_ok [OF ok(1) mem en(1,2)])
    let ?mem1 = "element_store mem ep e'" and ?E = "unat (et_level etup)"
    let ?lcs = "rev [Suc ?L..<Suc ?E]" and ?ef = "if existing then Suc ef else ef"
    have r: "r = bindE (greedy_descent ?q (Some index) support m existing ?lcs ([sc], ?mem1)) (\<lambda>ep_mem.
        bindE (foldE (connect_layer p ?q ?ef (Some index) support m existing) (rev [0..<Suc (min ?L ?E)]) ep_mem)
          (\<lambda>(ep, mem3). Inr mem3))"
      using p(1) Some c(1,5)
      by (simp add: r_def HnswFindElementNeighbors_def Let_def del: upt_Suc) (simp add: element_store_def del: upt_Suc)
    have "sorted_wrt (\<ge>) (?E # ?lcs)" by (auto simp: sorted_wrt_rev_iff sorted_wrt_upt sorted_append)
    from greedy_descent_ok [OF ok(1) c(3,4,2) _ this, of existing]
    consider "greedy_descent ?q (Some index) support m existing ?lcs ([sc], ?mem1) = Inl out_of_memory"
      | eps mem2 where "greedy_descent ?q (Some index) support m existing ?lcs ([sc], ?mem1) = Inr (eps, mem2)"
        "mem_ok mem2" "mem_values index mem2" "mem_extends ?mem1 mem2"
        "layer_eps ?q support index (last (?E # ?lcs)) mem2 eps" "\<not> existing \<longrightarrow> length eps \<le> 1"
      by auto
    then show ?thesis
    proof cases
      case 1
      then show ?thesis unfolding r by simp
    next
      case (2 eps mem2)
      have "min ?L ?E \<le> last (?E # ?lcs)" by (cases "Suc ?L \<le> ?E") (simp_all add: last_rev)
      from layer_eps_below [OF 2(5) this]
      have eps: "layer_eps ?q support index (Suc (min ?L ?E) - 1) mem2 eps" by simp
      have p2: "mem_elems mem2 p = Some e"
        using 2(4) p(1) en(3) by (auto simp: mem_extends_def element_store_def)
      have x2: "extends_but {p, ep} mem mem2" using 2(4) by (auto simp: extends_but_def mem_extends_def element_store_def)
      have ef: "0 < ?ef" "\<not> existing \<longrightarrow> length eps \<le> ?ef" using ok(3) 2(6) by auto
      from connect_layers_ok [OF ok(1,2) ef(1) 2(2,3) eps ef(2) p2 e] ini
      consider "foldE (connect_layer p ?q ?ef (Some index) support m existing) (rev [0..<Suc (min ?L ?E)]) (eps, mem2) = Inl out_of_memory"
        | ep' mem' ns' where "foldE (connect_layer p ?q ?ef (Some index) support m existing) (rev [0..<Suc (min ?L ?E)]) (eps, mem2) = Inr (ep', mem')"
          "mem_ok mem'" "mem_values index mem'" "extends_but {p} mem2 mem'"
          "mem_elems mem' p = Some (e\<lparr>he_neighbors := Some ns'\<rparr>)" "length ns' = Suc ?L"
          "\<forall>lc < Suc ?L. if lc < Suc (min ?L ?E) then links_ok index ?q support m lc mem' (ns' ! lc) else ns' ! lc = ns0 ! lc"
        by (auto simp del: upt_Suc)
      then show ?thesis
      proof cases
        case 1
        then show ?thesis unfolding r 2(1) by (simp del: upt_Suc)
      next
        case f: (2 ep' mem' ns')
        have "r = Inr mem'" unfolding r 2(1) by (simp add: f(1) del: upt_Suc)
        moreover have "extends_but (insert p (set_option entry)) mem mem'"
          using x2 f(4) Some by (auto simp: extends_but_def)
        moreover have "\<forall>lc < length ns'. links_ok index ?q support m lc mem' (ns' ! lc)"
          using f(6,7) empty by metis
        moreover have "\<forall>ep. entry = Some ep \<longrightarrow> mem_elems mem' ep \<noteq> None"
          using Some 2(4) f(4) en(3) by (auto simp: extends_but_def mem_extends_def element_store_def)
        ultimately show ?thesis using f(2,3,5,6) by blast
      qed
    qed
  qed
qed

end
