(* ===== verification/Hnsw_Trace_Transparent.thy ===== *)
theory Hnsw_Trace_Transparent
  imports Hnsw_Scan_Correct
begin

section \<open>Tracing does not change what a search finds\<close>

text \<open>
  A traced search or scan is compared step by step with the same one without a trace: up to errors of the trace
  itself, both fail in the same way or return the same candidates, visited elements and memory.
\<close>

subsection \<open>Agreement of two computations\<close>

text \<open>
  \<open>agrees E R r r0\<close>: the computation \<open>r\<close> raises an error of \<open>E\<close>, or both raise the same error, or both return and
  their results are related by \<open>R\<close>.
\<close>

definition agrees :: "pg_error set \<Rightarrow> ('a \<Rightarrow> 'b \<Rightarrow> bool) \<Rightarrow> 'a result \<Rightarrow> 'b result \<Rightarrow> bool" where
  "agrees E R r r0 \<longleftrightarrow> (\<exists>e \<in> E. r = Inl e) \<or> rel_sum (=) R r r0"

lemma agrees_Inr [simp]: "agrees E R (Inr x) (Inr y) \<longleftrightarrow> R x y"
  by (simp add: agrees_def)

lemma agrees_Inr_left: "agrees E R (Inr x) r0 \<longleftrightarrow> (\<exists>y. r0 = Inr y \<and> R x y)"
  by (cases r0) (auto simp: agrees_def)

lemma agrees_Inl [simp]: "agrees E R (Inl e) r0 \<longleftrightarrow> e \<in> E \<or> r0 = Inl e"
  by (cases r0) (auto simp: agrees_def)

lemma agrees_bind:
  assumes "agrees E R r r0" and "\<And>x y. r = Inr x \<Longrightarrow> r0 = Inr y \<Longrightarrow> R x y \<Longrightarrow> agrees E S (k x) (k0 y)"
  shows "agrees E S (bindE r k) (bindE r0 k0)"
  using assms by (cases r; cases r0) (auto simp: agrees_def)

lemma agrees_bind_same:
  assumes "\<And>x. r = Inr x \<Longrightarrow> agrees E S (k x) (k0 x)"
  shows "agrees E S (bindE r k) (bindE r k0)"
  using assms by (cases r) auto

lemma agrees_if:
  assumes "c \<Longrightarrow> agrees E R r r0" "\<not> c \<Longrightarrow> agrees E R s s0"
  shows "agrees E R (if c then r else s) (if c then r0 else s0)"
  using assms by simp

lemma agrees_refl: "(\<And>x. R x x) \<Longrightarrow> agrees E R r r"
  by (cases r) auto

lemma agrees_mono: "agrees E R r r0 \<Longrightarrow> (\<And>x y. R x y \<Longrightarrow> S x y) \<Longrightarrow> agrees E S r r0"
  by (cases r; cases r0) (auto simp: agrees_def)

lemma agrees_foldE:
  assumes "R s t" and "\<And>x s t. x \<in> set xs \<Longrightarrow> R s t \<Longrightarrow> agrees E R (f x s) (g x t)"
  shows "agrees E R (foldE f xs s) (foldE g xs t)"
  using assms
proof (induction xs arbitrary: s t)
  case (Cons x xs)
  have "agrees E R (bindE (f x s) (foldE f xs)) (bindE (g x t) (foldE g xs))"
    by (rule agrees_bind [where R = R]) (use Cons in simp_all)
  then show ?case by simp
qed simp

subsection \<open>The trace\<close>

text \<open>The error of a page array that is too small.\<close>

definition overrun :: pg_error where
  "overrun = BadAccess ''pages_seen''"

lemma page_seen_Inl: "page_seen seen b i k = Inl e \<Longrightarrow> e = overrun"
  by (induction seen b i k rule: page_seen.induct)
    (auto simp: bindE_Inl_iff array_get_def overrun_def split: if_splits)

lemma page_added_Inl: "page_added seen c n b = Inl e \<Longrightarrow> e = overrun"
  by (auto simp: page_added_def array_set_def overrun_def split: if_splits)

lemma record_untraced [simp]:
  "HnswTraceRecordElementPage None b = Inr None" "HnswTraceRecordNeighborPage None b = Inr None"
  by (simp_all add: HnswTraceRecordElementPage_def HnswTraceRecordNeighborPage_def)

lemma record_Inl:
  "HnswTraceRecordElementPage tr b = Inl e \<Longrightarrow> e = overrun"
  "HnswTraceRecordNeighborPage tr b = Inl e \<Longrightarrow> e = overrun"
  by (auto simp: HnswTraceRecordElementPage_def HnswTraceRecordNeighborPage_def Let_def bindE_Inl_iff
      dest: page_seen_Inl page_added_Inl split: option.splits if_splits)

lemma record_agrees:
  assumes "overrun \<in> E" "\<And>t. agrees E S (k t) r0"
  shows "agrees E S (bindE (HnswTraceRecordElementPage tr b) k) r0"
    and "agrees E S (bindE (HnswTraceRecordNeighborPage tr b) k) r0"
  using assms record_Inl [of tr b]
  by (cases "HnswTraceRecordElementPage tr b"; cases "HnswTraceRecordNeighborPage tr b"; auto)+

subsection \<open>Searching a layer\<close>

definition untraced :: "'v search_state \<Rightarrow> 'v search_state" where
  "untraced st = st\<lparr>ss_trace := None\<rparr>"

lemma untraced_simps [simp]:
  "ss_C (untraced st) = ss_C st" "ss_W (untraced st) = ss_W st" "ss_wlen (untraced st) = ss_wlen st"
  "ss_v (untraced st) = ss_v st" "ss_discarded (untraced st) = ss_discarded st"
  "ss_tuples (untraced st) = ss_tuples st" "ss_trace (untraced st) = None" "ss_mem (untraced st) = ss_mem st"
  by (simp_all add: untraced_def)

lemma load_element_agrees:
  assumes "overrun \<in> E"
  shows "agrees E (\<lambda>(d, p, t, m) (d0, p0, t0, m0). d0 = d \<and> p0 = p \<and> t0 = None \<and> m0 = m)
    (HnswLoadElementImpl b off wd q index support lv md p tr mem)
    (HnswLoadElementImpl b off wd q index support lv md p None mem)"
proof -
  have dist: "agrees E (\<lambda>(d, t) (d0, t0). d0 = d \<and> t0 = None) (element_distance wd q etup support tr)
      (element_distance wd q etup support None)" for etup
    by (auto simp: element_distance_def intro!: agrees_bind_same split: option.splits)
  show ?thesis
    unfolding HnswLoadElementImpl_def
    by (intro agrees_bind_same agrees_if agrees_bind [OF dist])
      (auto intro!: agrees_bind_same record_agrees(1) [OF assms])
qed

lemma load_tids_agrees:
  assumes "overrun \<in> E"
  shows "agrees E (\<lambda>(i, t) (i0, t0). i0 = i \<and> t0 = None)
    (HnswLoadNeighborTids e index m lm lc tr) (HnswLoadNeighborTids e index m lm lc None)"
  unfolding HnswLoadNeighborTids_def Let_def
  by (intro agrees_bind_same) (auto intro!: record_agrees(2) [OF assms])

lemma load_unvisited_agrees:
  assumes "overrun \<in> E"
  shows "agrees E (\<lambda>(d, p, s) x. x = (d, p, untraced s)) (load_unvisited a aa fd u st)
    (load_unvisited a aa fd u (untraced st))"
proof (cases u)
  case (UElement p)
  then show ?thesis by (auto simp: untraced_def intro!: agrees_bind_same)
next
  case (UTid tid)
  show ?thesis
    unfolding UTid load_unvisited.simps untraced_simps
    by (intro agrees_bind_same agrees_bind [OF load_element_agrees [OF assms]]) (auto simp: untraced_def)
qed

lemma untraced_upd [simp]:
  "untraced (st\<lparr>ss_C := c\<rparr>) = (untraced st)\<lparr>ss_C := c\<rparr>" "untraced (st\<lparr>ss_W := w\<rparr>) = (untraced st)\<lparr>ss_W := w\<rparr>"
  "untraced (st\<lparr>ss_wlen := n\<rparr>) = (untraced st)\<lparr>ss_wlen := n\<rparr>" "untraced (st\<lparr>ss_v := v\<rparr>) = (untraced st)\<lparr>ss_v := v\<rparr>"
  "untraced (st\<lparr>ss_tuples := t\<rparr>) = (untraced st)\<lparr>ss_tuples := t\<rparr>"
  "untraced (discard_candidate sc st) = discard_candidate sc (untraced st)"
  by (simp_all add: untraced_def discard_candidate_def)

lemma accept_agrees:
  "agrees E (\<lambda>s x. x = untraced s) (accept_candidate a e st) (accept_candidate a e (untraced st))"
  by (auto simp: accept_candidate_def Let_def split: prod.splits intro!: agrees_bind_same)

lemma visit_agrees:
  assumes "overrun \<in> E"
  shows "agrees E (\<lambda>s x. x = untraced s) (visit_neighbor a u st) (visit_neighbor a u (untraced st))"
  unfolding visit_neighbor_def Let_def untraced_simps
  by (intro agrees_bind_same agrees_bind [OF load_unvisited_agrees [OF assms]])
    (auto split: option.splits intro!: agrees_bind_same accept_agrees)

lemma expand_agrees:
  assumes "overrun \<in> E"
  shows "agrees E (\<lambda>(us, s) x. x = (us, untraced s)) (expand_candidate a c st) (expand_candidate a c (untraced st))"
proof -
  let ?lm = "HnswGetLayerM (sa_m a) (sa_lc a)"
  let ?load = "\<lambda>tr. case sa_index a of
      None \<Rightarrow> bindE (HnswLoadUnvisitedFromMemory (ss_mem st) (sc_element c) (ss_v st) ?lm (sa_lc a)) (\<lambda>(us, v). Inr (us, v, tr))
    | Some index \<Rightarrow> bindE (HnswPtrAccess (ss_mem st) (sc_element c)) (\<lambda>ce.
        HnswLoadUnvisitedFromDisk ce (ss_v st) index (sa_m a) ?lm (sa_lc a) tr)"
  have disk: "agrees E (\<lambda>x y. y = (fst x, fst (snd x), None))
      (HnswLoadUnvisitedFromDisk e v index m lm lc tr) (HnswLoadUnvisitedFromDisk e v index m lm lc None)" for e v index m lm lc tr
    unfolding HnswLoadUnvisitedFromDisk_def
    by (auto split: option.splits prod.splits intro!: agrees_bind [OF load_tids_agrees [OF assms]])
  have "agrees E (\<lambda>x y. y = (fst x, fst (snd x), None)) (?load (ss_trace st)) (?load None)"
    by (cases "sa_index a") (auto intro!: agrees_bind_same disk)
  then show ?thesis
    unfolding expand_candidate_def Let_def untraced_simps
    by (rule agrees_bind) (auto simp: untraced_def)
qed

lemma step_agrees:
  assumes "overrun \<in> E"
  shows "agrees E (\<lambda>(c, s) x. x = (c, untraced s)) (search_step a st) (search_step a (untraced st))"
proof -
  have fold: "agrees E (\<lambda>s x. x = untraced s) (foldE (visit_neighbor a) us s) (foldE (visit_neighbor a) us (untraced s))" for us s
    by (rule agrees_foldE) (use visit_agrees [OF assms] in auto)
  show ?thesis
    unfolding search_step_def untraced_simps
    by (intro agrees_bind_same)
      (auto simp: untraced_upd [symmetric] simp del: untraced_upd
        intro!: agrees_bind_same agrees_if agrees_bind [OF expand_agrees [OF assms]] agrees_bind [OF fold])
qed

lemma loop_agrees:
  assumes "overrun \<in> E"
  shows "agrees E (\<lambda>s x. x = untraced s) (search_loop a st) (search_loop a (untraced st))"
proof (induction a st rule: search_loop.induct)
  case (1 a st)
  show ?case
  proof (cases "pairingheap_is_empty (ss_C st)")
    case True
    then show ?thesis by (simp add: search_loop.simps [of a st] search_loop.simps [of a "untraced st"])
  next
    case False
    have "agrees E (\<lambda>s x. x = untraced s)
       (bindE (search_step a st) (\<lambda>(continue, st'). if continue then search_loop a st' else Inr st'))
       (bindE (search_step a (untraced st)) (\<lambda>(continue, st'). if continue then search_loop a st' else Inr st'))"
      by (rule agrees_bind [OF step_agrees [OF assms]]) (use 1 [OF False] in auto)
    with False show ?thesis by (simp add: search_loop.simps [of a st] search_loop.simps [of a "untraced st"])
  qed
qed

lemma search_agrees:
  assumes "overrun \<in> E"
  shows "agrees E (\<lambda>(w, s) x. x = (w, untraced s))
    (HnswSearchLayer a ep v discarded init tuples trace mem) (HnswSearchLayer a ep v discarded init tuples None mem)"
proof -
  let ?i = "v = None \<or> init"
  have init: "search_init v discarded ?i tuples None mem = untraced (search_init v discarded ?i tuples trace mem)"
    by (simp add: search_init_def untraced_def)
  have entry: "agrees E (\<lambda>s x. x = untraced s) (add_entry_point a i sc st) (add_entry_point a i sc (untraced st))" for i sc st
    by (auto simp: add_entry_point_def Let_def split: prod.splits intro!: agrees_bind_same agrees_bind [where R = "\<lambda>s x. x = untraced s"])
  have fold: "agrees E (\<lambda>s x. x = untraced s) (foldE (add_entry_point a i) ep st) (foldE (add_entry_point a i) ep (untraced st))" for i st
    by (rule agrees_foldE) (use entry in auto)
  show ?thesis
    unfolding HnswSearchLayer_def Let_def init
    by (rule agrees_bind [OF fold], simp only:, rule agrees_bind [OF loop_agrees [OF assms]]) simp
qed

subsection \<open>Scans\<close>

text \<open>
  The errors of the trace in a scan: an array of pages or returned TIDs is too small, or tracing was turned on after
  the scan had started and the trace was never initialized. \<open>plain\<close> is a setting, a state or a scan without tracing;
  the number \<open>n\<close> of the scan is the one part of the state besides the trace that differs.
\<close>

definition trace_errors :: "pg_error set" where
  "trace_errors = {overrun, BadAccess ''trace'', BadAccess ''returned_tids''}"

definition plain_settings :: "hnsw_settings \<Rightarrow> hnsw_settings" where
  "plain_settings gs = gs\<lparr>gs_trace_enabled := False\<rparr>"

definition plain_opaque :: "int \<Rightarrow> 'v HnswScanOpaqueData \<Rightarrow> 'v HnswScanOpaqueData" where
  "plain_opaque n so = so\<lparr>so_trace := None, so_query_id := n\<rparr>"

definition plain_scan :: "int \<Rightarrow> 'v IndexScanDescData \<Rightarrow> 'v IndexScanDescData" where
  "plain_scan n scan = scan\<lparr>sd_opaque := map_option (plain_opaque n) (sd_opaque scan)\<rparr>"

lemma plain_settings_simps [simp]:
  "gs_ef_search (plain_settings gs) = gs_ef_search gs" "gs_iterative_scan (plain_settings gs) = gs_iterative_scan gs"
  "gs_max_scan_tuples (plain_settings gs) = gs_max_scan_tuples gs" "\<not> gs_trace_enabled (plain_settings gs)"
  by (simp_all add: plain_settings_def)

lemma plain_opaque_simps [simp]:
  "so_typeInfo (plain_opaque n so) = so_typeInfo so" "so_first (plain_opaque n so) = so_first so"
  "so_w (plain_opaque n so) = so_w so" "so_v (plain_opaque n so) = so_v so"
  "so_discarded (plain_opaque n so) = so_discarded so" "so_q (plain_opaque n so) = so_q so"
  "so_m (plain_opaque n so) = so_m so" "so_tuples (plain_opaque n so) = so_tuples so"
  "so_previousDistance (plain_opaque n so) = so_previousDistance so"
  "so_maxMemory (plain_opaque n so) = so_maxMemory so" "so_support (plain_opaque n so) = so_support so"
  "plain_opaque n (trace_back t so) = plain_opaque n so" "trace_back None so = so"
  by (simp_all add: plain_opaque_def trace_back_def split: option.splits)

lemma plain_opaque_upd [simp]:
  "plain_opaque n (so\<lparr>so_w := w\<rparr>) = (plain_opaque n so)\<lparr>so_w := w\<rparr>"
  "plain_opaque n (so\<lparr>so_first := b\<rparr>) = (plain_opaque n so)\<lparr>so_first := b\<rparr>"
  "plain_opaque n (so\<lparr>so_v := v\<rparr>) = (plain_opaque n so)\<lparr>so_v := v\<rparr>"
  "plain_opaque n (so\<lparr>so_discarded := d\<rparr>) = (plain_opaque n so)\<lparr>so_discarded := d\<rparr>"
  "plain_opaque n (so\<lparr>so_q := q\<rparr>) = (plain_opaque n so)\<lparr>so_q := q\<rparr>"
  "plain_opaque n (so\<lparr>so_m := m\<rparr>) = (plain_opaque n so)\<lparr>so_m := m\<rparr>"
  "plain_opaque n (so\<lparr>so_tuples := k\<rparr>) = (plain_opaque n so)\<lparr>so_tuples := k\<rparr>"
  "plain_opaque n (so\<lparr>so_previousDistance := x\<rparr>) = (plain_opaque n so)\<lparr>so_previousDistance := x\<rparr>"
  by (simp_all add: plain_opaque_def)

lemma overrun_trace_error: "overrun \<in> trace_errors"
  by (simp add: trace_errors_def)

lemma trace_arg_agrees:
  assumes "\<And>t. agrees trace_errors S (k t) (k0 None)"
  shows "agrees trace_errors S (bindE (trace_arg gs so) k) (bindE (trace_arg (plain_settings gs) so0) k0)"
  using assms by (auto simp: trace_arg_def trace_errors_def split: option.splits)

lemma descent_agrees:
  "agrees trace_errors (\<lambda>x y. y = (fst x, None, snd (snd x)))
     (scan_descent q index support m lcs (ep, trace, mem)) (scan_descent q index support m lcs (ep, None, mem))"
proof (induction lcs arbitrary: ep trace mem)
  case (Cons lc lcs)
  show ?case
    unfolding scan_descent.simps
    by (rule agrees_bind [OF search_agrees [OF overrun_trace_error]]) (auto intro!: Cons)
qed simp

lemma items_agrees:
  "agrees trace_errors (\<lambda>x y. y = (fst x, plain_opaque n (fst (snd x)), snd (snd x)))
     (GetScanItems gs index so v mem) (GetScanItems (plain_settings gs) index (plain_opaque n so) v mem)"
proof -
  have "agrees trace_errors (\<lambda>x y. y = (fst x, plain_opaque n (fst (snd x)), snd (snd x)))
     (bindE (HnswSearchLayer a ep (Some InitVisited) d True t tr mem) (\<lambda>(w, st). Inr (w, trace_back (ss_trace st) (f st), ss_mem st)))
     (bindE (HnswSearchLayer a ep (Some InitVisited) d True t None mem) (\<lambda>(w, st). Inr (w, trace_back (ss_trace st) (g st), ss_mem st)))"
    if "\<And>st. g (untraced st) = plain_opaque n (f st)" for a ep d t tr mem and f g :: "'a search_state \<Rightarrow> 'a HnswScanOpaqueData"
    by (rule agrees_bind [OF search_agrees [OF overrun_trace_error]]) (auto simp: that)
  then show ?thesis
    unfolding GetScanItems_def Let_def
    by (intro agrees_bind_same)
      (auto split: option.splits intro!: agrees_bind_same trace_arg_agrees agrees_bind [OF descent_agrees])
qed

lemma resume_agrees:
  "agrees trace_errors (\<lambda>x y. y = (fst x, plain_opaque n (fst (snd x)), snd (snd x)))
     (ResumeScanItems gs index h so mem) (ResumeScanItems (plain_settings gs) index h (plain_opaque n so) mem)"
  unfolding ResumeScanItems_def Let_def
  by (intro agrees_if)
    (auto split: prod.splits option.splits
      intro!: agrees_bind_same trace_arg_agrees agrees_bind [OF search_agrees [OF overrun_trace_error]])

text \<open>
  The memory limit of an iterative scan compares \<^verbatim>\<open>MemoryContextMemAllocated\<close> of the context that also holds the
  arrays of the trace, so the allocated memory is a function of its own in the scan without a trace; the limit must
  decide alike.
\<close>

definition same_limit ::
  "hnsw_settings \<Rightarrow> nat \<Rightarrow> ('v memory \<Rightarrow> nat) \<Rightarrow> ('v memory \<Rightarrow> nat) \<Rightarrow> bool" where
  "same_limit gs maxMemory allocated allocated0 \<longleftrightarrow>
     gs_iterative_scan gs = HNSW_ITERATIVE_SCAN_OFF \<or>
     (\<forall>mem. maxMemory < allocated mem \<longleftrightarrow> maxMemory < allocated0 mem)"

lemma refill_agrees:
  assumes "same_limit gs (so_maxMemory so) allocated allocated0"
  shows "agrees trace_errors (\<lambda>x y. y = (fst x, plain_opaque n (fst (snd x)), snd (snd x)))
     (scan_refill gs allocated index so mem) (scan_refill (plain_settings gs) allocated0 index (plain_opaque n so) mem)"
proof -
  have lim: "gs_iterative_scan gs \<noteq> HNSW_ITERATIVE_SCAN_OFF \<Longrightarrow>
      so_maxMemory so < allocated mem \<longleftrightarrow> so_maxMemory so < allocated0 mem"
    using assms by (simp add: same_limit_def)
  show ?thesis
    unfolding scan_refill_def plain_opaque_simps plain_settings_simps
    by (intro agrees_if)
      (auto simp: lim split: option.splits prod.splits intro!: agrees_bind [OF resume_agrees])
qed

lemma fetch_agrees:
  "agrees trace_errors (\<lambda>x y. y = (fst x, plain_opaque n (fst (snd x)), snd (snd x)))
     (scan_fetch gs so mem) (scan_fetch (plain_settings gs) (plain_opaque n so) mem)"
  by (auto simp: scan_fetch_def Let_def intro!: agrees_bind_same)

lemma round_agrees:
  assumes "same_limit gs (so_maxMemory so) allocated allocated0"
  shows "agrees trace_errors (\<lambda>x y. y = (fst x, plain_opaque n (fst (snd x)), snd (snd x)))
     (scan_round gs allocated index so mem) (scan_round (plain_settings gs) allocated0 index (plain_opaque n so) mem)"
  unfolding scan_round_def
  by (rule agrees_bind [OF refill_agrees [OF assms]]) (auto intro!: fetch_agrees)

lemma trace_back_maxMemory [simp]: "so_maxMemory (trace_back t so) = so_maxMemory so"
  by (cases t) (simp_all add: trace_back_def)

lemma round_maxMemory:
  assumes "scan_round gs allocated index so mem = Inr (outcome, so', mem')"
  shows "so_maxMemory so' = so_maxMemory so"
proof -
  have resume: "so_maxMemory so2 = so_maxMemory so" if "ResumeScanItems gs index h so mem = Inr (w, so2, mem2)" for h w so2 mem2
    using that by (cases rule: ResumeScanItems_cases) simp_all
  have refill: "so_maxMemory so2 = so_maxMemory so" if "scan_refill gs allocated index so mem = Inr (found, so2, mem2)"
    for found so2 mem2
    using that by (cases rule: scan_refill_cases) (simp_all add: resume)
  have fetch: "so_maxMemory so' = so_maxMemory so2" if "scan_fetch gs so2 mem2 = Inr (outcome, so', mem')" for so2 mem2
    using that by (auto simp: scan_fetch_def Let_def split: if_splits)
  from assms obtain found so2 mem2 where f: "scan_refill gs allocated index so mem = Inr (found, so2, mem2)"
    "(if \<not> found then Inr (SBreak, so2, mem2) else scan_fetch gs so2 mem2) = Inr (outcome, so', mem')"
    by (auto simp: scan_round_def)
  from f(2) fetch refill [OF f(1)] show ?thesis by (cases found) auto
qed

lemma scan_loop_agrees:
  "same_limit gs (so_maxMemory so) allocated allocated0 \<Longrightarrow>
     agrees trace_errors (\<lambda>x y. y = (fst x, plain_opaque n (fst (snd x)), snd (snd x)))
       (scan_loop gs allocated index so mem) (scan_loop (plain_settings gs) allocated0 index (plain_opaque n so) mem)"
proof (induction gs allocated index so mem rule: scan_loop.induct)
  case (1 gs allocated index so mem)
  show ?case
    unfolding scan_loop.simps [of gs allocated index so mem]
      scan_loop.simps [of "plain_settings gs" allocated0 index "plain_opaque n so" mem]
  proof (rule agrees_bind [OF round_agrees [OF 1(2)]])
    fix x y
    assume r: "scan_round gs allocated index so mem = Inr x" and y: "y = (fst x, plain_opaque n (fst (snd x)), snd (snd x))"
    obtain outcome so1 mem1 where x: "x = (outcome, so1, mem1)" by (rule prod_cases3)
    have m: "so_maxMemory so1 = so_maxMemory so" using round_maxMemory r x by blast
    show "agrees trace_errors (\<lambda>x y. y = (fst x, plain_opaque n (fst (snd x)), snd (snd x)))
        (case x of (outcome, so1, mem1) \<Rightarrow> case outcome of SBreak \<Rightarrow> Inr (None, so1, mem1)
           | SContinue \<Rightarrow> scan_loop gs allocated index so1 mem1 | SReturn h \<Rightarrow> Inr (Some h, so1, mem1))
        (case y of (outcome, so1, mem1) \<Rightarrow> case outcome of SBreak \<Rightarrow> Inr (None, so1, mem1)
           | SContinue \<Rightarrow> scan_loop (plain_settings gs) allocated0 index so1 mem1 | SReturn h \<Rightarrow> Inr (Some h, so1, mem1))"
      using 1(1) [OF r x [symmetric] refl] 1(2) m unfolding x y by (cases outcome) (simp_all add: x)
  qed
qed

lemma first_agrees:
  "agrees trace_errors (\<lambda>x y. y = (plain_opaque n (fst x), snd x))
     (scan_first gs index scan so mem) (scan_first (plain_settings gs) index (plain_scan n' scan) (plain_opaque n so) mem)"
proof -
  have v: "GetScanValue keys (plain_opaque n so) = GetScanValue keys so" for keys
    unfolding GetScanValue_def plain_opaque_simps ..
  have "sd_orderByData (plain_scan n' scan) = sd_orderByData scan" "sd_mvcc (plain_scan n' scan) = sd_mvcc scan"
    by (simp_all add: plain_scan_def)
  then show ?thesis
    by (auto simp: scan_first_def v split: option.splits intro!: agrees_bind_same agrees_bind [OF items_agrees])
qed

lemma first_maxMemory: "scan_first gs index scan so mem = Inr (so', mem') \<Longrightarrow> so_maxMemory so' = so_maxMemory so"
  by (auto simp: scan_first_def GetScanItems_def Let_def split: option.splits if_splits)

lemma returned_agrees:
  assumes "\<And>t. agrees trace_errors S (k t) r0"
  shows "agrees trace_errors S (bindE (case tr of None \<Rightarrow> Inr None
     | Some t \<Rightarrow> bindE (trace_returned h t) (\<lambda>t1. Inr (Some (trace_call entry now t1)))) k) r0"
proof -
  have "e \<in> trace_errors" if "trace_returned h t = Inl e" for t e
    using that by (auto simp: trace_returned_def bindE_Inl_iff array_set_def trace_errors_def split: if_splits)
  with assms show ?thesis by (cases tr; cases "trace_returned h (the tr)") auto
qed

lemma gettuple_agrees:
  assumes "\<And>so. sd_opaque scan = Some so \<Longrightarrow> same_limit gs (so_maxMemory so) allocated allocated0"
  shows "agrees trace_errors (\<lambda>x y. y = (fst x, plain_scan n (fst (snd x)), snd (snd x)))
    (hnswgettuple gs allocated index entry now scan mem)
    (hnswgettuple (plain_settings gs) allocated0 index entry now (plain_scan n scan) mem)"
proof (cases "sd_opaque scan")
  case None
  then show ?thesis by (simp add: hnswgettuple_def plain_scan_def)
next
  case (Some so)
  let ?scan = "if so_first so then scan\<lparr>sd_nsearches := map_option (\<lambda>n. n + 1) (sd_nsearches scan)\<rparr> else scan"
  let ?rest = "\<lambda>scan entry now found (so2 :: 'a HnswScanOpaqueData) mem2 trace. case found of
      Some heaptid \<Rightarrow>
        bindE (case trace of None \<Rightarrow> Inr None
               | Some t \<Rightarrow> bindE (trace_returned heaptid t) (\<lambda>t1. Inr (Some (trace_call entry now t1)))) (\<lambda>t2.
        Inr (True, scan\<lparr>sd_opaque := Some (trace_back t2 so2), sd_xs_heaptid := heaptid,
                        sd_xs_recheck := False, sd_xs_recheckorderby := False\<rparr>, mem2))
    | None \<Rightarrow>
        Inr (False, scan\<lparr>sd_opaque := Some (trace_back (map_option (trace_call entry now) trace) so2)\<rparr>, mem2)"
  have rest: "agrees trace_errors (\<lambda>x y. y = (fst x, plain_scan n (fst (snd x)), snd (snd x)))
      (?rest ?scan entry now found so2 mem2 t)
      (?rest (plain_scan n ?scan) entry now found (plain_opaque n so2) mem2 None)" for found so2 mem2 t
    by (cases found) (auto simp: plain_scan_def intro!: returned_agrees)
  have f: "agrees trace_errors (\<lambda>x y. y = (plain_opaque n (fst x), snd x))
      (if so_first so then scan_first gs index ?scan so mem else Inr (so, mem))
      (if so_first so then scan_first (plain_settings gs) index (plain_scan n ?scan) (plain_opaque n so) mem
       else Inr (plain_opaque n so, mem))"
    by (intro agrees_if first_agrees) simp
  have lim: "same_limit gs (so_maxMemory so1) allocated allocated0"
    if "(if so_first so then scan_first gs index ?scan so mem else Inr (so, mem)) = Inr (so1, mem1)" for so1 mem1
    using that assms [OF Some] first_maxMemory [of gs index ?scan so mem so1 mem1] by (auto split: if_splits)
  have opq: "sd_opaque (plain_scan n scan) = Some (plain_opaque n so)" by (simp add: plain_scan_def Some)
  have scn: "(if so_first (plain_opaque n so) then (plain_scan n scan)
       \<lparr>sd_nsearches := map_option (\<lambda>n. n + 1) (sd_nsearches (plain_scan n scan))\<rparr> else plain_scan n scan) = plain_scan n ?scan"
    by (simp add: plain_scan_def)
  show ?thesis
    unfolding hnswgettuple_def Some opq ofOption_simps bindE_simps Let_def scn
    unfolding plain_opaque_simps
  proof (rule agrees_bind [OF f])
    fix x y
    assume x: "(if so_first so then scan_first gs index ?scan so mem else Inr (so, mem)) = Inr x"
      and y: "y = (plain_opaque n (fst x), snd x)"
    have "agrees trace_errors (\<lambda>x y. y = (fst x, plain_scan n (fst (snd x)), snd (snd x)))
      (bindE (scan_loop gs allocated index (fst x) (snd x)) (\<lambda>(found, so2, mem2).
        bindE (trace_arg gs so2) (?rest ?scan entry now found so2 mem2)))
      (bindE (scan_loop (plain_settings gs) allocated0 index (plain_opaque n (fst x)) (snd x)) (\<lambda>(found, so2, mem2).
        bindE (trace_arg (plain_settings gs) so2) (?rest (plain_scan n ?scan) entry now found so2 mem2)))"
    proof (rule agrees_bind [OF scan_loop_agrees [OF lim]])
      show "(if so_first so then scan_first gs index ?scan so mem else Inr (so, mem)) = Inr (fst x, snd x)" using x by simp
    next
      fix a b :: "ItemPointerData option \<times> 'a HnswScanOpaqueData \<times> 'a memory"
      assume b: "b = (fst a, plain_opaque n (fst (snd a)), snd (snd a))"
      show "agrees trace_errors (\<lambda>x y. y = (fst x, plain_scan n (fst (snd x)), snd (snd x)))
        (case a of (found, so2, mem2) \<Rightarrow> bindE (trace_arg gs so2) (?rest ?scan entry now found so2 mem2))
        (case b of (found, so2, mem2) \<Rightarrow> bindE (trace_arg (plain_settings gs) so2) (?rest (plain_scan n ?scan) entry now found so2 mem2))"
        unfolding b case_prod_beta fst_conv snd_conv by (intro trace_arg_agrees rest)
    qed
    then show "agrees trace_errors (\<lambda>x y. y = (fst x, plain_scan n (fst (snd x)), snd (snd x)))
      (case x of (so1, mem1) \<Rightarrow> bindE (scan_loop gs allocated index so1 mem1) (\<lambda>(found, so2, mem2).
        bindE (trace_arg gs so2) (?rest ?scan entry now found so2 mem2)))
      (case y of (so1, mem1) \<Rightarrow> bindE (scan_loop (plain_settings gs) allocated0 index so1 mem1) (\<lambda>(found, so2, mem2).
        bindE (trace_arg (plain_settings gs) so2) (?rest (plain_scan n ?scan) entry now found so2 mem2)))"
      unfolding y by (simp only: case_prod_beta fst_conv snd_conv)
  qed
qed

lemma gettuple_maxMemory:
  assumes "hnswgettuple gs allocated index entry now scan mem = Inr (found, scan', mem')" "sd_opaque scan = Some so"
  obtains so' where "sd_opaque scan' = Some so'" "so_maxMemory so' = so_maxMemory so"
proof -
  from assms(1) obtain so0 scan1 so1 mem1 r so2 t where h: "sd_opaque scan = Some so0"
    "(if so_first so0 then scan_first gs index scan1 so0 mem else Inr (so0, mem)) = Inr (so1, mem1)"
    "scan_loop gs allocated index so1 mem1 = Inr (r, so2, mem')" "sd_opaque scan' = Some (trace_back t so2)"
    by (rule hnswgettuple_run)
  have loop: "scan_loop gs allocated index so mem = Inr (r, so', mem') \<Longrightarrow> so_maxMemory so' = so_maxMemory so" for so mem so'
  proof (induction gs allocated index so mem rule: scan_loop.induct)
    case (1 gs allocated index so mem)
    from 1(2) obtain outcome so1 mem1 where s: "scan_round gs allocated index so mem = Inr (outcome, so1, mem1)"
      and rest: "(case outcome of SBreak \<Rightarrow> Inr (None, so1, mem1)
         | SContinue \<Rightarrow> scan_loop gs allocated index so1 mem1
         | SReturn heaptid \<Rightarrow> Inr (Some heaptid, so1, mem1)) = Inr (r, so', mem')"
      by (subst (asm) scan_loop.simps) auto
    from 1(1) [OF s refl refl] rest round_maxMemory [OF s] show ?case by (cases outcome) auto
  qed
  have "so_maxMemory so1 = so_maxMemory so0"
    using h(2) first_maxMemory [of gs index scan1 so0 mem so1 mem1] by (auto split: if_splits)
  with loop [OF h(3)] h(1,4) assms(2) that show thesis by simp
qed

lemma scan_run_agrees:
  assumes "sd_opaque scan = Some so"
    and "\<forall>(gs, entry, now) \<in> set calls. same_limit gs (so_maxMemory so) allocated allocated0"
  shows "agrees trace_errors (=) (scan_run allocated index calls scan mem)
    (scan_run allocated0 index (map (\<lambda>(gs, ob). (plain_settings gs, ob)) calls) (plain_scan n scan) mem)"
  using assms
proof (induction allocated index calls scan mem arbitrary: so rule: scan_run.induct)
  case (2 allocated index gs entry now calls scan mem)
  have lim: "same_limit gs (so_maxMemory so') allocated allocated0" if "sd_opaque scan = Some so'" for so'
    using 2(2,3) that by simp
  show ?case
    unfolding list.map prod.case scan_run.simps
  proof (rule agrees_bind [OF gettuple_agrees [OF lim]])
    fix x y
    assume g: "hnswgettuple gs allocated index entry now scan mem = Inr x"
      and y: "y = (fst x, plain_scan n (fst (snd x)), snd (snd x))"
    obtain found scan1 mem1 where x: "x = (found, scan1, mem1)" by (rule prod_cases3)
    obtain so1 where so1: "sd_opaque scan1 = Some so1" "so_maxMemory so1 = so_maxMemory so"
      using gettuple_maxMemory [OF g [unfolded x] 2(2)] .
    have d: "sd_xs_heaptid (plain_scan n scan1) = sd_xs_heaptid scan1"
      "(case sd_opaque (plain_scan n scan1) of None \<Rightarrow> 0 | Some so \<Rightarrow> so_previousDistance so) =
        (case sd_opaque scan1 of None \<Rightarrow> 0 | Some so \<Rightarrow> so_previousDistance so)"
      using so1(1) by (simp_all add: plain_scan_def)
    have "agrees trace_errors (=) (scan_run allocated index calls scan1 mem1)
      (scan_run allocated0 index (map (\<lambda>(gs, ob). (plain_settings gs, ob)) calls) (plain_scan n scan1) mem1)" if found
      by (rule 2(1) [OF g x [symmetric] refl _ so1(1)]) (use 2(3) so1(2) that in auto)
    then show "agrees trace_errors (=)
       (case x of (found, scan1, mem1) \<Rightarrow> if \<not> found then Inr []
          else bindE (scan_run allocated index calls scan1 mem1) (\<lambda>rs.
            Inr ((sd_xs_heaptid scan1, case sd_opaque scan1 of None \<Rightarrow> 0 | Some so \<Rightarrow> so_previousDistance so) # rs)))
       (case y of (found, scan1, mem1) \<Rightarrow> if \<not> found then Inr []
          else bindE (scan_run allocated0 index (map (\<lambda>(gs, ob). (plain_settings gs, ob)) calls) scan1 mem1) (\<lambda>rs.
            Inr ((sd_xs_heaptid scan1, case sd_opaque scan1 of None \<Rightarrow> 0 | Some so \<Rightarrow> so_previousDistance so) # rs)))"
      unfolding x y prod.case fst_conv snd_conv d by (auto intro: agrees_bind)
  qed
qed simp

lemma rescan_agrees:
  assumes "hnswrescan gs now counter scan keys orderbys mem = Inr (scan', mem', counter')" "sd_opaque scan = Some so"
  shows "hnswrescan (plain_settings gs) now counter scan keys orderbys mem =
      Inr (plain_scan (so_query_id so) scan', mem', counter)"
    and "\<exists>so'. sd_opaque scan' = Some so' \<and> so_maxMemory so' = so_maxMemory so"
  using assms
  by (auto simp: hnswrescan_def Let_def plain_scan_def plain_opaque_def HnswTraceInit_def split: if_splits)

end
