(* ===== verification/Search_Properties.thy ===== *)
theory Search_Properties
  imports Example_Scan Example_Graph Hnsw_Connect Hnsw_Trace_Transparent
begin

section \<open>Properties of searching, selecting and scanning\<close>

text \<open>
  The properties of the graph algorithms that read an index: the search of one layer, the choice of neighbors
  with its cached flags, the scan built on them, and what tracing may change.
\<close>

subsection \<open>Searching a layer\<close>

text \<open>
  C4: on a well-formed index, with numeric distances and at least one entry point (at most \<^verbatim>\<open>ef\<close> when no
  element is skipped), \<^verbatim>\<open>HnswSearchLayer\<close> ends, with or without a trace. Unless memory runs out it returns a non-empty list of
  loaded elements of the layer with their distances, furthest first; when no element is skipped these are at
  most \<^verbatim>\<open>ef\<close>. No read outside a page, tuple or array happens on the way except one: a trace whose
  arrays do not have room for all pages of the index (\<open>\<not> trace_safe\<close>) may be read past its end.
\<close>

theorem HnswSearchLayer_returns:
  assumes "search_ok a index" "mem_ok mem"
    and "ep \<noteq> []" "\<forall>sc \<in> set ep. cand_ok a index mem sc" "\<not> sa_skip a \<longrightarrow> length ep \<le> sa_ef a"
  shows "HnswSearchLayer a ep v discarded initVisited tuples trace mem = Inl out_of_memory \<or>
    HnswSearchLayer a ep v discarded initVisited tuples trace mem = Inl (BadAccess ''pages_seen'') \<and> \<not> trace_safe index trace \<or>
    (\<exists>w st. HnswSearchLayer a ep v discarded initVisited tuples trace mem = Inr (w, st) \<and>
       w \<noteq> [] \<and> sorted_wrt (\<lambda>a b. float8_le (sc_distance b) (sc_distance a)) w \<and>
       (\<not> sa_skip a \<longrightarrow> length w \<le> sa_ef a) \<and> (\<forall>sc \<in> set w. cand_ok a index (ss_mem st) sc) \<and>
       mem_ok (ss_mem st) \<and> (trace_safe index trace \<longrightarrow> trace_safe index (ss_trace st)))"
proof (cases "trace_safe index trace")
  case True
  from search_layer_done [OF assms(1,2) True assms(3-5), of v discarded initVisited tuples] show ?thesis
    by (elim disjE exE conjE) (auto simp: search_done_result)
next
  case False
  let ?r = "HnswSearchLayer a ep v discarded initVisited tuples trace mem"
  have "trace_safe index None" by (simp add: trace_safe_def)
  note dn = search_layer_done [OF assms(1,2) this assms(3-5), of v discarded initVisited tuples]
  have agree: "agrees {overrun} (\<lambda>(w, s) x. x = (w, untraced s)) ?r (HnswSearchLayer a ep v discarded initVisited tuples None mem)"
    by (rule search_agrees) simp
  show ?thesis
  proof (cases ?r)
    case (Inl e)
    with agree dn False show ?thesis by (auto simp: overrun_def)
  next
    case (Inr x)
    obtain w st where x: "x = (w, st)" by (rule prod.exhaust)
    with agree Inr have "HnswSearchLayer a ep v discarded initVisited tuples None mem = Inr (w, untraced st)"
      by (auto simp: agrees_Inr_left)
    with dn have d: "search_done a index (visited_before ep v initVisited mem) (untraced st)" "w = drain_candidates (ss_W (untraced st))"
      by auto
    note f = search_done_result [OF d(1)]
    have "w \<noteq> [] \<and> sorted_wrt (\<lambda>a b. float8_le (sc_distance b) (sc_distance a)) w \<and> (\<not> sa_skip a \<longrightarrow> length w \<le> sa_ef a) \<and>
        (\<forall>sc \<in> set w. cand_ok a index (ss_mem (untraced st)) sc) \<and> mem_ok (ss_mem (untraced st))"
      unfolding d(2) using f(1-5) by auto
    with Inr x False show ?thesis by simp
  qed
qed

theorem HnswSearchLayer_returns_witness:
  "\<exists>w st. HnswSearchLayer ex_args [ex_entry] None None True None None ex_mem1 = Inr (w, st) \<and>
     w \<noteq> [] \<and> sorted_wrt (\<lambda>a b. float8_le (sc_distance b) (sc_distance a)) w \<and> length w \<le> sa_ef ex_args \<and>
     (\<forall>sc \<in> set w. cand_ok ex_args ex_index (ss_mem st) sc)"
proof -
  have "\<not> sa_skip ex_args" "length [ex_entry] \<le> sa_ef ex_args" by (simp_all add: ex_args_def)
  with HnswSearchLayer_returns [OF ex_search_ok ex_mem1_ok, of "[ex_entry]" None None True None None] ex_search ex_entry_ok
  show ?thesis by auto
qed

text \<open>
  C1: the result holds the best of all elements the search has looked at: an element of the layer that
  was visited during the search is in the result, or the result is full and every element of it is
  at most as far from the query.
\<close>

theorem HnswSearchLayer_best:
  assumes "search_ok a index" "mem_ok mem" "trace_safe index trace"
    and "ep \<noteq> []" "\<forall>sc \<in> set ep. cand_ok a index mem sc" "\<not> sa_skip a" "length ep \<le> sa_ef a"
    and "HnswSearchLayer a ep v discarded initVisited tuples trace mem = Inr (w, st)"
    and "tid \<in> vh_tids (ss_v st)" "tid \<notin> visited_before ep v initVisited mem"
    and "live_at index tid etup" "sa_lc a \<le> unat (et_level etup)"
  shows "(\<exists>sc \<in> set w. cand_tid (ss_mem st) sc = tid) \<or>
    length w = sa_ef a \<and>
    (\<forall>sc \<in> set w. float8_le (sc_distance sc) (tuple_distance (sa_q a) (sa_support a) etup))"
proof -
  have d: "search_done a index (visited_before ep v initVisited mem) st" "w = drain_candidates (ss_W st)"
    using search_layer_done [OF assms(1-5), of v discarded initVisited tuples] assms(7,8) by auto
  show ?thesis
    using search_done_result(7) [OF d(1), of tid] search_done_result(3) [OF d(1) assms(6)] assms(9-12) d(2)
    by (auto simp: covered_def)
qed

theorem HnswSearchLayer_best_witness:
  "\<exists>w st. HnswSearchLayer ex_args [ex_entry] None None True None None ex_mem1 = Inr (w, st) \<and>
    ((\<exists>sc \<in> set w. cand_tid (ss_mem st) sc = ex_tid 3) \<or>
     length w = sa_ef ex_args \<and>
     (\<forall>sc \<in> set w. float8_le (sc_distance sc)
        (tuple_distance (sa_q ex_args) (sa_support ex_args) (ex_etup 2 20 4))))"
proof -
  obtain st where st: "HnswSearchLayer ex_args [ex_entry] None None True None None ex_mem1 =
      Inr ([ex_entry, \<lparr>sc_element = 256, sc_distance = 0\<rparr>], st)" "vh_tids (ss_v st) = {ex_tid 1, ex_tid 3}"
    using ex_search by blast
  show ?thesis
    using HnswSearchLayer_best [OF ex_search_ok ex_mem1_ok _ _ _ _ _ st(1), of "ex_tid 3" "ex_etup 2 20 4"]
      st ex_entry_ok
    by (auto simp: trace_safe_def ex_args_def visited_before_def ex_live_at)
qed

subsection \<open>Choosing neighbors\<close>

text \<open>
  C5: \<^verbatim>\<open>SelectNeighbors\<close> computes the heuristic of the HNSW paper: from more candidates than \<^verbatim>\<open>lm\<close> it selects,
  from the nearest on and ties broken by the element, those that are nearer to the base element than to every
  selected one, and fills up to \<^verbatim>\<open>lm\<close> with the nearest of the others. Reusing the \<^verbatim>\<open>closer\<close> flags of an earlier call
  (\<^verbatim>\<open>closerSet\<close>) changes nothing in the result, and the candidates keep their elements and distances.
\<close>

theorem SelectNeighbors_heuristic:
  assumes "lm < length c" "sortable c" "values_ok mem support (set (map bare c))"
    and "cache_arg mem support c closerSet nc"
  shows "\<exists>sr. SelectNeighbors mem c lm support closerSet nc True True = Inr sr \<and>
    map (\<lambda>i. bare (c ! i)) (sr_r sr) = choose_neighbors mem support lm (sort_key cand_key (map bare c)) \<and>
    map bare (sr_c sr) = map bare c \<and> length (sr_r sr) = lm"
proof -
  obtain r wd w c' where s: "SelectNeighbors mem c lm support closerSet nc True True =
       Inr \<lparr>sr_r = r @ take (lm - length r) wd, sr_c = c', sr_closerSet = True,
            sr_pruned = Some (hd (drop (lm - length r) wd @ w))\<rparr>"
    and h: "heuristic (\<lambda>i j. too_close mem support (bare (c ! i)) (bare (c ! j))) lm (rev (cand_order c)) [] [] =
       (r, wd, rev w)"
    and c': "map bare c' = map bare c" and ms: "mset w + mset r + mset wd = mset [0..<length c]"
    and fl: "\<forall>i \<in> set r. hc_closer (c' ! i)" "\<forall>i \<in> set wd. \<not> hc_closer (c' ! i)"
    and w: "w = [] \<or> length r = lm" "length r \<le> lm"
    by (rule SelectNeighbors_sorted [OF assms])
  have "size (mset w + mset r + mset wd) = length c" unfolding ms by simp
  then have "length (r @ take (lm - length r) wd) = lm" using w assms(1) by auto
  with s c' choose_neighbors_order [OF assms(2) h] show ?thesis by simp
qed

definition ex_values :: "int memory" where
  "ex_values = ex_memory\<lparr>mem_elems := [128 \<mapsto> (ex_loaded 1 1 2)\<lparr>he_value := Some 10\<rparr>,
     256 \<mapsto> (ex_loaded 3 2 4)\<lparr>he_value := Some 20\<rparr>, 384 \<mapsto> (ex_loaded 5 3 6)\<lparr>he_value := Some 30\<rparr>], mem_count := 3\<rparr>"

definition ex_cands :: "HnswCandidate list" where
  "ex_cands = [\<lparr>hc_element = 128, hc_distance = 0x3F800000, hc_closer = True\<rparr>,
     \<lparr>hc_element = 256, hc_distance = 0x40000000, hc_closer = False\<rparr>,
     \<lparr>hc_element = 384, hc_distance = 0x3F000000, hc_closer = False\<rparr>]"

lemma ex_cands_facts:
  "sortable ex_cands" "cache_valid ex_values (HnswInitSupport ex_index) (butlast ex_cands)"
  by code_simp+

lemma ex_cands_values: "values_ok ex_values (HnswInitSupport ex_index) (set (map bare ex_cands))"
  by (simp add: values_ok_def ex_cands_def bare_def bare_value_def ex_values_def HnswGetDistance_def
      HnswInitSupport_def ex_index_def ex_distance_def)

theorem SelectNeighbors_heuristic_witness:
  "\<exists>sr. SelectNeighbors ex_values ex_cands 2 (HnswInitSupport ex_index) True (Some 2) True True = Inr sr \<and>
    map (\<lambda>i. bare (ex_cands ! i)) (sr_r sr) =
      choose_neighbors ex_values (HnswInitSupport ex_index) 2 (sort_key cand_key (map bare ex_cands)) \<and>
    map bare (sr_c sr) = map bare ex_cands \<and> length (sr_r sr) = 2"
  using SelectNeighbors_heuristic [OF _ ex_cands_facts(1) ex_cands_values, of 2 True "Some 2"] ex_cands_facts(2)
  by (simp add: cache_arg_def ex_cands_def)

text \<open>
  C6: \<^verbatim>\<open>HnswUpdateConnection\<close> keeps a neighbor array within its limit and its cached flags valid. Below the
  limit the new element is appended; at the limit the array afterwards holds what the heuristic selects from the
  old neighbors and the new one, and the returned index is the replaced position (or none if the new element was
  the one to drop).
\<close>

theorem HnswUpdateConnection_selects:
  assumes "neighbors_ok mem support lm a" "new_neighbor_ok mem support a (p, dist)"
  shows "\<exists>a' i. HnswUpdateConnection mem a p dist lm support garbage = Inr (a', i) \<and> neighbors_ok mem support lm a' \<and>
    (if length (na_items a) < lm
     then i = Some (-2) \<and> map bare (na_items a') = map bare (na_items a) @ [(p, dist)]
     else set (map bare (na_items a')) =
            set (choose_neighbors mem support lm (sort_key cand_key (map bare (na_items a) @ [(p, dist)]))) \<and>
          (case i of None \<Rightarrow> map bare (na_items a') = map bare (na_items a)
           | Some k \<Rightarrow> 0 \<le> k \<and> k < int lm \<and> map bare (na_items a') = (map bare (na_items a))[nat k := (p, dist)]))"
proof (cases "length (na_items a) < lm")
  case True
  from HnswUpdateConnection_append [OF assms True, of garbage] True show ?thesis by (simp add: bare_def)
next
  case False
  then have len: "length (na_items a) = lm" using assms(1) by (simp add: neighbors_ok_def)
  obtain a' k where r: "HnswUpdateConnection mem a p dist lm support garbage =
      Inr (a', if k = lm then None else Some (int k))"
    "k \<le> lm" "map bare (na_items a') = (map bare (na_items a))[k := (p, dist)]"
    "set (map bare (na_items a')) =
       set (choose_neighbors mem support lm (sort_key cand_key (map bare (na_items a) @ [(p, dist)])))"
    "neighbors_ok mem support lm a'"
    by (rule HnswUpdateConnection_full [OF assms len])
  with len show ?thesis by (cases "k = lm") (simp_all add: list_update_beyond del: set_map)
qed

definition ex_neighbors :: HnswNeighborArray where
  "ex_neighbors = \<lparr>na_closerSet = True, na_items = butlast ex_cands, na_alloc = 2\<rparr>"

theorem HnswUpdateConnection_selects_witness:
  "\<exists>a' i. HnswUpdateConnection ex_values ex_neighbors 384 0x3F000000 2 (HnswInitSupport ex_index) False = Inr (a', i) \<and>
     neighbors_ok ex_values (HnswInitSupport ex_index) 2 a'"
proof -
  have "neighbors_ok ex_values (HnswInitSupport ex_index) 2 ex_neighbors"
    using ex_cands_facts values_ok_mono [OF ex_cands_values, of "set (map bare (butlast ex_cands))"]
    by (auto simp: neighbors_ok_def ex_neighbors_def sortable_def ex_cands_def)
  moreover have "new_neighbor_ok ex_values (HnswInitSupport ex_index) ex_neighbors (384, 0x3F000000)"
    using ex_cands_facts(1) values_ok_mono [OF ex_cands_values]
    by (auto simp: new_neighbor_ok_def ex_neighbors_def sortable_def ex_cands_def bare_def)
  ultimately show ?thesis
    using HnswUpdateConnection_selects [of ex_values "HnswInitSupport ex_index" 2 ex_neighbors 384 "0x3F000000" False]
    by auto
qed





subsection \<open>Scans\<close>

text \<open>
  C8: a scan returns every heap TID at most once: from \<^verbatim>\<open>hnswrescan\<close> on, through any number of calls of
  \<^verbatim>\<open>hnswgettuple\<close> with any settings, in any of the iterative modes and however often the search is resumed.
\<close>

theorem scan_returns_once:
  assumes "hnswrescan gs now counter scan keys orderbys mem = Inr (scan', mem', counter')" "mem_ok mem"
    and "heaps_unique index" "scan_run allocated index calls scan' mem' = Inr rs"
  shows "distinct (map fst rs)"
  using scan_run_distinct [OF assms(4) hnswrescan_state [OF assms(1,2)] assms(3)] by simp

text \<open>
  C9: in the mode \<^verbatim>\<open>strict_order\<close> the tuples of a scan come in the order of their distance, also across the
  batches of a resumed search. The distance reported for a tuple is the one of its element in the index from the
  order-by value passed to \<^verbatim>\<open>hnswrescan\<close>: from nothing if that value is null, and from the normalized value if the
  operator class has a normalization function (\<open>scan_query\<close>).
\<close>

theorem scan_strict_order:
  assumes "hnswrescan gs now counter scan keys (Some (key # rest)) mem = Inr (scan', mem', counter')" "mem_ok mem"
    and "sd_opaque scan = Some so" "0 < sd_numberOfOrderBys scan"
    and "heaps_unique index" "scan_run allocated index calls scan' mem' = Inr rs"
    and "\<forall>(gs, entry, now) \<in> set calls. gs_iterative_scan gs = HNSW_ITERATIVE_SCAN_STRICT"
  shows "successively (\<lambda>d e. \<not> float8_lt e d) (map snd rs) \<and>
    (\<forall>(h, d) \<in> set rs. \<exists>q. scan_query so key q \<and> at_distance index q (so_support so) h d)"
proof -
  obtain so' where so: "sd_opaque scan' = Some so'" "so_support so' = so_support so" "so_first so'"
    "so_typeInfo so' = so_typeInfo so" "sd_orderByData scan' = Some (take (sd_numberOfOrderBys scan) (key # rest))"
    using hnswrescan_opaque [OF assms(1)] assms(3,4) by (metis option.inject)
  have "hd (take (sd_numberOfOrderBys scan) (key # rest)) = key" using assms(4) by (cases "sd_numberOfOrderBys scan") simp_all
  moreover have "scan_query so' key q \<longleftrightarrow> scan_query so key q" for q
    unfolding scan_query_def so(2,4) ..
  ultimately show ?thesis
    using scan_run_strict [OF assms(6) hnswrescan_state [OF assms(1,2)] assms(5,7) so(1)] so(2,3,5)
    by (cases rs) (auto simp: successively_Cons)
qed

text \<open>
  C10: tracing does not change the tuples of a scan. Whatever settings the calls of a traced scan use, the scan runs into an error
  of the trace itself (\<open>trace_errors\<close>), or its outcome (the tuples with their distances, or the error) is the
  one of the same scan with \<^verbatim>\<open>hnsw.trace\<close> off. The arrays of the trace are allocated in the memory context
  of the scan, so in an iterative scan the memory limit must decide alike with and without them (\<open>same_limit\<close>).
\<close>

theorem scan_tracing_transparent:
  assumes "hnswrescan gs now counter scan keys orderbys mem = Inr (scan1, mem1, counter1)" "sd_opaque scan = Some so"
    and "\<forall>(gs, entry, now) \<in> set calls. same_limit gs (so_maxMemory so) allocated allocated0"
  shows "\<exists>scan0. hnswrescan (plain_settings gs) now counter scan keys orderbys mem = Inr (scan0, mem1, counter) \<and>
    ((\<exists>e \<in> trace_errors. scan_run allocated index calls scan1 mem1 = Inl e) \<or>
     scan_run allocated0 index (map (\<lambda>(gs, ob). (plain_settings gs, ob)) calls) scan0 mem1 =
       scan_run allocated index calls scan1 mem1)"
proof -
  note plain = rescan_agrees [OF assms(1,2)]
  then obtain so1 where "sd_opaque scan1 = Some so1" "so_maxMemory so1 = so_maxMemory so" by blast
  with scan_run_agrees [of scan1 so1 calls allocated allocated0 index mem1 "so_query_id so"] assms(3) plain(1)
  show ?thesis by (auto simp: agrees_def sum.rel_eq)
qed

lemma ex_heaps_unique: "heaps_unique ex_index"
proof -
  have "live_heaptids ex_index t =
      (if t = ex_tid 1 then [ItemPointerSet 0 1] else if t = ex_tid 3 then [ItemPointerSet 0 2] else [])" for t
  proof (cases "\<exists>etup. live_at ex_index t etup")
    case True
    then show ?thesis
      by (auto simp: ex_live_at live_heaptids_def etup_at_def ex_tid_def ex_ReadItem ex_etup_def)
  next
    case False
    then have "live_heaptids ex_index t = []"
      by (auto simp: live_at_def live_heaptids_def split: option.splits)
    with False show ?thesis by (auto simp: ex_live_at)
  qed
  then show ?thesis by (auto simp: heaps_unique_def split: if_splits)
qed

lemma ex_scan_runs:
  "\<exists>scan' mem' counter' rs.
     hnswrescan (ex_settings HNSW_ITERATIVE_SCAN_STRICT) ex_now 0 ex_scan0 None (Some [Some 20]) ex_memory =
       Inr (scan', mem', counter') \<and>
     scan_run (\<lambda>_. 0) ex_index (replicate 3 (ex_settings HNSW_ITERATIVE_SCAN_STRICT, ex_now, ex_now)) scan' mem' = Inr rs \<and>
     rs = [(ItemPointerSet 0 2, 0), (ItemPointerSet 0 1, 0x3FF0000000000000)]"
proof -
  have "bindE (hnswrescan (ex_settings HNSW_ITERATIVE_SCAN_STRICT) ex_now 0 ex_scan0 None (Some [Some 20]) ex_memory)
      (\<lambda>(scan', mem', counter'). scan_run (\<lambda>_. 0) ex_index
         (replicate 3 (ex_settings HNSW_ITERATIVE_SCAN_STRICT, ex_now, ex_now)) scan' mem') =
    Inr [(ItemPointerSet 0 2, 0), (ItemPointerSet 0 1, 0x3FF0000000000000)]"
    by code_simp
  then show ?thesis by auto
qed

theorem scan_returns_once_witness:
  "\<exists>scan' mem' rs.
     scan_run (\<lambda>_. 0) ex_index (replicate 3 (ex_settings HNSW_ITERATIVE_SCAN_STRICT, ex_now, ex_now)) scan' mem' = Inr rs \<and>
     length rs = 2 \<and> distinct (map fst rs)"
proof -
  obtain scan' mem' counter' rs where r:
    "hnswrescan (ex_settings HNSW_ITERATIVE_SCAN_STRICT) ex_now 0 ex_scan0 None (Some [Some 20]) ex_memory =
       Inr (scan', mem', counter')"
    "scan_run (\<lambda>_. 0) ex_index (replicate 3 (ex_settings HNSW_ITERATIVE_SCAN_STRICT, ex_now, ex_now)) scan' mem' = Inr rs"
    "rs = [(ItemPointerSet 0 2, 0), (ItemPointerSet 0 1, 0x3FF0000000000000)]"
    using ex_scan_runs by blast
  from scan_returns_once [OF r(1) ex_memory_ok ex_heaps_unique r(2)]
  have "distinct (map fst rs)" .
  with r show ?thesis by (intro exI [of _ scan'] exI [of _ mem'] exI [of _ rs]) simp
qed

theorem scan_strict_order_witness:
  "successively (\<lambda>d e. \<not> float8_lt e d) [0, 0x3FF0000000000000] \<and>
   at_distance ex_index (Some 20) (HnswInitSupport ex_index) (ItemPointerSet 0 2) 0 \<and>
   at_distance ex_index (Some 20) (HnswInitSupport ex_index) (ItemPointerSet 0 1) 0x3FF0000000000000"
proof -
  obtain scan' mem' counter' rs where r:
    "hnswrescan (ex_settings HNSW_ITERATIVE_SCAN_STRICT) ex_now 0 ex_scan0 None (Some [Some 20]) ex_memory =
       Inr (scan', mem', counter')"
    "scan_run (\<lambda>_. 0) ex_index (replicate 3 (ex_settings HNSW_ITERATIVE_SCAN_STRICT, ex_now, ex_now)) scan' mem' = Inr rs"
    "rs = [(ItemPointerSet 0 2, 0), (ItemPointerSet 0 1, 0x3FF0000000000000)]"
    using ex_scan_runs by blast
  have so: "sd_opaque ex_scan0 = Some ex_opaque" "0 < sd_numberOfOrderBys ex_scan0" "so_support ex_opaque = HnswInitSupport ex_index"
    by (simp_all add: ex_scan0_def RelationGetIndexScan_def ex_opaque_def)
  have q: "scan_query ex_opaque (Some 20) q \<longleftrightarrow> q = Some 20" for q
    by (simp add: scan_query_def ex_opaque_def HnswInitSupport_def ex_index_def)
  from scan_strict_order [OF r(1) ex_memory_ok so(1,2) ex_heaps_unique r(2)] r(3) show ?thesis
    by (auto simp: ex_settings_def q so(3))
qed

theorem scan_tracing_transparent_witness:
  "\<exists>scan1 mem1 counter1. hnswrescan ((ex_settings HNSW_ITERATIVE_SCAN_STRICT)\<lparr>gs_trace_enabled := True\<rparr>) ex_now 0 ex_scan0 None
       (Some [Some 20]) ex_memory = Inr (scan1, mem1, counter1) \<and>
     (let r = scan_run (\<lambda>_. 70000) ex_index
        (replicate 3 ((ex_settings HNSW_ITERATIVE_SCAN_STRICT)\<lparr>gs_trace_enabled := True\<rparr>, ex_now, ex_now)) scan1 mem1
      in (\<exists>e \<in> trace_errors. r = Inl e) \<or> r = Inr [(ItemPointerSet 0 2, 0), (ItemPointerSet 0 1, 0x3FF0000000000000)])"
proof -
  let ?gs = "(ex_settings HNSW_ITERATIVE_SCAN_STRICT)\<lparr>gs_trace_enabled := True\<rparr>"
  have pl: "plain_settings ?gs = ex_settings HNSW_ITERATIVE_SCAN_STRICT" by (simp add: plain_settings_def ex_settings_def)
  have "\<exists>scan1 mem1 counter1. hnswrescan ?gs ex_now 0 ex_scan0 None (Some [Some 20]) ex_memory = Inr (scan1, mem1, counter1)"
    by (simp add: hnswrescan_def Let_def copy_keys_def ex_scan0_def RelationGetIndexScan_def case_prod_beta)
  then obtain scan1 mem1 counter1 where
    t: "hnswrescan ?gs ex_now 0 ex_scan0 None (Some [Some 20]) ex_memory = Inr (scan1, mem1, counter1)"
    by blast
  have so: "sd_opaque ex_scan0 = Some ex_opaque" "so_maxMemory ex_opaque = 4194560" by (simp_all add: ex_scan0_def ex_opaque_def)
  have lim: "\<forall>(gs, entry, now) \<in> set (replicate 3 (?gs, ex_now, ex_now)). same_limit gs (so_maxMemory ex_opaque) (\<lambda>_. 70000) (\<lambda>_. 0)"
    by (simp add: same_limit_def so(2))
  from scan_tracing_transparent [OF t so(1) lim, of ex_index] ex_scan_runs t show ?thesis
    by (auto simp: pl Let_def)
qed

end
