(* ===== verification/Hnsw_Build.thy ===== *)
theory Hnsw_Build
  imports Hnsw_Insert
begin

section \<open>Building an index (src/hnswbuild.c)\<close>

text \<open>
  A build by one process: tuples are added to a graph in memory, which is written to pages when it no longer
  fits or when all tuples are added; after that tuples are inserted on disk. The elements of the graph are the elements
  of \<open>bs_mem\<close> (the memory context \<^verbatim>\<open>graphCtx\<close>). Parallel builds (the functions from \<^verbatim>\<open>ParallelHeapScan\<close> to
  \<^verbatim>\<open>ComputeParallelWorkers\<close>) start other processes and are not modelled. \<open>allocated\<close> is \<^verbatim>\<open>MemoryContextMemAllocated\<close>.
\<close>

record HnswGraph =
  gr_head :: "eptr option"
  gr_indtuples :: nat
  gr_entryPoint :: "eptr option"
  gr_memoryUsed :: nat
  gr_memoryTotal :: nat
  gr_flushed :: bool

record 'v HnswBuildState =
  bs_index :: "'v relation"
  bs_typeInfo :: "'v HnswTypeInfo"
  bs_dimensions :: int
  bs_m :: nat
  bs_efConstruction :: nat
  bs_indtuples :: nat
  bs_reltuples :: nat
  bs_support :: "'v HnswSupport"
  bs_graph :: HnswGraph
  bs_maxLevel :: nat
  bs_mem :: "'v memory"

subsection \<open>Writing the graph to pages\<close>

definition CreateMetaPage :: "'v HnswBuildState \<Rightarrow> 'v HnswBuildState" where
  "CreateMetaPage bs =
     bs\<lparr>bs_index := (bs_index bs)\<lparr>rd_meta :=
       \<lparr>mp_magicNumber = HNSW_MAGIC_NUMBER, mp_version = HNSW_VERSION,
        mp_dimensions = word_of_int (bs_dimensions bs), mp_m = word_of_nat (bs_m bs),
        mp_efConstruction = word_of_nat (bs_efConstruction bs), mp_entryBlkno = InvalidBlockNumber,
        mp_entryOffno = InvalidOffsetNumber, mp_entryLevel = -1, mp_insertPage = InvalidBlockNumber\<rparr>\<rparr>\<rparr>"

definition HnswBuildAppendPage :: "'v relation \<Rightarrow> BlockNumber \<Rightarrow> (BlockNumber \<times> 'v relation) result" where
  "HnswBuildAppendPage index buf =
     bindE (HnswNewBuffer index) (\<lambda>(newbuf, index1).
     bindE (ReadBuffer index1 buf) (\<lambda>page.
     Inr (newbuf, WriteBuffer index1 buf (page\<lparr>pd_opaque := (pd_opaque page)\<lparr>po_nextblkno := newbuf\<rparr>\<rparr>))))"

text \<open>Following the links \<^verbatim>\<open>next\<close> of the elements. \<open>step p s\<close> processes one element and gives the next one.\<close>

partial_function (option) element_walk ::
  "(eptr \<Rightarrow> 's \<Rightarrow> (eptr option \<times> 's) result) \<Rightarrow> eptr option \<Rightarrow> 's \<Rightarrow> 's result option" where
  [code]: "element_walk step iter s =
     (case iter of
        None \<Rightarrow> Some (Inr s)
      | Some p \<Rightarrow> (case step p s of
          Inl e \<Rightarrow> Some (Inl e)
        | Inr r \<Rightarrow> element_walk step (fst r) (snd r)))"

declare element_walk.simps [simp del]

text \<open>One element; the state is the relation, the elements and the block of the current page.\<close>

definition create_element ::
  "nat \<Rightarrow> eptr \<Rightarrow> 'v relation \<times> 'v memory \<times> BlockNumber
    \<Rightarrow> (eptr option \<times> 'v relation \<times> 'v memory \<times> BlockNumber) result" where
  "create_element m p = (\<lambda>(index, mem, buf).
     bindE (HnswPtrAccess mem p) (\<lambda>element.
     bindE (ofOption (BadAccess ''value'') (he_value element)) (\<lambda>v.
     let etupSize = HNSW_ELEMENT_TUPLE_SIZE (rd_varsize index v);
         ntupSize = HNSW_NEIGHBOR_TUPLE_SIZE (unat (he_level element)) m;
         combinedSize = etupSize + ntupSize + sizeof_ItemIdData
     in if etupSize > HNSW_TUPLE_ALLOC_SIZE then Inl (Elog ''index tuple too large'')
        else
          bindE (HnswSetElementTuple etup_zero element) (\<lambda>etup.
          bindE (ReadBuffer index buf) (\<lambda>page.
          bindE (if PageGetFreeSpace page < etupSize \<or>
                    combinedSize \<le> HNSW_MAX_SIZE \<and> PageGetFreeSpace page < combinedSize
                 then HnswBuildAppendPage index buf else Inr (buf, index)) (\<lambda>(buf1, index1).
          bindE (ReadBuffer index1 buf1) (\<lambda>page1.
          let offno = OffsetNumberNext (PageGetMaxOffsetNumber page1);
              element1 = element\<lparr>he_blkno := buf1, he_offno := offno,
                he_neighborPage := if combinedSize \<le> HNSW_MAX_SIZE then buf1 else buf1 + 1,
                he_neighborOffno := if combinedSize \<le> HNSW_MAX_SIZE then OffsetNumberNext offno
                                    else FirstOffsetNumber\<rparr>;
              etup1 = etup\<lparr>et_neighbortid := ItemPointerSet (he_neighborPage element1) (he_neighborOffno element1)\<rparr>
          in bindE (append_item_at index1 buf1 offno (ETup etup1) etupSize) (\<lambda>index2.
             bindE (ReadBuffer index2 buf1) (\<lambda>page2.
             bindE (if PageGetFreeSpace page2 < ntupSize then HnswBuildAppendPage index2 buf1
                    else Inr (buf1, index2)) (\<lambda>(buf2, index3).
             bindE (append_item_at index3 buf2 (he_neighborOffno element1) (NTup ntup_zero) ntupSize) (\<lambda>index4.
             Inr (he_next element, index4, element_store mem p element1, buf2))))))))))))"

definition CreateGraphPages :: "'v HnswBuildState \<Rightarrow> 'v HnswBuildState result option" where
  "CreateGraphPages bs =
     bindO (Some (HnswNewBuffer (bs_index bs))) (\<lambda>(buf, index1).
     bindO (element_walk (create_element (bs_m bs)) (gr_head (bs_graph bs)) (index1, bs_mem bs, buf))
       (\<lambda>(index2, mem, insertPage).
     bindO (Some (HnswUpdateMetaPage index2 mem HNSW_UPDATE_ENTRY_ALWAYS (gr_entryPoint (bs_graph bs))
                    insertPage)) (\<lambda>index3.
     Some (Inr (bs\<lparr>bs_index := index3, bs_mem := mem\<rparr>)))))"

definition write_neighbors ::
  "nat \<Rightarrow> 'v memory \<Rightarrow> eptr \<Rightarrow> 'v relation \<Rightarrow> (eptr option \<times> 'v relation) result" where
  "write_neighbors m mem p index =
     bindE (HnswPtrAccess mem p) (\<lambda>element.
     bindE (HnswSetNeighborTuple mem ntup_zero element m) (\<lambda>ntup.
     bindE (overwrite_item index (he_neighborPage element) (he_neighborOffno element) (NTup ntup)
              (HNSW_NEIGHBOR_TUPLE_SIZE (unat (he_level element)) m)) (\<lambda>index1.
     Inr (he_next element, index1))))"

definition WriteNeighborTuples :: "'v HnswBuildState \<Rightarrow> 'v HnswBuildState result option" where
  "WriteNeighborTuples bs =
     bindO (element_walk (write_neighbors (bs_m bs) (bs_mem bs)) (gr_head (bs_graph bs)) (bs_index bs)) (\<lambda>index1.
     Some (Inr (bs\<lparr>bs_index := index1\<rparr>)))"

definition FlushPages :: "'v HnswBuildState \<Rightarrow> 'v HnswBuildState result option" where
  "FlushPages bs =
     bindO (CreateGraphPages (CreateMetaPage bs)) (\<lambda>bs1.
     bindO (WriteNeighborTuples bs1) (\<lambda>bs2.
     Some (Inr (bs2\<lparr>bs_graph := (bs_graph bs2)\<lparr>gr_flushed := True\<rparr>,
                    bs_mem := (bs_mem bs2)\<lparr>mem_elems := Map.empty\<rparr>\<rparr>))))"

subsection \<open>Adding an element to the graph\<close>

definition AddDuplicateInMemory ::
  "'v memory \<Rightarrow> 'v HnswElementData \<Rightarrow> eptr \<Rightarrow> (bool \<times> 'v memory) result" where
  "AddDuplicateInMemory mem element dup =
     bindE (HnswPtrAccess mem dup) (\<lambda>d.
     if length (he_heaptids d) = HNSW_HEAPTIDS then Inr (False, mem)
     else bindE (array_get ''heaptids'' (he_heaptids element) 0) (\<lambda>heaptid.
          bindE (HnswAddHeapTid d heaptid) (\<lambda>d1. Inr (True, element_store mem dup d1))))"

fun find_duplicate_in_memory ::
  "'v HnswElementData \<Rightarrow> 'v \<Rightarrow> HnswCandidate list \<Rightarrow> 'v memory \<Rightarrow> (bool \<times> 'v memory) result" where
  "find_duplicate_in_memory element v [] mem = Inr (False, mem)"
| "find_duplicate_in_memory element v (neighbor # neighbors) mem =
     bindE (HnswPtrAccess mem (hc_element neighbor)) (\<lambda>neighborElement.
     bindE (ofOption (BadAccess ''value'') (he_value neighborElement)) (\<lambda>neighborValue.
     if v \<noteq> neighborValue then Inr (False, mem)
     else bindE (AddDuplicateInMemory mem element (hc_element neighbor)) (\<lambda>(added, mem1).
          if added then Inr (True, mem1) else find_duplicate_in_memory element v neighbors mem1)))"

definition FindDuplicateInMemory :: "'v memory \<Rightarrow> eptr \<Rightarrow> (bool \<times> 'v memory) result" where
  "FindDuplicateInMemory mem p =
     bindE (HnswPtrAccess mem p) (\<lambda>element.
     bindE (HnswGetNeighbors element 0) (\<lambda>neighbors.
     bindE (ofOption (BadAccess ''value'') (he_value element)) (\<lambda>v.
     find_duplicate_in_memory element v (na_items neighbors) mem)))"

definition AddElementInMemory :: "'v memory \<Rightarrow> HnswGraph \<Rightarrow> eptr \<Rightarrow> ('v memory \<times> HnswGraph) result" where
  "AddElementInMemory mem graph p =
     bindE (HnswPtrAccess mem p) (\<lambda>element.
     Inr (element_store mem p (element\<lparr>he_next := gr_head graph\<rparr>), graph\<lparr>gr_head := Some p\<rparr>))"

text \<open>The flag \<^verbatim>\<open>closer\<close> of a new candidate is calculated before it is used.\<close>

definition update_in_memory ::
  "'v HnswSupport \<Rightarrow> eptr \<Rightarrow> nat \<Rightarrow> nat \<Rightarrow> HnswCandidate \<Rightarrow> 'v memory \<Rightarrow> 'v memory result" where
  "update_in_memory support p m lc hc mem =
     bindE (HnswPtrAccess mem (hc_element hc)) (\<lambda>neighborElement.
     bindE (HnswGetNeighbors neighborElement lc) (\<lambda>a.
     bindE (HnswUpdateConnection mem a p (hc_distance hc) (HnswGetLayerM m lc) support False) (\<lambda>(a1, updateIdx).
     bindE (HnswSetNeighbors neighborElement lc a1) (\<lambda>neighborElement1.
     Inr (element_store mem (hc_element hc) neighborElement1)))))"

text \<open>The neighbors of a layer are copied before the loop over them.\<close>

definition UpdateNeighborsInMemory ::
  "'v HnswSupport \<Rightarrow> eptr \<Rightarrow> nat \<Rightarrow> 'v memory \<Rightarrow> 'v memory result" where
  "UpdateNeighborsInMemory support p m mem =
     bindE (HnswPtrAccess mem p) (\<lambda>e0.
     foldE (\<lambda>lc mem1.
       bindE (HnswPtrAccess mem1 p) (\<lambda>e.
       bindE (HnswGetNeighbors e lc) (\<lambda>neighbors.
       foldE (update_in_memory support p m lc) (na_items neighbors) mem1)))
       (rev [0..<Suc (unat (he_level e0))]) mem)"

definition UpdateGraphInMemory ::
  "'v HnswSupport \<Rightarrow> eptr \<Rightarrow> nat \<Rightarrow> eptr option \<Rightarrow> HnswGraph \<Rightarrow> 'v memory \<Rightarrow> (HnswGraph \<times> 'v memory) result" where
  "UpdateGraphInMemory support p m entryPoint graph mem =
     bindE (FindDuplicateInMemory mem p) (\<lambda>(duplicate, mem1).
     if duplicate then Inr (graph, mem1)
     else bindE (AddElementInMemory mem1 graph p) (\<lambda>(mem2, graph1).
          bindE (UpdateNeighborsInMemory support p m mem2) (\<lambda>mem3.
          bindE (above_entry mem3 p entryPoint) (\<lambda>above.
          Inr (if above then graph1\<lparr>gr_entryPoint := Some p\<rparr> else graph1, mem3)))))"

definition InsertTupleInMemory :: "'v HnswBuildState \<Rightarrow> eptr \<Rightarrow> 'v HnswBuildState result" where
  "InsertTupleInMemory bs p =
     (let graph = bs_graph bs; entryPoint = gr_entryPoint graph in
      bindE (HnswFindElementNeighbors p entryPoint None (bs_support bs) (bs_m bs) (bs_efConstruction bs) False
               (bs_mem bs)) (\<lambda>mem1.
      bindE (UpdateGraphInMemory (bs_support bs) p (bs_m bs) entryPoint graph mem1) (\<lambda>(graph1, mem2).
      Inr (bs\<lparr>bs_graph := graph1, bs_mem := mem2\<rparr>))))"

text \<open>
  \<open>insert_on_disk\<close> is the call of \<^verbatim>\<open>HnswInsertTupleOnDisk\<close>, which always answers \<^verbatim>\<open>true\<close>; \<open>lev\<close> is the random level.
\<close>

definition insert_on_disk ::
  "'v HnswBuildState \<Rightarrow> 'v \<Rightarrow> ItemPointerData \<Rightarrow> int \<Rightarrow> (bool \<times> 'v HnswBuildState) result option" where
  "insert_on_disk bs v heaptid lev =
     bindO (HnswInsertTupleOnDisk (bs_index bs) (bs_support bs) v heaptid lev (bs_mem bs)) (\<lambda>index1.
     Some (Inr (True, bs\<lparr>bs_index := index1\<rparr>)))"

definition InsertTuple ::
  "('v memory \<Rightarrow> nat) \<Rightarrow> 'v HnswBuildState \<Rightarrow> 'v \<Rightarrow> ItemPointerData \<Rightarrow> int
    \<Rightarrow> (bool \<times> 'v HnswBuildState) result option" where
  "InsertTuple allocated bs v0 heaptid lev =
     bindO (Some (HnswFormIndexValue v0 (bs_typeInfo bs) (bs_support bs))) (\<lambda>formed.
     case formed of
       None \<Rightarrow> Some (Inr (False, bs))
     | Some v \<Rightarrow>
         let graph = bs_graph bs in
         if gr_flushed graph then insert_on_disk bs v heaptid lev
         else if gr_memoryUsed graph \<ge> gr_memoryTotal graph
         then bindO (FlushPages bs) (\<lambda>bs1. insert_on_disk bs1 v heaptid lev)
         else Some (
           bindE (HnswInitElement (bs_mem bs) heaptid (bs_m bs) lev (bs_maxLevel bs)) (\<lambda>(p, mem1).
           bindE (HnswPtrAccess mem1 p) (\<lambda>element.
           let mem2 = element_store mem1 p (element\<lparr>he_value := Some v\<rparr>);
               bs1 = bs\<lparr>bs_mem := mem2, bs_graph := graph\<lparr>gr_memoryUsed := allocated mem2\<rparr>\<rparr>
           in bindE (InsertTupleInMemory bs1 p) (\<lambda>bs2. Inr (True, bs2))))))"

subsection \<open>The build\<close>

text \<open>A row of the table as the scan delivers it: its TID, its value, and the random level drawn for it.\<close>

type_synonym 'v heap_row = "ItemPointerData \<times> 'v option \<times> int"

definition BuildCallback ::
  "('v memory \<Rightarrow> nat) \<Rightarrow> 'v heap_row \<Rightarrow> 'v HnswBuildState \<Rightarrow> 'v HnswBuildState result option" where
  "BuildCallback allocated = (\<lambda>(tid, v, lev) bs.
     case v of
       None \<Rightarrow> Some (Inr bs)
     | Some v' \<Rightarrow>
         bindO (InsertTuple allocated bs v' tid lev) (\<lambda>(inserted, bs1).
         Some (Inr (if inserted
                    then bs1\<lparr>bs_graph := (bs_graph bs1)\<lparr>gr_indtuples := gr_indtuples (bs_graph bs1) + 1\<rparr>\<rparr>
                    else bs1))))"

definition HNSW_MAX_GRAPH_MEMORY :: nat where "HNSW_MAX_GRAPH_MEMORY = (2 ^ 64 - 1) div 2"

definition InitGraph :: "nat \<Rightarrow> HnswGraph" where
  "InitGraph memoryTotal =
     \<lparr>gr_head = None, gr_indtuples = 0, gr_entryPoint = None, gr_memoryUsed = 0,
      gr_memoryTotal = min memoryTotal HNSW_MAX_GRAPH_MEMORY, gr_flushed = False\<rparr>"

text \<open>\<open>typmod\<close> and \<open>isvarbit\<close> describe the indexed column; \<open>mwm\<close> is \<^verbatim>\<open>maintenance_work_mem\<close> in kilobytes.\<close>

definition InitBuildState ::
  "'v relation \<Rightarrow> int \<Rightarrow> bool \<Rightarrow> nat \<Rightarrow> 'v memory \<Rightarrow> 'v HnswBuildState result" where
  "InitBuildState index typmod isvarbit mwm mem =
     (let typeInfo = HnswGetTypeInfo index; m = HnswGetM index; efConstruction = HnswGetEfConstruction index in
      if isvarbit then Inl (Elog ''type not supported for hnsw index'')
      else if typmod < 0 then Inl (Elog ''column does not have dimensions'')
      else if typmod > int (ti_maxDimensions typeInfo)
      then Inl (Elog ''column cannot have more dimensions for hnsw index'')
      else if efConstruction < 2 * m
      then Inl (Elog ''ef_construction must be greater than or equal to 2 * m'')
      else Inr \<lparr>bs_index = index, bs_typeInfo = typeInfo, bs_dimensions = typmod, bs_m = m,
                bs_efConstruction = efConstruction, bs_indtuples = 0, bs_reltuples = 0,
                bs_support = HnswInitSupport index, bs_graph = InitGraph (mwm * 1024),
                bs_maxLevel = HnswGetMaxLevel m, bs_mem = mem\<rparr>)"

text \<open>
  \<^verbatim>\<open>BuildGraph\<close> without parallel workers. \<open>heap\<close> is \<open>None\<close> for an unlogged table's initial fork. The scan of the
  table is \<^verbatim>\<open>table_index_build_scan\<close>: it calls the callback for every row and returns the number of rows.
\<close>

definition BuildGraph ::
  "('v memory \<Rightarrow> nat) \<Rightarrow> 'v heap_row list option \<Rightarrow> 'v HnswBuildState \<Rightarrow> 'v HnswBuildState result option" where
  "BuildGraph allocated heap bs =
     bindO (case heap of
              None \<Rightarrow> Some (Inr bs)
            | Some rows \<Rightarrow>
                bindO (foldO (BuildCallback allocated) rows bs) (\<lambda>bs1.
                Some (Inr (bs1\<lparr>bs_reltuples := length rows,
                               bs_indtuples := gr_indtuples (bs_graph bs1)\<rparr>)))) (\<lambda>bs2.
     if \<not> gr_flushed (bs_graph bs2) then FlushPages bs2 else Some (Inr bs2))"

definition BuildIndex ::
  "('v memory \<Rightarrow> nat) \<Rightarrow> 'v heap_row list option \<Rightarrow> 'v relation \<Rightarrow> int \<Rightarrow> bool \<Rightarrow> nat \<Rightarrow> 'v memory
    \<Rightarrow> 'v HnswBuildState result option" where
  "BuildIndex allocated heap index typmod isvarbit mwm mem =
     bindO (Some (InitBuildState index typmod isvarbit mwm mem)) (BuildGraph allocated heap)"

text \<open>The answer: the numbers of table rows and of indexed tuples, and the index.\<close>

definition hnswbuild ::
  "('v memory \<Rightarrow> nat) \<Rightarrow> 'v heap_row list \<Rightarrow> 'v relation \<Rightarrow> int \<Rightarrow> bool \<Rightarrow> nat \<Rightarrow> 'v memory
    \<Rightarrow> (nat \<times> nat \<times> 'v relation) result option" where
  "hnswbuild allocated heap index typmod isvarbit mwm mem =
     bindO (BuildIndex allocated (Some heap) index typmod isvarbit mwm mem) (\<lambda>bs.
     Some (Inr (bs_reltuples bs, bs_indtuples bs, bs_index bs)))"

definition hnswbuildempty ::
  "'v relation \<Rightarrow> int \<Rightarrow> bool \<Rightarrow> nat \<Rightarrow> 'v memory \<Rightarrow> 'v relation result option" where
  "hnswbuildempty index typmod isvarbit mwm mem =
     bindO (BuildIndex (\<lambda>_. 0) None index typmod isvarbit mwm mem) (\<lambda>bs. Some (Inr (bs_index bs)))"

end
