(* ===== verification/Hnsw_Insert_Correct.thy ===== *)
theory Hnsw_Insert_Correct
  imports Hnsw_Graph Hnsw_Select_Correct
begin

section \<open>Correctness of inserts\<close>

text \<open>
  First the search for room and the storing of the two tuples of a new element: on a well-formed index it ends, succeeds unless the
  relation cannot be extended, and its effect on the map from TIDs to tuples is the addition of the two tuples in free or
  reclaimed places.
\<close>

subsection \<open>Reclaiming a deleted element\<close>

lemma stored_item:
  assumes "blocks_ok index" "stored index (ItemPointerSet b off) = Some (x, len)"
  obtains lp where "PageGetItemId (page_of index b) off = Inr lp" "PageGetItem (page_of index b) lp = Inr x"
    "lp_len lp = len" "PageGetTuple (page_of index b) off = Inr x"
proof -
  let ?p = "page_of index b" and ?i = "unat off - 1"
  have blk: "is_block index b" and off: "off \<noteq> 0" using stored_block [OF assms(2)] by simp_all
  have inv: "page_inv ?p" by (rule blocks_ok_page(1) [OF assms(1) blk])
  have len: "unat off \<le> length (pd_linp ?p)" "page_tuples ?p ! ?i = (x, len)"
    using assms(2) off by (auto simp: stored_tuple [OF blk] split: if_splits)
  have i: "?i < length (pd_linp ?p)" using len(1) off unat_gt_0 [of off] by linarith
  have "lp_ok ?p (pd_linp ?p ! ?i)" using inv i by (simp add: page_inv_def)
  then have "PageGetItem ?p (pd_linp ?p ! ?i) = Inr x" "lp_len (pd_linp ?p ! ?i) = len"
    using len(2) i by (auto simp: PageGetItem_def lp_ok_def page_tuples_def)
  moreover have "PageGetItemId ?p off = Inr (pd_linp ?p ! ?i)"
    using off i by (simp add: PageGetItemId_def array_get_def)
  moreover from calculation have "PageGetTuple ?p off = Inr x" by (simp add: PageGetTuple_def)
  ultimately show thesis using that by blast
qed

lemma stored_on_page:
  assumes "is_block index b" "off \<noteq> 0" "unat off \<le> tuple_count index b"
  shows "\<exists>x len. stored index (ItemPointerSet b off) = Some (x, len)"
proof -
  have "stored index (ItemPointerSet b off) = Some (page_tuples (page_of index b) ! (unat off - 1))"
    using assms by (simp add: stored_tuple tuple_count_def)
  then show ?thesis by (cases "page_tuples (page_of index b) ! (unat off - 1)") simp
qed

lemma page_offsets_range:
  assumes "blocks_ok index" "is_block index b"
  shows "set (page_offsets (page_of index b)) = {off. off \<noteq> 0 \<and> unat off \<le> tuple_count index b}"
proof -
  have inv: "page_inv (page_of index b)" by (rule blocks_ok_page(1) [OF assms])
  have n: "unat (PageGetMaxOffsetNumber (page_of index b)) = tuple_count index b"
    using PageGetMaxOffsetNumber_inv [OF inv] by (simp add: tuple_count_def)
  have small: "tuple_count index b < 2 ^ 16"
    using page_inv_linp_bound [OF inv] by (simp add: tuple_count_def BLCKSZ_def)
  show ?thesis
  proof (intro set_eqI iffI)
    fix off
    assume "off \<in> set (page_offsets (page_of index b))"
    then obtain i where i: "off = word_of_nat i" "1 \<le> i" "i \<le> tuple_count index b"
      by (auto simp: page_offsets_def n)
    then have "unat off = i" using small by (simp add: unsigned_of_nat take_bit_nat_eq_self)
    with i show "off \<in> {off. off \<noteq> 0 \<and> unat off \<le> tuple_count index b}" by auto
  next
    fix off :: OffsetNumber
    assume "off \<in> {off. off \<noteq> 0 \<and> unat off \<le> tuple_count index b}"
    then have "unat off \<in> set [1..<Suc (tuple_count index b)]" "off = word_of_nat (unat off)"
      using unat_gt_0 [of off] by auto
    then show "off \<in> set (page_offsets (page_of index b))" unfolding page_offsets_def n set_map by (rule rev_image_eqI)
  qed
qed

definition reclaims :: "'v relation \<Rightarrow> nat \<Rightarrow> nat \<Rightarrow> BlockNumber \<Rightarrow> free_slot \<Rightarrow> bool" where
  "reclaims index etupSize ntupSize buf slot \<longleftrightarrow>
     (case slot of (nbuf, off, noff, ver) \<Rightarrow>
       \<exists>e l n nl. stored index (ItemPointerSet buf off) = Some (ETup e, l) \<and> et_deleted e \<noteq> 0 \<and>
         et_version e = ver \<and> et_neighbortid e = ItemPointerSet nbuf noff \<and>
         stored index (ItemPointerSet nbuf noff) = Some (NTup n, nl) \<and>
         etupSize \<le> l + room index buf \<and>
         ntupSize \<le> nl + (if nbuf = buf then l + room index buf - etupSize else room index nbuf))"

lemma free_offset_loop_ok:
  assumes "blocks_ok index" "store_ok m (stored index)" "is_block index buf"
    "\<forall>off \<in> set offs. off \<noteq> 0 \<and> unat off \<le> tuple_count index buf"
  shows "\<exists>r nip'. free_offset_loop index buf (page_of index buf) etupSize ntupSize offs nip = Inr (r, nip') \<and>
    (nip' = nip \<or> nip' = buf) \<and> (\<forall>slot. r = Some slot \<longrightarrow> reclaims index etupSize ntupSize buf slot)"
  using assms(4)
proof (induction offs arbitrary: nip)
  case (Cons off offs)
  let ?page = "page_of index buf"
  obtain x len where st: "stored index (ItemPointerSet buf off) = Some (x, len)"
    using stored_on_page [OF assms(3), of off] Cons.prems by auto
  obtain lp where lp: "PageGetItemId ?page off = Inr lp" "PageGetItem ?page lp = Inr x" "lp_len lp = len"
    using stored_item [OF assms(1) st] by blast
  have IH: "\<exists>r nip'. free_offset_loop index buf ?page etupSize ntupSize offs nip1 = Inr (r, nip') \<and>
      (nip' = nip \<or> nip' = buf) \<and> (\<forall>slot. r = Some slot \<longrightarrow> reclaims index etupSize ntupSize buf slot)"
    if "nip1 = nip \<or> nip1 = buf" for nip1
    using Cons.IH [of nip1] Cons.prems that by auto
  show ?case
  proof (cases x)
    case (NTup n)
    then have "\<not> HnswIsElementTuple x"
      using store_ok_ntup [OF assms(2), of _ n] st
      by (auto simp: HnswIsElementTuple_def HNSW_ELEMENT_TUPLE_TYPE_def HNSW_NEIGHBOR_TUPLE_TYPE_def)
    with lp IH [of nip] show ?thesis by simp
  next
    case (ETup e)
    note e = st [unfolded ETup]
    have el: "HnswIsElementTuple x"
      using store_ok_elem [OF assms(2) e] by (simp add: ETup HnswIsElementTuple_def element_ok_def)
    obtain n nl where n: "stored index (et_neighbortid e) = Some (NTup n, nl)"
      using store_ok_conn [OF assms(2) e] by blast
    define nb where "nb = ItemPointerGetBlockNumber (et_neighbortid e)"
    define no where "no = ItemPointerGetOffsetNumber (et_neighbortid e)"
    have nt: "et_neighbortid e = ItemPointerSet nb no" by (simp add: nb_def no_def)
    have nblk: "is_block index nb" using stored_block(1) [OF n] by (simp add: nb_def)
    obtain nlp where nlp: "PageGetItemId (page_of index nb) no = Inr nlp" "lp_len nlp = nl"
      using stored_item [OF assms(1) n [unfolded nt]] by blast
    have npage: "(if nb = buf then Inr ?page else ReadBuffer index nb) = Inr (page_of index nb)"
      by (simp add: ReadBuffer_block [OF nblk])
    have free: "PageGetExactFreeSpace (page_of index b) = room index b" if "is_block index b" for b
      using PageGetExactFreeSpace_inv [OF blocks_ok_page(1) [OF assms(1) that]] by (simp add: room_def)
    let ?nip = "if \<not> BlockNumberIsValid nip then buf else nip"
    let ?pf = "len + room index buf"
    let ?nf = "nl + (if nb \<noteq> buf then room index nb else if etupSize \<le> ?pf then ?pf - etupSize else 0)"
    show ?thesis
    proof (cases "et_deleted e \<noteq> 0")
      case True
      have eq: "free_offset_loop index buf ?page etupSize ntupSize (off # offs) nip =
          (if etupSize \<le> ?pf \<and> ntupSize \<le> ?nf then Inr (Some (nb, off, no, et_version e), ?nip)
           else free_offset_loop index buf ?page etupSize ntupSize offs ?nip)"
        using True lp el ETup
        by (simp only: free_offset_loop.simps bindE_simps as_etup.simps Let_def nb_def [symmetric] no_def [symmetric]
            npage nlp free [OF assms(3)] free [OF nblk] if_True not_True_eq_False if_False simp_thms)
      show ?thesis
      proof (cases "etupSize \<le> ?pf \<and> ntupSize \<le> ?nf")
        case fits: True
        then have "reclaims index etupSize ntupSize buf (nb, off, no, et_version e)"
          using e True n nt by (auto simp: reclaims_def)
        then show ?thesis unfolding eq using fits by simp
      next
        case False
        then show ?thesis unfolding eq using IH [of ?nip] by auto
      qed
    next
      case False
      with lp el ETup IH [of nip] show ?thesis by simp
    qed
  qed
qed simp

subsection \<open>Choosing a place\<close>

lemma is_block_valid:
  assumes "blocks_ok index" "is_block index b"
  shows "BlockNumberIsValid b"
proof -
  have "unat b < 2 ^ 32 - 1" using assms by (simp add: blocks_ok_def is_block_def)
  from block_of_nat(2) [OF this] show ?thesis by simp
qed

definition insert_page_ok :: "'v relation \<Rightarrow> BlockNumber \<Rightarrow> bool" where
  "insert_page_ok index nip \<longleftrightarrow> BlockNumberIsValid nip \<longrightarrow> is_block index nip"

definition placed :: "'v relation \<Rightarrow> nat \<Rightarrow> nat \<Rightarrow> 'v placement \<Rightarrow> bool" where
  "placed index etupSize ntupSize pl \<longleftrightarrow>
     (let ix = pl_index pl; buf = pl_buf pl; nbuf = pl_nbuf pl in
      blocks_ok ix \<and> chain_ok ix \<and> same_relation index ix \<and> stored ix = stored index \<and>
      length (rd_blocks index) \<le> length (rd_blocks ix) \<and> is_block ix buf \<and> is_block ix nbuf \<and>
      insert_page_ok ix (pl_newInsertPage pl) \<and>
      (case pl_free pl of
         None \<Rightarrow>
           if nbuf = buf then etupSize + ntupSize + 8 \<le> room ix buf
           else etupSize + 4 \<le> room ix buf \<and> ntupSize + 4 \<le> room ix nbuf \<and> tuple_count ix nbuf = 0
       | Some (off, noff, ver) \<Rightarrow> reclaims ix etupSize ntupSize buf (nbuf, off, noff, ver)))"

lemma free_space_room:
  assumes "blocks_ok index" "is_block index b" "0 < sz"
  shows "sz \<le> PageGetFreeSpace (page_of index b) \<longleftrightarrow> sz + 4 \<le> room index b"
  using PageGetFreeSpace_inv [OF blocks_ok_page(1) [OF assms(1,2)]] assms(3) by (auto simp: room_def)

lemma chain_next:
  assumes "chain_ok index" "is_block index b"
  defines "nxt \<equiv> po_nextblkno (pd_opaque (page_of index b))"
  shows "if unat b < length (rd_blocks index) then unat nxt = Suc (unat b) \<and> BlockNumberIsValid nxt
    else \<not> BlockNumberIsValid nxt"
proof -
  have b: "unat b - 1 < length (rd_blocks index)" "Suc (unat b - 1) = unat b" using assms(2) by (auto simp: is_block_def)
  have "nxt = (if unat b < length (rd_blocks index) then word_of_nat (Suc (unat b)) else InvalidBlockNumber)"
  proof -
    have "nxt = page_next index (unat b - 1)" by (simp add: nxt_def page_next_def page_of_def)
    also have "\<dots> = (if Suc (unat b - 1) < length (rd_blocks index) then word_of_nat ((unat b - 1) + 2)
        else InvalidBlockNumber)"
      using assms(1) b(1) unfolding chain_ok_def by blast
    finally show ?thesis by (simp only: add_2_eq_Suc' b(2))
  qed
  moreover have "unat b < length (rd_blocks index) \<Longrightarrow> Suc (unat b) < 2 ^ 32 - 1"
    using assms(1) by (simp add: chain_ok_def)
  ultimately show ?thesis using block_of_nat [of "Suc (unat b)"] by (auto simp: BlockNumberIsValid_def)
qed

lemma adds_page_trans_ok:
  assumes "adds_page index ix nb" "insert_page_ok index nip"
  shows "insert_page_ok ix nip"
  using assms adds_page_block(2) [OF assms(1)] by (auto simp: insert_page_ok_def)

lemma append_choice_ok:
  assumes ok: "blocks_ok index" "chain_ok index" and cur: "is_block index cur" "unat cur = length (rd_blocks index)"
    and nip: "insert_page_ok index nip" and sz: "0 < es" "es \<le> 8156" "0 < ns" "ns \<le> 8152"
  shows "append_choice index (es + ns + 4) cur nip = Inl cannot_extend \<or>
    (\<exists>pl. append_choice index (es + ns + 4) cur nip = Inr (Chosen pl) \<and> placed index es ns pl)"
  using HnswInsertAppendPage_ok [OF ok(1) cur(1)]
proof (elim disjE exE conjE)
  fix nb ix
  assume a: "HnswInsertAppendPage index cur = Inr (nb, ix)" "adds_page index ix nb"
    "chain_ok index \<longrightarrow> unat cur = length (rd_blocks index) \<longrightarrow> chain_ok ix"
  have ix: "blocks_ok ix" "chain_ok ix" "same_relation index ix" "stored ix = stored index" "room ix nb = 8160"
    "length (rd_blocks ix) = Suc (length (rd_blocks index))" "unat nb = length (rd_blocks ix)"
    using a ok(2) cur(2) by (simp_all add: adds_page_def)
  have blk: "is_block ix nb" by (rule adds_page_block(1) [OF a(2)])
  have fs: "(PageGetFreeSpace (page_of ix nb) < es + ns + 4) \<longleftrightarrow> \<not> es + ns + 8 \<le> 8160"
    using free_space_room [OF ix(1) blk, of "es + ns + 4"] ix(5) by auto
  show ?thesis
  proof (cases "es + ns + 8 \<le> 8160")
    case True
    then show ?thesis
      using a(1) fs ix blk adds_page_trans_ok [OF a(2) nip]
      by (auto simp: append_choice_def ReadBuffer_block [OF blk] placed_def Let_def)
  next
    case False
    from HnswInsertAppendPage_ok [OF ix(1) blk] show ?thesis
    proof (elim disjE exE conjE)
      assume "HnswInsertAppendPage ix nb = Inl cannot_extend"
      with a(1) fs False show ?thesis by (simp add: append_choice_def ReadBuffer_block [OF blk])
    next
      fix nb2 ix2
      assume b: "HnswInsertAppendPage ix nb = Inr (nb2, ix2)" "adds_page ix ix2 nb2"
        "chain_ok ix \<longrightarrow> unat nb = length (rd_blocks ix) \<longrightarrow> chain_ok ix2"
      let ?pl = "\<lparr>pl_index = ix2, pl_buf = nb, pl_nbuf = nb2, pl_free = None, pl_newInsertPage = nip\<rparr>"
      have "append_choice index (es + ns + 4) cur nip = Inr (Chosen ?pl)"
        using a(1) b(1) fs False by (simp add: append_choice_def ReadBuffer_block [OF blk])
      moreover have "placed index es ns ?pl"
        using ix b(2,3) blk adds_page_block [OF b(2)] adds_page_trans_ok [OF b(2) adds_page_trans_ok [OF a(2) nip]] sz
        by (auto simp: placed_def Let_def adds_page_def intro: same_relation_trans)
      ultimately show ?thesis by blast
    qed
  qed
qed (simp add: append_choice_def)

lemma try_page_ok:
  assumes ok: "blocks_ok index" "chain_ok index" "store_ok m (stored index)" and cur: "is_block index cur"
    and nip: "insert_page_ok index nip" and sz: "0 < es" "es \<le> 8156" "0 < ns" "ns \<le> 8152"
  shows "try_page index es ns (es + ns + 4) minsz cur nip = Inl cannot_extend \<or>
    (\<exists>pl. try_page index es ns (es + ns + 4) minsz cur nip = Inr (Chosen pl) \<and> placed index es ns pl) \<or>
    (\<exists>nxt nip'. try_page index es ns (es + ns + 4) minsz cur nip = Inr (NextPage nxt nip') \<and>
       unat nxt = Suc (unat cur) \<and> is_block index nxt \<and> insert_page_ok index nip')"
proof -
  let ?page = "page_of index cur" and ?t = "try_page index es ns (es + ns + 4) minsz cur nip"
  define nip1 where "nip1 = (if \<not> BlockNumberIsValid nip \<and> minsz \<le> PageGetFreeSpace ?page then cur else nip)"
  have nip1: "insert_page_ok index nip1" using nip cur by (simp add: nip1_def insert_page_ok_def)
  have fs: "es + ns + 4 \<le> PageGetFreeSpace ?page \<longleftrightarrow> es + ns + 8 \<le> room index cur"
    "es \<le> PageGetFreeSpace ?page \<longleftrightarrow> es + 4 \<le> room index cur"
    using free_space_room [OF ok(1) cur, of "es + ns + 4"] free_space_room [OF ok(1) cur sz(1)] by auto
  show ?thesis
  proof (cases "es + ns + 8 \<le> room index cur")
    case True
    then show ?thesis
      using fs ok cur nip1
      by (auto simp: try_page_def ReadBuffer_block [OF cur] placed_def Let_def nip1_def)
  next
    case False
    obtain r nip2 where r: "HnswFreeOffset index cur ?page es ns nip1 = Inr (r, nip2)" "nip2 = nip1 \<or> nip2 = cur"
      "\<forall>slot. r = Some slot \<longrightarrow> reclaims index es ns cur slot"
      using free_offset_loop_ok [OF ok(1,3) cur, of "page_offsets ?page" es ns nip1] page_offsets_range [OF ok(1) cur]
      by (auto simp: HnswFreeOffset_def)
    have nip2: "insert_page_ok index nip2" using r(2) nip1 cur by (auto simp: insert_page_ok_def)
    define nxt where "nxt = po_nextblkno (pd_opaque ?page)"
    have t: "?t = (case r of
        Some (nbuf, off, noff, ver) \<Rightarrow>
          Inr (Chosen \<lparr>pl_index = index, pl_buf = cur, pl_nbuf = nbuf, pl_free = Some (off, noff, ver), pl_newInsertPage = nip2\<rparr>)
      | None \<Rightarrow>
          if es + ns + 4 > HNSW_MAX_SIZE \<and> es \<le> PageGetFreeSpace ?page \<and> \<not> BlockNumberIsValid nxt
          then bindE (HnswInsertAppendPage index cur) (\<lambda>(nbuf, index1).
                 Inr (Chosen \<lparr>pl_index = index1, pl_buf = cur, pl_nbuf = nbuf, pl_free = None, pl_newInsertPage = nip2\<rparr>))
          else if BlockNumberIsValid nxt then Inr (NextPage nxt nip2)
          else append_choice index (es + ns + 4) cur nip2)"
    proof -
      have nf: "(es + ns + 4 \<le> PageGetFreeSpace ?page) = False" using False fs(1) by simp
      show ?thesis
        by (simp only: try_page_def ReadBuffer_block [OF cur] bindE_simps Let_def nip1_def [symmetric] nf if_False r(1)
            nxt_def prod.case)
    qed
    show ?thesis
    proof (cases r)
      case (Some slot)
      obtain nbuf off noff ver where slot: "slot = (nbuf, off, noff, ver)" by (cases slot)
      have rec: "reclaims index es ns cur (nbuf, off, noff, ver)" using r(3) Some slot by simp
      then have "is_block index nbuf" using stored_block(1) by (fastforce simp: reclaims_def)
      with rec ok cur nip2 show ?thesis unfolding t Some slot by (simp add: placed_def Let_def)
    next
      case None
      have last: "unat cur = length (rd_blocks index)" if "\<not> BlockNumberIsValid nxt"
        using chain_next [OF ok(2) cur] that cur by (auto simp: nxt_def is_block_def split: if_splits)
      consider "BlockNumberIsValid nxt"
        | "\<not> BlockNumberIsValid nxt" "es + ns + 4 > HNSW_MAX_SIZE \<and> es \<le> PageGetFreeSpace ?page"
        | "\<not> BlockNumberIsValid nxt" "\<not> (es + ns + 4 > HNSW_MAX_SIZE \<and> es \<le> PageGetFreeSpace ?page)" by blast
      then show ?thesis
      proof cases
        case 1
        then have "unat nxt = Suc (unat cur)" "is_block index nxt"
          using chain_next [OF ok(2) cur] by (auto simp: nxt_def is_block_def split: if_splits)
        with 1 nip2 show ?thesis unfolding t None by simp
      next
        case 2
        from HnswInsertAppendPage_ok [OF ok(1) cur] show ?thesis
        proof (elim disjE exE conjE)
          assume "HnswInsertAppendPage index cur = Inl cannot_extend"
          with 2 show ?thesis unfolding t None by simp
        next
          fix nb ix
          assume a: "HnswInsertAppendPage index cur = Inr (nb, ix)" "adds_page index ix nb"
            "chain_ok index \<longrightarrow> unat cur = length (rd_blocks index) \<longrightarrow> chain_ok ix"
          let ?pl = "\<lparr>pl_index = ix, pl_buf = cur, pl_nbuf = nb, pl_free = None, pl_newInsertPage = nip2\<rparr>"
          have "?t = Inr (Chosen ?pl)" using 2 a(1) unfolding t None by simp
          moreover have "placed index es ns ?pl"
            using a(2,3) ok(2) last [OF 2(1)] cur adds_page_block [OF a(2)] adds_page_trans_ok [OF a(2) nip2] 2(2) fs(2) sz
            by (auto simp: placed_def Let_def adds_page_def)
          ultimately show ?thesis by blast
        qed
      next
        case 3
        with append_choice_ok [OF ok(1,2) cur last [OF 3(1)] nip2 sz] show ?thesis unfolding t None by auto
      qed
    qed
  qed
qed

text \<open>The search ends, since the chain leads to higher blocks.\<close>

lemma find_page_ok:
  assumes ok: "blocks_ok index" "chain_ok index" "store_ok m (stored index)" and cur: "is_block index cur"
    and nip: "insert_page_ok index nip" and sz: "0 < es" "es \<le> 8156" "0 < ns" "ns \<le> 8152"
  shows "find_page (try_page index es ns (es + ns + 4) minsz) cur nip = Some (Inl cannot_extend) \<or>
    (\<exists>pl. find_page (try_page index es ns (es + ns + 4) minsz) cur nip = Some (Inr pl) \<and> placed index es ns pl)"
  using cur nip
proof (induction "length (rd_blocks index) - unat cur" arbitrary: cur nip rule: less_induct)
  case less
  from try_page_ok [OF ok less.prems sz, of minsz] show ?case
  proof (elim disjE exE conjE)
    fix nxt nip'
    assume n: "try_page index es ns (es + ns + 4) minsz cur nip = Inr (NextPage nxt nip')"
      "unat nxt = Suc (unat cur)" "is_block index nxt" "insert_page_ok index nip'"
    have "length (rd_blocks index) - unat nxt < length (rd_blocks index) - unat cur"
      using n(2,3) by (simp add: is_block_def)
    from less.hyps [OF this n(3,4)] n(1) show ?thesis
      by (subst (1 2) find_page.simps) simp
  qed (subst (1 2) find_page.simps, simp)+
qed

subsection \<open>Storing the tuples\<close>

lemma OffsetNumberNext_max:
  assumes "blocks_ok index" "is_block index b"
  shows "OffsetNumberNext (PageGetMaxOffsetNumber (page_of index b)) = word_of_nat (Suc (tuple_count index b))"
proof -
  have "unat (PageGetMaxOffsetNumber (page_of index b)) = tuple_count index b"
    using PageGetMaxOffsetNumber_inv [OF blocks_ok_page(1) [OF assms]] by (simp add: tuple_count_def)
  then have "PageGetMaxOffsetNumber (page_of index b) = word_of_nat (tuple_count index b)"
    by (metis of_nat_unat ucast_id)
  then show ?thesis by (simp add: OffsetNumberNext_def)
qed

text \<open>The element \<open>e\<close> after it was stored as \<open>etup\<close> and \<open>ntup\<close>.\<close>

definition stores ::
  "'v relation \<Rightarrow> 'v HnswElementData \<Rightarrow> 'v HnswElementTupleData \<Rightarrow> HnswNeighborTupleData \<Rightarrow> nat \<Rightarrow> nat
    \<Rightarrow> 'v relation \<Rightarrow> 'v HnswElementData \<Rightarrow> 'v HnswElementTupleData \<Rightarrow> HnswNeighborTupleData \<Rightarrow> bool" where
  "stores index e etup ntup es ns index' e' etup' ntup' \<longleftrightarrow>
     blocks_ok index' \<and> chain_ok index' \<and> same_relation index index' \<and>
     length (rd_blocks index) \<le> length (rd_blocks index') \<and>
     e' = e\<lparr>he_blkno := he_blkno e', he_offno := he_offno e', he_neighborPage := he_neighborPage e',
            he_neighborOffno := he_neighborOffno e'\<rparr> \<and>
     free_places (stored index) (etid e') (et_neighbortid etup') \<and>
     et_neighbortid etup' = ItemPointerSet (he_neighborPage e') (he_neighborOffno e') \<and>
     etup' = etup\<lparr>et_version := et_version etup', et_neighbortid := et_neighbortid etup'\<rparr> \<and>
     ntup' = ntup\<lparr>nt_version := et_version etup'\<rparr> \<and> 1 \<le> et_version etup' \<and> et_version etup' \<le> 15 \<and>
     stored index' = (stored index)(etid e' \<mapsto> (ETup etup', es), et_neighbortid etup' \<mapsto> (NTup ntup', ns))"

lemma store_reclaimed:
  assumes pl: "placed index es ns pl" "pl_free pl = Some (off, noff, ver)" and ok: "store_ok m (stored index)"
    and sz: "0 < es" "0 < ns" "MAXALIGN es = es" "MAXALIGN ns = ns"
  shows "\<exists>index' e' etup' ntup'. store_tuples pl e etup ntup es ns = Inr (index', e') \<and>
    stores index e etup ntup es ns index' e' etup' ntup' \<and> he_neighborPage e' = pl_nbuf pl \<and>
    length (rd_blocks index') = length (rd_blocks (pl_index pl))"
proof -
  let ?ix = "pl_index pl" and ?buf = "pl_buf pl" and ?nbuf = "pl_nbuf pl"
  let ?tid = "ItemPointerSet ?buf off" and ?ntid = "ItemPointerSet ?nbuf noff"
  let ?etup = "etup\<lparr>et_version := ver, et_neighbortid := ?ntid\<rparr>" and ?ntup = "ntup\<lparr>nt_version := ver\<rparr>"
  have ix: "blocks_ok ?ix" "chain_ok ?ix" "same_relation index ?ix" "stored ?ix = stored index"
    "length (rd_blocks index) \<le> length (rd_blocks ?ix)" "is_block ?ix ?buf" "is_block ?ix ?nbuf"
    "reclaims ?ix es ns ?buf (?nbuf, off, noff, ver)"
    using pl by (simp_all add: placed_def Let_def)
  from ix(8) obtain d l n nl where d: "stored ?ix ?tid = Some (ETup d, l)" "et_deleted d \<noteq> 0" "et_version d = ver"
    "et_neighbortid d = ?ntid" "stored ?ix ?ntid = Some (NTup n, nl)" "es \<le> l + room ?ix ?buf"
    "ns \<le> nl + (if ?nbuf = ?buf then l + room ?ix ?buf - es else room ?ix ?nbuf)"
    by (auto simp: reclaims_def)
  have ne: "?tid \<noteq> ?ntid" using d(1,5) by auto
  have "MAXALIGN es \<le> MAXALIGN l + room ?ix ?buf" using d(6) sz(3) MAXALIGN_ge [of l] by simp
  then obtain ix1 where o1: "overwrite_item ?ix ?buf off (ETup ?etup) es = Inr ix1" "keeps_pages ?ix ix1"
    "stored ix1 = (stored ?ix)(?tid \<mapsto> (ETup ?etup, es))" "room ix1 ?buf + MAXALIGN es = room ?ix ?buf + MAXALIGN l"
    "\<forall>b'. is_block ?ix b' \<longrightarrow> b' \<noteq> ?buf \<longrightarrow> room ix1 b' = room ?ix b'"
    "\<forall>b'. is_block ?ix b' \<longrightarrow> tuple_count ix1 b' = tuple_count ?ix b'"
    by (rule overwrite_item_ok [OF ix(1) d(1) sz(1)])
  have b1: "blocks_ok ix1" using o1(2) by (simp add: keeps_pages_def)
  have "stored ix1 ?ntid = Some (NTup n, nl)" using o1(3) d(5) ne by auto
  moreover have "MAXALIGN ns \<le> MAXALIGN nl + room ix1 ?nbuf"
    using d(7) sz(3,4) o1(4) o1(5) ix(7) MAXALIGN_ge [of l] MAXALIGN_ge [of nl] d(6)
    by (cases "?nbuf = ?buf") simp_all
  ultimately obtain ix2 where o2: "overwrite_item ix1 ?nbuf noff (NTup ?ntup) ns = Inr ix2" "keeps_pages ix1 ix2"
    "stored ix2 = (stored ix1)(?ntid \<mapsto> (NTup ?ntup, ns))"
    "room ix2 ?nbuf + MAXALIGN ns = room ix1 ?nbuf + MAXALIGN nl"
    "\<forall>b'. is_block ix1 b' \<longrightarrow> b' \<noteq> ?nbuf \<longrightarrow> room ix2 b' = room ix1 b'"
    "\<forall>b'. is_block ix1 b' \<longrightarrow> tuple_count ix2 b' = tuple_count ix1 b'"
    by (rule overwrite_item_ok [OF b1 _ sz(2)])
  let ?e = "e\<lparr>he_blkno := ?buf, he_neighborPage := ?nbuf, he_offno := off, he_neighborOffno := noff\<rparr>"
  have "store_tuples pl e etup ntup es ns = Inr (ix2, ?e)"
    using o1(1) o2(1) by (simp add: store_tuples_def ReadBuffer_block [OF ix(6)] pl(2) Let_def)
  moreover have "stores index e etup ntup es ns ix2 ?e ?etup ?ntup"
  proof -
    have k: "keeps_pages ?ix ix2" by (rule keeps_pages_trans [OF o1(2) o2(2)])
    have "free_places (stored index) ?tid ?ntid"
      using d ne by (auto simp: free_places_def ix(4))
    moreover have "1 \<le> ver \<and> ver \<le> 15"
      using store_ok_elem [OF ok, of ?tid d l] d(1,3) by (auto simp: ix(4) element_ok_def)
    moreover have "etid ?e = ?tid" by (simp add: etid_def)
    ultimately show ?thesis
      using k ix o1(3) o2(3) unfolding stores_def keeps_pages_def
      by (auto intro: same_relation_trans)
  qed
  moreover have "length (rd_blocks ix2) = length (rd_blocks ?ix)" using o1(2) o2(2) by (simp add: keeps_pages_def)
  ultimately show ?thesis by fastforce
qed

lemma store_appended:
  assumes pl: "placed index es ns pl" "pl_free pl = None"
    and sz: "0 < es" "0 < ns" "MAXALIGN es = es" "MAXALIGN ns = ns"
    and ver: "nt_version ntup = et_version etup" "1 \<le> et_version etup" "et_version etup \<le> 15"
  shows "\<exists>index' e' etup' ntup'. store_tuples pl e etup ntup es ns = Inr (index', e') \<and>
    stores index e etup ntup es ns index' e' etup' ntup' \<and> he_neighborPage e' = pl_nbuf pl \<and>
    length (rd_blocks index') = length (rd_blocks (pl_index pl))"
proof -
  let ?ix = "pl_index pl" and ?buf = "pl_buf pl" and ?nbuf = "pl_nbuf pl"
  have ix: "blocks_ok ?ix" "chain_ok ?ix" "same_relation index ?ix" "stored ?ix = stored index"
    "length (rd_blocks index) \<le> length (rd_blocks ?ix)" "is_block ?ix ?buf" "is_block ?ix ?nbuf"
    and room: "if ?nbuf = ?buf then es + ns + 8 \<le> room ?ix ?buf
       else es + 4 \<le> room ?ix ?buf \<and> ns + 4 \<le> room ?ix ?nbuf \<and> tuple_count ?ix ?nbuf = 0"
    using pl by (simp_all add: placed_def Let_def)
  define off where "off = (word_of_nat (Suc (tuple_count ?ix ?buf)) :: OffsetNumber)"
  define noff where "noff = (if ?nbuf = ?buf then OffsetNumberNext off else FirstOffsetNumber)"
  let ?tid = "ItemPointerSet ?buf off" and ?ntid = "ItemPointerSet ?nbuf noff"
  let ?etup = "etup\<lparr>et_neighbortid := ?ntid\<rparr>"
  have "MAXALIGN es + 4 \<le> room ?ix ?buf" using room sz(3) by (auto split: if_splits)
  then obtain ix1 where a1: "append_item_at ?ix ?buf off (ETup ?etup) es = Inr ix1" "keeps_pages ?ix ix1"
    "stored ix1 = (stored ?ix)(?tid \<mapsto> (ETup ?etup, es))" "stored ?ix ?tid = None"
    "room ix1 ?buf + MAXALIGN es + 4 = room ?ix ?buf"
    "\<forall>b'. is_block ?ix b' \<longrightarrow> b' \<noteq> ?buf \<longrightarrow> room ix1 b' = room ?ix b'"
    "\<forall>b'. is_block ?ix b' \<longrightarrow> tuple_count ix1 b' = tuple_count ?ix b' + (if b' = ?buf then 1 else 0)"
    unfolding off_def by (rule append_item_at_ok [OF ix(1,6) sz(1)])
  have b1: "blocks_ok ix1" "is_block ix1 ?nbuf" using a1(2) ix(7) keeps_pages_block [OF a1(2)] by (simp_all add: keeps_pages_def)
  have noff: "noff = word_of_nat (Suc (tuple_count ix1 ?nbuf))"
    using a1(7) ix(7) room by (auto simp: noff_def off_def OffsetNumberNext_def FirstOffsetNumber_def)
  have "MAXALIGN ns + 4 \<le> room ix1 ?nbuf"
    using room sz(3,4) a1(5) a1(6) ix(7) by (cases "?nbuf = ?buf") simp_all
  then obtain ix2 where a2: "append_item_at ix1 ?nbuf noff (NTup ntup) ns = Inr ix2" "keeps_pages ix1 ix2"
    "stored ix2 = (stored ix1)(?ntid \<mapsto> (NTup ntup, ns))" "stored ix1 ?ntid = None"
    "room ix2 ?nbuf + MAXALIGN ns + 4 = room ix1 ?nbuf"
    "\<forall>b'. is_block ix1 b' \<longrightarrow> b' \<noteq> ?nbuf \<longrightarrow> room ix2 b' = room ix1 b'"
    "\<forall>b'. is_block ix1 b' \<longrightarrow> tuple_count ix2 b' = tuple_count ix1 b' + (if b' = ?nbuf then 1 else 0)"
    unfolding noff by (rule append_item_at_ok [OF b1 sz(2)])
  let ?e = "e\<lparr>he_blkno := ?buf, he_neighborPage := ?nbuf, he_offno := off, he_neighborOffno := noff\<rparr>"
  have "store_tuples pl e etup ntup es ns = Inr (ix2, ?e)"
  proof -
    have mx: "OffsetNumberNext (PageGetMaxOffsetNumber (page_of ?ix ?buf)) = off"
      by (simp only: off_def OffsetNumberNext_max [OF ix(1,6)])
    show ?thesis
      using a1(1) a2(1)
      by (simp add: store_tuples_def ReadBuffer_block [OF ix(6)] pl(2) Let_def mx noff_def [symmetric] cong: if_cong
          split del: if_split)
  qed
  moreover have "stores index e etup ntup es ns ix2 ?e ?etup ntup"
  proof -
    have k: "keeps_pages ?ix ix2" by (rule keeps_pages_trans [OF a1(2) a2(2)])
    have "?tid \<noteq> ?ntid" using a1(3) a2(4) by auto
    then have "free_places (stored index) ?tid ?ntid"
      using a1(3,4) a2(4) by (auto simp: free_places_def ix(4))
    moreover have "etid ?e = ?tid" by (simp add: etid_def)
    ultimately show ?thesis
      using k ix a1(3) a2(3) ver unfolding stores_def keeps_pages_def
      by (auto intro: same_relation_trans)
  qed
  moreover have "length (rd_blocks ix2) = length (rd_blocks ?ix)" using a1(2) a2(2) by (simp add: keeps_pages_def)
  ultimately show ?thesis by fastforce
qed

subsection \<open>Adding an element\<close>

text \<open>The value of an element fits on a page.\<close>

definition fits_page :: "'v relation \<Rightarrow> 'v \<Rightarrow> bool" where
  "fits_page index v \<longleftrightarrow> HNSW_ELEMENT_TUPLE_SIZE (rd_varsize index v) \<le> HNSW_MAX_SIZE"

abbreviation (input) index_m :: "'v relation \<Rightarrow> nat" where
  "index_m index \<equiv> unat (mp_m (rd_meta index))"

lemma graph_okD:
  assumes "graph_ok index"
  shows "blocks_ok index" "chain_ok index" "store_ok (index_m index) (stored index)" "meta_ok index"
    "2 \<le> index_m index" "index_m index \<le> 100" "is_block index (mp_insertPage (rd_meta index))"
  using assms by (simp_all add: graph_ok_def meta_ok_def Let_def HNSW_MIN_M_def HNSW_MAX_M_def)

lemma AddElementOnDisk_ok:
  assumes g: "graph_ok index" and e: "mem_elems mem p = Some e" "he_value e = Some v" "he_version e = 1"
      "unat (he_level e) \<le> HnswGetMaxLevel (index_m index)" "fits_page index v"
    and n: "HnswSetNeighborTuple mem ntup_zero e (index_m index) = Inr ntup"
  defines "es \<equiv> HNSW_ELEMENT_TUPLE_SIZE (rd_varsize index v)"
    and "ns \<equiv> HNSW_NEIGHBOR_TUPLE_SIZE (unat (he_level e)) (index_m index)"
  shows "AddElementOnDisk index mem p (index_m index) (GetInsertPage index) = Some (Inl cannot_extend) \<or>
    (\<exists>index' e' etup etup' ntup' nip.
       AddElementOnDisk index mem p (index_m index) (GetInsertPage index) =
         Some (Inr (index', element_store mem p e', nip)) \<and>
       HnswSetElementTuple etup_zero e = Inr etup \<and>
       stores index e etup ntup es ns index' e' etup' ntup' \<and> (\<forall>b. nip = Some b \<longrightarrow> is_block index' b))"
proof -
  let ?m = "index_m index" and ?ip = "GetInsertPage index"
  note ok = graph_okD [OF g]
  obtain etup where et: "HnswSetElementTuple etup_zero e = Inr etup" using e(2) by (simp add: HnswSetElementTuple_def)
  have ver: "nt_version ntup = et_version etup" "et_version etup = 1"
    using neighbor_tuple_fields(2) [OF n] element_tuple_fields(4) [OF et] e(3) by simp_all
  have sz: "0 < es" "es \<le> 8156" "0 < ns" "ns \<le> 8152" "MAXALIGN es = es" "MAXALIGN ns = ns"
    using e(5) neighbor_tuple_size_bound [OF ok(5,6) e(4)]
    by (simp_all add: es_def ns_def fits_page_def HNSW_MAX_SIZE_eq HNSW_ELEMENT_TUPLE_SIZE_def
        HNSW_NEIGHBOR_TUPLE_SIZE_def offsetof_data_def offsetof_indextids_def)
  have ip: "is_block index ?ip" using ok(7) by (simp add: GetInsertPage_def)
  let ?min = "es + HNSW_NEIGHBOR_TUPLE_SIZE 0 ?m + 4"
  have run: "AddElementOnDisk index mem p ?m ?ip =
      bindO (find_page (try_page index es ns (es + ns + 4) ?min) ?ip InvalidBlockNumber) (\<lambda>pl.
      bindO (Some (store_tuples pl e etup ntup es ns)) (\<lambda>(index1, e1).
      let nip = (if \<not> BlockNumberIsValid (pl_newInsertPage pl) then he_neighborPage e1 else pl_newInsertPage pl)
      in Some (Inr (index1, element_store mem p e1,
           if BlockNumberIsValid nip \<and> nip \<noteq> ?ip then Some nip else None))))"
    using e(1,2) et n
    by (simp add: AddElementOnDisk_def HnswPtrAccess_def es_def ns_def sizeof_ItemIdData_def Let_def)
  have "insert_page_ok index InvalidBlockNumber" by (simp add: insert_page_ok_def BlockNumberIsValid_def)
  from find_page_ok [OF ok(1-3) ip this sz(1-4), of ?min] show ?thesis
  proof (elim disjE exE conjE)
    assume "find_page (try_page index es ns (es + ns + 4) ?min) ?ip InvalidBlockNumber = Some (Inl cannot_extend)"
    then show ?thesis unfolding run by simp
  next
    fix pl
    assume pl: "find_page (try_page index es ns (es + ns + 4) ?min) ?ip InvalidBlockNumber = Some (Inr pl)"
      "placed index es ns pl"
    have "\<exists>index' e' etup' ntup'. store_tuples pl e etup ntup es ns = Inr (index', e') \<and>
        stores index e etup ntup es ns index' e' etup' ntup' \<and> he_neighborPage e' = pl_nbuf pl \<and>
        length (rd_blocks index') = length (rd_blocks (pl_index pl))"
    proof (cases "pl_free pl")
      case None
      with store_appended [OF pl(2) None sz(1,3,5,6) ver(1)] ver(2) show ?thesis by simp
    next
      case (Some fr)
      then obtain off noff vr where "pl_free pl = Some (off, noff, vr)" by (cases fr) auto
      from store_reclaimed [OF pl(2) this ok(3) sz(1,3,5,6)] show ?thesis .
    qed
    then obtain index' e' etup' ntup' where s: "store_tuples pl e etup ntup es ns = Inr (index', e')"
      "stores index e etup ntup es ns index' e' etup' ntup'" "he_neighborPage e' = pl_nbuf pl"
      "length (rd_blocks index') = length (rd_blocks (pl_index pl))" by blast
    let ?nip = "if \<not> BlockNumberIsValid (pl_newInsertPage pl) then he_neighborPage e' else pl_newInsertPage pl"
    have "is_block index' b" if "is_block (pl_index pl) b" for b using that s(4) by (simp add: is_block_def)
    then have nip: "is_block index' ?nip"
      using pl(2) s(3) by (auto simp: placed_def Let_def insert_page_ok_def)
    define nip where "nip = (if BlockNumberIsValid ?nip \<and> ?nip \<noteq> ?ip then Some ?nip else None)"
    have "AddElementOnDisk index mem p ?m ?ip = Some (Inr (index', element_store mem p e', nip))"
      unfolding run nip_def pl(1) bindO_simps s(1) prod.case Let_def ..
    moreover have "\<forall>b. nip = Some b \<longrightarrow> is_block index' b" using nip by (auto simp: nip_def)
    ultimately show ?thesis using s(2) et by blast
  qed
qed

lemma element_tuple_padded:
  assumes "HnswSetElementTuple etup e = Inr t" "\<forall>t \<in> set (he_heaptids e). ItemPointerIsValid t"
  shows "\<forall>x \<in> set (dropWhile ItemPointerIsValid (et_heaptids t)). \<not> ItemPointerIsValid x"
proof -
  let ?xs = "he_heaptids e" and ?n = "HNSW_HEAPTIDS"
  have "et_heaptids t = map (\<lambda>i. if i < length ?xs then ?xs ! i else ItemPointerSetInvalid) [0..<?n]"
    using assms(1) by (auto simp: HnswSetElementTuple_def bindE_Inr_iff)
  also have "\<dots> = take ?n ?xs @ replicate (?n - length ?xs) ItemPointerSetInvalid"
    by (auto simp: list_eq_iff_nth_eq nth_append)
  finally show ?thesis
    using assms(2) by (auto simp: dropWhile_append dest: in_set_takeD set_dropWhileD)
qed

text \<open>The graph with the new element is well-formed if its connections lead to live elements.\<close>

lemma stored_graph_ok:
  assumes g: "graph_ok index"
    and s: "stores index e etup ntup es (HNSW_NEIGHBOR_TUPLE_SIZE (unat (he_level e)) (index_m index)) index' e' etup' ntup'"
    and et: "HnswSetElementTuple etup_zero e = Inr etup"
      "unat (he_level e) \<le> HnswGetMaxLevel (index_m index)"
      "\<forall>t \<in> set (he_heaptids e). ItemPointerIsValid t"
    and n: "HnswSetNeighborTuple mem ntup_zero e (index_m index) = Inr ntup"
      "\<forall>t \<in> set (nt_indextids ntup). ItemPointerIsValid t \<longrightarrow> (\<exists>x. live_in (stored index) t x)"
  shows "graph_ok index'" "live_in (stored index') (etid e') etup'"
    "live_in (stored index) t x \<Longrightarrow> live_in (stored index') t x"
proof -
  let ?m = "index_m index" and ?ns = "HNSW_NEIGHBOR_TUPLE_SIZE (unat (he_level e)) (index_m index)"
  note ok = graph_okD [OF g]
  have s': "blocks_ok index'" "chain_ok index'" "same_relation index index'"
    "length (rd_blocks index) \<le> length (rd_blocks index')"
    "free_places (stored index) (etid e') (et_neighbortid etup')"
    "stored index' = (stored index)(etid e' \<mapsto> (ETup etup', es), et_neighbortid etup' \<mapsto> (NTup ntup', ?ns))"
    "1 \<le> et_version etup'" "et_version etup' \<le> 15"
    using s unfolding stores_def by blast+
  have e': "etup' = etup\<lparr>et_version := et_version etup', et_neighbortid := et_neighbortid etup'\<rparr>"
    "ntup' = ntup\<lparr>nt_version := et_version etup'\<rparr>"
    using s unfolding stores_def by blast+
  note f = element_tuple_fields [OF et(1)]
  have same: "et_type etup' = et_type etup" "et_level etup' = et_level etup" "et_deleted etup' = et_deleted etup"
    "et_heaptids etup' = et_heaptids etup" "et_data etup' = et_data etup"
    by (subst e'(1), simp)+
  have el: "element_ok ?m etup'" "et_deleted etup' = 0" "et_level etup' = he_level e"
    using f et(2) s'(7,8) element_tuple_padded [OF et(1,3)] by (auto simp: element_ok_def same)
  obtain layers where L: "nt_indextids ntup = concat layers" "length (concat layers) = (unat (he_level e) + 2) * ?m"
    using neighbor_tuple_layers [OF n(1)] by metis
  have small: "(unat (he_level e) + 2) * ?m \<le> 1358" by (rule HnswGetMaxLevel_slots(1) [OF ok(5,6) et(2)])
  have same_n: "nt_type ntup' = nt_type ntup" "nt_count ntup' = nt_count ntup" "nt_indextids ntup' = nt_indextids ntup"
    "nt_version ntup' = et_version etup'"
    by (subst e'(2), simp)+
  have "unat (nt_count ntup') = (unat (he_level e) + 2) * ?m"
    using neighbor_tuple_fields(3) [OF n(1)] L small
    by (simp add: same_n unsigned_of_nat take_bit_nat_eq_self del: of_nat_add of_nat_mult)
  then have c: "connects ?m (stored index) etup' ntup'"
    using neighbor_tuple_fields(1) [OF n(1)] L n(2) el(3) by (simp add: connects_def same_n)
  have st: "store_ok ?m (stored index')"
    using store_ok_add [OF ok(3) s'(5) el(1) refl el(2) c, of es] unfolding s'(6) el(3) .
  have ne: "etid e' \<noteq> et_neighbortid etup'" using s'(5) by (simp add: free_places_def)
  then show lv: "live_in (stored index') (etid e') etup'" using el(2) by (auto simp: s'(6) live_in_def)
  have live: "live_in (stored index') t x" if lt: "live_in (stored index) t x" for t x
  proof -
    obtain l where l: "stored index t = Some (ETup x, l)" "et_deleted x = 0" using lt by (auto simp: live_in_def)
    have "t \<noteq> etid e'" using s'(5) l by (auto simp: free_places_def)
    moreover have "t \<noteq> et_neighbortid etup'"
      using s'(5) l store_ok_conn [OF ok(3), of "etid e'"] by (fastforce simp: free_places_def)
    ultimately show ?thesis using l by (simp add: s'(6) live_in_def)
  qed
  then show "live_in (stored index) t x \<Longrightarrow> live_in (stored index') t x" .
  have meta: "rd_meta index' = rd_meta index" by (rule same_relation_fields(5) [OF s'(3)])
  have "meta_ok index'"
    using ok(4) live s'(4) unfolding meta_ok_def Let_def meta by (auto simp: is_block_def split: if_splits)
  then show "graph_ok index'" using s'(1,2) st by (simp add: graph_ok_def meta)
qed

end
