(* ===== verification/Hnsw_Update_Correct.thy ===== *)
theory Hnsw_Update_Correct
  imports Hnsw_Connect Hnsw_Insert_Correct
begin

section \<open>Updating the neighbors on disk\<close>

text \<open>
  \<^verbatim>\<open>HnswUpdateNeighborsOnDisk\<close> changes only neighbor tuples and keeps the graph well-formed: the position
  \<^verbatim>\<open>GetUpdateIndex\<close> returns lies inside the layer, and the TID written is that of a live element.
\<close>

subsection \<open>Writing one connection\<close>

definition same_elements :: "'v relation \<Rightarrow> 'v relation \<Rightarrow> bool" where
  "same_elements index index' \<longleftrightarrow>
     same_relation index index' \<and> length (rd_blocks index') = length (rd_blocks index) \<and>
     (\<forall>t x l. stored index' t = Some (ETup x, l) \<longleftrightarrow> stored index t = Some (ETup x, l))"

lemma same_elements_refl [simp]: "same_elements index index"
  by (simp add: same_elements_def)

lemma same_elements_trans: "same_elements a b \<Longrightarrow> same_elements b c \<Longrightarrow> same_elements a c"
  unfolding same_elements_def by (metis same_relation_trans)

lemma same_elements_live: "same_elements a b \<Longrightarrow> live_in (stored b) t x \<longleftrightarrow> live_in (stored a) t x"
  by (simp add: same_elements_def live_in_def)

lemma same_elements_meta: "same_elements a b \<Longrightarrow> rd_meta b = rd_meta a"
  unfolding same_elements_def using same_relation_fields(5) by blast

text \<open>Only the TID \<open>t\<close> is added to neighbor tuples.\<close>

definition relinks :: "ItemPointerData \<Rightarrow> 'v relation \<Rightarrow> 'v relation \<Rightarrow> bool" where
  "relinks t index index' \<longleftrightarrow>
     same_elements index index' \<and>
     (\<forall>tid n l. stored index' tid = Some (NTup n, l) \<longrightarrow>
        (\<exists>n0. stored index tid = Some (NTup n0, l) \<and> set (nt_indextids n) \<subseteq> insert t (set (nt_indextids n0))))"

lemma relinks_refl [simp]: "relinks t index index"
  by (auto simp: relinks_def)

lemma relinks_same: "relinks t a b \<Longrightarrow> same_elements a b"
  by (simp add: relinks_def)

lemma relinks_trans:
  assumes "relinks t a b" "relinks t b c"
  shows "relinks t a c"
proof -
  have "\<exists>n0. stored a tid = Some (NTup n0, l) \<and> set (nt_indextids n) \<subseteq> insert t (set (nt_indextids n0))"
    if n: "stored c tid = Some (NTup n, l)" for tid n l
  proof -
    obtain n1 where n1: "stored b tid = Some (NTup n1, l)" "set (nt_indextids n) \<subseteq> insert t (set (nt_indextids n1))"
      using assms(2) n unfolding relinks_def by blast
    obtain n0 where "stored a tid = Some (NTup n0, l)" "set (nt_indextids n1) \<subseteq> insert t (set (nt_indextids n0))"
      using assms(1) n1(1) unfolding relinks_def by blast
    with n1(2) show ?thesis by blast
  qed
  with assms same_elements_trans show ?thesis unfolding relinks_def by blast
qed

lemma connection_exists_total:
  assumes "0 \<le> start" "\<forall>i \<in> set is. nat start + i < length (nt_indextids ntup)"
  shows "\<exists>b. connection_exists e ntup start is = Inr b"
  using assms by (induction "is") (auto simp: array_get_def nat_add_distrib)

lemma free_index_total:
  assumes "0 \<le> start" "\<forall>i \<in> set is. nat start + i < length (nt_indextids ntup)"
  shows "\<exists>k. free_index ntup start is = Inr k \<and> (k = -2 \<or> 0 \<le> k)"
  using assms by (induction "is") (auto simp: array_get_def nat_add_distrib)

lemma set_update_subset: "set (xs[i := x]) \<subseteq> insert x (set xs)"
  by (rule set_update_subset_insert)

lemma connects_update:
  assumes "connects m \<sigma> e n" "live_in \<sigma> t x"
  shows "connects m \<sigma> e (n\<lparr>nt_indextids := (nt_indextids n)[i := t]\<rparr>)"
  using assms set_update_subset_insert [of "nt_indextids n" i t] unfolding connects_def by auto

lemma UpdateNeighborOnDisk_ok:
  assumes g: "graph_ok ix" and ne: "live_in (stored ix) (etid ne) etup" "loaded ne etup"
    and new: "live_in (stored ix) (etid e) x" and lc: "lc \<le> unat (et_level etup)"
    and idx: "idx = -2 \<or> 0 \<le> idx"
  shows "\<exists>ix'. UpdateNeighborOnDisk ne e idx (index_m ix) (HnswGetLayerM (index_m ix) lc) lc ix chk = Inr ix' \<and>
    graph_ok ix' \<and> relinks (etid e) ix ix'"
proof -
  let ?m = "index_m ix" and ?L = "unat (et_level etup)" and ?b = "he_neighborPage ne" and ?off = "he_neighborOffno ne"
  let ?lm = "HnswGetLayerM ?m lc"
  define start where "start = (int (unat (he_level ne)) - int lc) * int ?m"
  note ok = graph_okD [OF g]
  obtain l where st: "stored ix (etid ne) = Some (ETup etup, l)" using ne(1) by (auto simp: live_in_def)
  from store_okD [OF ok(3) st] obtain n where n: "element_ok ?m etup" "connects ?m (stored ix) etup n"
    "stored ix (et_neighbortid etup) = Some (NTup n, HNSW_NEIGHBOR_TUPLE_SIZE ?L ?m)" by blast
  have tid: "et_neighbortid etup = ItemPointerSet ?b ?off" using ne(2) by (simp add: loaded_def)
  have blk: "is_block ix ?b" using stored_block(1) [OF n(3)] by (simp add: tid)
  have read: "PageGetTuple (page_of ix ?b) ?off = Inr (NTup n)"
    using ReadItem_stored [OF ok(1), of ?b ?off "NTup n"] n(3)
    by (simp add: tid ReadItem_def ReadBuffer_block [OF blk])
  have start: "start = int ((?L - lc) * ?m)" using ne(2) lc 
    unfolding start_def loaded_def by (metis of_nat_diff of_nat_mult)
  have len: "length (nt_indextids n) = (?L + 2) * ?m" "unat (nt_count n) = (?L + 2) * ?m"
    using n(2) by (simp_all add: connects_def)
  have rng: "\<forall>i \<in> set [0..<?lm]. nat start + i < length (nt_indextids n)"
    unfolding start nat_int len(1) using layer_fits [OF lc, of ?m] by auto
  have s0: "0 \<le> start" unfolding start by simp
  obtain ex where ex: "(if chk then ConnectionExists e n start ?lm else Inr False) = Inr ex"
    using connection_exists_total [OF s0 rng, of e] by (cases chk) (auto simp: ConnectionExists_def)
  obtain i1 where i1: "(if ex then Inr (-1) else if idx = -2 then free_index n start [0..<?lm] else Inr (idx + start)) = Inr i1"
    using free_index_total [OF s0 rng] by (cases "ex"; cases "idx = -2") auto
  have run: "UpdateNeighborOnDisk ne e idx ?m ?lm lc ix chk =
      (if 0 \<le> i1 \<and> i1 < int (unat (nt_count n))
       then bindE (array_set ''indextids'' (nt_indextids n) (nat i1) (etid e)) (\<lambda>indextids.
            bindE (PageSetTuple (page_of ix ?b) ?off (NTup (n\<lparr>nt_indextids := indextids\<rparr>))) (\<lambda>page'.
            Inr (WriteBuffer ix ?b page')))
       else Inr ix)"
    unfolding UpdateNeighborOnDisk_def Let_def start_def [symmetric]
    by (simp add: ReadBuffer_block [OF blk] read ex i1 etid_def)
  show ?thesis
  proof (cases "0 \<le> i1 \<and> i1 < int (unat (nt_count n))")
    case False
    then show ?thesis unfolding run if_not_P [OF False] using g by simp
  next
    case True
    let ?n = "n\<lparr>nt_indextids := (nt_indextids n)[nat i1 := etid e]\<rparr>"
    have ar: "array_set ''indextids'' (nt_indextids n) (nat i1) (etid e) = Inr ((nt_indextids n)[nat i1 := etid e])"
    proof -
      have "nat i1 < length (nt_indextids n)" using True unfolding len by linarith
      then show ?thesis by (simp add: array_set_def)
    qed
    have sb: "stored ix (ItemPointerSet ?b ?off) = Some (NTup n, HNSW_NEIGHBOR_TUPLE_SIZE ?L ?m)" using n(3) by (simp add: tid)
    obtain page where pg: "PageSetTuple (page_of ix ?b) ?off (NTup ?n) = Inr page" "keeps_pages ix (WriteBuffer ix ?b page)"
      "stored (WriteBuffer ix ?b page) = (stored ix)(ItemPointerSet ?b ?off \<mapsto> (NTup ?n, HNSW_NEIGHBOR_TUPLE_SIZE ?L ?m))"
      by (rule set_tuple_ok [OF ok(1) sb])
    let ?ix = "WriteBuffer ix ?b page"
    have "store_ok ?m (stored ?ix)"
      using store_ok_neighbors [OF ok(3) st connects_update [OF n(2) new]] by (simp add: pg(3) tid)
    moreover have se: "same_elements ix ?ix"
      using pg(2) sb by (auto simp: same_elements_def keeps_pages_def pg(3))
    moreover have "meta_ok ?ix"
      using ok(4) same_elements_live [OF se] by (simp add: meta_ok_def Let_def is_block_def)
    ultimately have "graph_ok ?ix" using pg(2) ok(2) by (simp add: graph_ok_def keeps_pages_def)
    moreover have "relinks (etid e) ix ?ix"
      using se sb set_update_subset_insert [of "nt_indextids n" "nat i1" "etid e"] by (auto simp: relinks_def pg(3) split: if_splits)
    ultimately show ?thesis unfolding run if_P [OF True] ar using pg(1) by simp
  qed
qed

subsection \<open>Loading the neighbors of a neighbor\<close>

text \<open>The values of the live elements, and values with numeric distances.\<close>

definition values_in :: "'v relation \<Rightarrow> 'v set" where
  "values_in index = {v. \<exists>t e. live_at index t e \<and> et_data e = Some v}"

definition num_dist :: "'v HnswSupport \<Rightarrow> 'v set \<Rightarrow> bool" where
  "num_dist support V \<longleftrightarrow> (\<forall>x \<in> V. \<forall>y \<in> V. \<exists>d. HnswGetDistance x y support = Inr d \<and> \<not> float8_isnan d)"

lemma num_dist_mono: "num_dist support V \<Longrightarrow> U \<subseteq> V \<Longrightarrow> num_dist support U"
  unfolding num_dist_def by blast

lemma num_dist_distances:
  assumes "num_dist support V" "values_in index \<subseteq> V" "\<And>v. q = Some v \<Longrightarrow> v \<in> V"
  shows "distances_ok index q support" "pairs_ok index support"
proof -
  have "v \<in> V" if "live_at index t e" "et_data e = Some v" for t e v using that assms(2) by (auto simp: values_in_def)
  then show "distances_ok index q support" "pairs_ok index support"
    using assms(1,3) unfolding distances_ok_def pairs_ok_def num_dist_def by blast+
qed

lemma neighbor_tids_live:
  assumes g: "graph_ok ix" and ne: "live_in (stored ix) (etid ne) etup" "loaded ne etup"
    and lc: "lc \<le> unat (et_level etup)"
  obtains tids where
    "HnswLoadNeighborTids ne ix (index_m ix) (HnswGetLayerM (index_m ix) lc) lc None = Inr (Some tids, None)"
    "length tids = HnswGetLayerM (index_m ix) lc"
    "\<forall>t \<in> set tids. ItemPointerIsValid t \<longrightarrow> (\<exists>x. live_in (stored ix) t x)"
proof -
  let ?m = "index_m ix" and ?L = "unat (et_level etup)" and ?lm = "HnswGetLayerM (index_m ix) lc"
  note ok = graph_okD [OF g]
  obtain l where st: "stored ix (etid ne) = Some (ETup etup, l)" using ne(1) by (auto simp: live_in_def)
  from store_okD [OF ok(3) st] obtain n where n: "connects ?m (stored ix) etup n"
    "stored ix (et_neighbortid etup) = Some (NTup n, HNSW_NEIGHBOR_TUPLE_SIZE ?L ?m)" by blast
  have "et_neighbortid etup = ItemPointerSet (he_neighborPage ne) (he_neighborOffno ne)" using ne(2) by (simp add: loaded_def)
  then have read: "ReadItem ix (he_neighborPage ne) (he_neighborOffno ne) = Inr (NTup n)"
    using ReadItem_stored [OF ok(1)] n(2) by auto
  have start: "(int ?L - int lc) * int ?m = int ((?L - lc) * ?m)"
    using lc by (simp only: of_nat_mult of_nat_diff)
  have fits: "(?L - lc) * ?m + ?lm \<le> (?L + 2) * ?m" by (rule layer_fits [OF lc])
  let ?tids = "take ?lm (drop ((?L - lc) * ?m) (nt_indextids n))"
  have "HnswLoadNeighborTids ne ix ?m ?lm lc None = Inr (Some ?tids, None)"
    using read n(1) ne(2) fits
    by (simp only: HnswLoadNeighborTids_def Let_def loaded_def connects_def start nat_int HnswTraceRecordNeighborPage_def)
      (simp del: of_nat_mult)
  moreover have "length ?tids = ?lm" using n(1) fits by (simp add: connects_def)
  moreover have "\<forall>t \<in> set ?tids. ItemPointerIsValid t \<longrightarrow> (\<exists>x. live_in (stored ix) t x)"
    using n(1) unfolding connects_def by (meson in_set_dropD in_set_takeD)
  ultimately show thesis by (rule that)
qed

lemma load_neighbors_ok:
  assumes "mem_ok mem" "length (na_items a) + length tids \<le> na_alloc a"
  shows "load_neighbors tids a mem = Inl out_of_memory \<or>
    (\<exists>hcs mem'. load_neighbors tids a mem = Inr (a\<lparr>na_items := na_items a @ hcs\<rparr>, mem') \<and> mem_ok mem' \<and>
       mem_extends mem mem' \<and> distinct (map hc_element hcs) \<and> length hcs \<le> length tids \<and>
       (\<forall>hc \<in> set hcs. mem_elems mem (hc_element hc) = None \<and>
          (\<exists>el. mem_elems mem' (hc_element hc) = Some el \<and> etid el \<in> set tids \<and> ItemPointerIsValid (etid el))))"
  using assms
proof (induction tids arbitrary: a mem)
  case Nil
  then show ?case by (intro disjI2 exI [of _ "[]"] exI [of _ mem]) simp
next
  case (Cons t ts)
  show ?case
  proof (cases "ItemPointerIsValid t")
    case False
    with Cons.prems show ?thesis by (intro disjI2 exI [of _ "[]"] exI [of _ mem]) simp
  next
    case True
    let ?e0 = "blank_element\<lparr>he_blkno := ItemPointerGetBlockNumber t, he_offno := ItemPointerGetOffsetNumber t,
      he_neighbors := None, he_value := None\<rparr>"
    show ?thesis
    proof (cases rule: HnswAlloc_cases [OF Cons.prems(1), of ?e0])
      case 1
      with True show ?thesis by (simp add: HnswInitElementFromBlock_def)
    next
      case (2 p mem1)
      let ?hc = "\<lparr>hc_element = p, hc_distance = 0, hc_closer = False\<rparr>"
      let ?a = "a\<lparr>na_items := na_items a @ [?hc]\<rparr>"
      have run: "load_neighbors (t # ts) a mem = load_neighbors ts ?a mem1"
        using True 2(1) Cons.prems(2) by (simp add: HnswInitElementFromBlock_def append_item_def)
      have et: "etid ?e0 = t" by (simp add: etid_def)
      from Cons.IH [OF 2(3), of ?a] Cons.prems(2)
      consider "load_neighbors ts ?a mem1 = Inl out_of_memory"
        | hcs mem' where "load_neighbors ts ?a mem1 = Inr (?a\<lparr>na_items := na_items ?a @ hcs\<rparr>, mem')" "mem_ok mem'"
          "mem_extends mem1 mem'" "distinct (map hc_element hcs)" "length hcs \<le> length ts"
          "\<forall>hc \<in> set hcs. mem_elems mem1 (hc_element hc) = None \<and>
            (\<exists>el. mem_elems mem' (hc_element hc) = Some el \<and> etid el \<in> set ts \<and> ItemPointerIsValid (etid el))"
        by auto
      then show ?thesis
      proof cases
        case 1
        then show ?thesis unfolding run by simp
      next
        case r: (2 hcs mem')
        have new: "mem_elems mem' p = Some ?e0" using 2(4) r(3) by (simp add: mem_extends_def)
        have np: "p \<notin> hc_element ` set hcs" using r(6) 2(4) by force
        have old: "mem_elems mem (hc_element hc) = None" if "hc \<in> set hcs" for hc
          using r(6) that 2(5) unfolding mem_extends_def by (metis not_Some_eq)
        have "(\<exists>el. mem_elems mem' (hc_element hc) = Some el \<and> etid el \<in> set (t # ts) \<and> ItemPointerIsValid (etid el)) \<and>
            mem_elems mem (hc_element hc) = None" if "hc \<in> set (?hc # hcs)" for hc
          using that r(6) new et True old 2(2) by (cases "hc = ?hc") auto
        moreover have "mem_extends mem mem'" by (rule mem_extends_trans [OF 2(5) r(3)])
        moreover have "load_neighbors ts ?a mem1 = Inr (a\<lparr>na_items := na_items a @ (?hc # hcs)\<rparr>, mem')" using r(1) by simp
        moreover have "distinct (map hc_element (?hc # hcs))" "length (?hc # hcs) \<le> length (t # ts)" using r(4,5) np by simp_all
        ultimately show ?thesis unfolding run using r(2) by blast
      qed
    qed
  qed
qed

lemma load_element_ok:
  assumes "index_ok index m" "distances_ok index q support" "mem_elems mem p = Some e" "live_at index (etid e) etup"
  obtains e' where
    "HnswLoadElement p True q index support True None mem = Inr (tuple_distance q support etup, element_store mem p e')"
    "loaded e' etup" "etid e' = etid e" "he_value e' = et_data etup" "\<not> float8_isnan (tuple_distance q support etup)"
proof -
  have et: "length (et_heaptids etup) = HNSW_HEAPTIDS" "et_data etup \<noteq> None"
    using assms(1,4) by (auto simp: index_ok_def)
  have d: "element_distance True q etup support None = Inr (tuple_distance q support etup, None)"
    using element_distance_live(1) [OF assms(2,4) et(2), of None] by auto
  obtain e' where e': "HnswLoadElementFromTuple e etup True True = Inr e'"
    by (simp add: HnswLoadElementFromTuple_eq [OF et(1)])
  have "ReadItem index (he_blkno e) (he_offno e) = Inr (ETup etup)" "et_deleted etup = 0"
    using live_at_ReadItem [OF assms(4)] by (simp_all add: etid_def)
  then have "HnswLoadElement p True q index support True None mem = Inr (tuple_distance q support etup, element_store mem p e')"
    using assms(3) d e' by (simp add: HnswLoadElement_def HnswLoadElementImpl_def HnswTraceRecordElementPage_def)
  with load_from_tuple [OF e'] load_from_tuple_value [OF e'] element_distance_live(2) [OF assms(2,4) et(2)]
  show thesis using that by blast
qed

text \<open>A loaded candidate with its value and a numeric distance.\<close>

definition ready :: "'v relation \<Rightarrow> 'v memory \<Rightarrow> HnswCandidate \<Rightarrow> bool" where
  "ready index mem hc \<longleftrightarrow>
     (\<exists>el etup. mem_elems mem (hc_element hc) = Some el \<and> live_at index (etid el) etup \<and> he_value el = et_data etup) \<and>
     \<not> float4_isnan (hc_distance hc)"

lemma LoadElementsForInsert_ok:
  assumes "index_ok index m" "distances_ok index q support" "distinct (map hc_element hcs)"
    and "\<forall>hc \<in> set hcs. \<exists>el etup. mem_elems mem (hc_element hc) = Some el \<and> live_at index (etid el) etup"
    and "mem_ok mem"
  shows "\<exists>hcs' idx mem'. LoadElementsForInsert hcs i q index support mem = Inr (hcs', idx, mem') \<and> mem_ok mem' \<and>
    map hc_element hcs' = map hc_element hcs \<and> extends_but (hc_element ` set hcs) mem mem' \<and>
    (case idx of None \<Rightarrow> \<forall>hc \<in> set hcs'. ready index mem' hc | Some k \<Rightarrow> int i \<le> k \<and> k < int i + int (length hcs))"
  using assms(3-5)
proof (induction hcs arbitrary: i mem)
  case Nil
  then show ?case by (simp add: extends_but_def)
next
  case (Cons hc hcs)
  obtain el etup where el: "mem_elems mem (hc_element hc) = Some el" "live_at index (etid el) etup"
    using Cons.prems(2) by auto
  obtain e' where l: "HnswLoadElement (hc_element hc) True q index support True None mem =
      Inr (tuple_distance q support etup, element_store mem (hc_element hc) e')" "loaded e' etup" "etid e' = etid el"
    "he_value e' = et_data etup" "\<not> float8_isnan (tuple_distance q support etup)"
    by (rule load_element_ok [OF assms(1,2) el])
  let ?mem1 = "element_store mem (hc_element hc) e'" and ?hc = "hc\<lparr>hc_distance := float8_to_float4 (tuple_distance q support etup)\<rparr>"
  have m1: "mem_ok ?mem1" using element_store_ok [OF Cons.prems(3)] el(1) by simp
  have x1: "extends_but {hc_element hc} mem ?mem1" by (auto simp: extends_but_def element_store_def)
  show ?case
  proof (cases "he_heaptids e' = []")
    case True
    then have "LoadElementsForInsert (hc # hcs) i q index support mem = Inr (?hc # hcs, Some (int i), ?mem1)"
      using l(1) by (simp add: element_store_def)
    with m1 x1 show ?thesis by (auto simp: extends_but_def)
  next
    case False
    have ne: "hc_element h \<noteq> hc_element hc" if "h \<in> set hcs" for h
    proof
      assume "hc_element h = hc_element hc"
      with that have "hc_element hc \<in> hc_element ` set hcs" by (metis imageI)
      with Cons.prems(1) show False by simp
    qed
    have pre: "\<forall>h \<in> set hcs. \<exists>el etup. mem_elems ?mem1 (hc_element h) = Some el \<and> live_at index (etid el) etup"
      using Cons.prems(2) ne by (simp add: element_store_def)
    from Cons.IH [OF _ pre m1, of "Suc i"] Cons.prems(1) obtain hcs' idx mem' where
      r: "LoadElementsForInsert hcs (Suc i) q index support ?mem1 = Inr (hcs', idx, mem')" "mem_ok mem'"
        "map hc_element hcs' = map hc_element hcs" "extends_but (hc_element ` set hcs) ?mem1 mem'"
        "case idx of None \<Rightarrow> \<forall>hc \<in> set hcs'. ready index mem' hc
         | Some k \<Rightarrow> int (Suc i) \<le> k \<and> k < int (Suc i) + int (length hcs)"
      by auto
    have run: "LoadElementsForInsert (hc # hcs) i q index support mem = Inr (?hc # hcs', idx, mem')"
      using l(1) r(1) False by (simp add: element_store_def)
    have "hc_element hc \<notin> hc_element ` set hcs" using Cons.prems(1) by simp
    then have "mem_elems mem' (hc_element hc) = Some e'" using r(4) by (simp add: extends_but_def element_store_def)
    then have "ready index mem' ?hc" using l el(2) by (auto simp: ready_def)
    moreover have "extends_but (hc_element ` set (hc # hcs)) mem mem'" using x1 r(4) by (auto simp: extends_but_def)
    ultimately show ?thesis using run r(2,3,5) by (auto split: option.splits)
  qed
qed

subsection \<open>GetUpdateIndex\<close>

text \<open>A neighbor as the insertion sees it: loaded, live and with its value.\<close>

definition known :: "'v relation \<Rightarrow> nat \<Rightarrow> 'v HnswElementData \<Rightarrow> bool" where
  "known index lc ne \<longleftrightarrow>
     (\<exists>etup. live_in (stored index) (etid ne) etup \<and> loaded ne etup \<and> he_value ne = et_data etup \<and>
        lc \<le> unat (et_level etup))"

lemma ready_values:
  assumes V: "num_dist support V" "values_in index \<subseteq> V" and ok: "index_ok index m"
    and items: "\<forall>hc \<in> set items. ready index mem hc" and p: "bare_value mem (p, d) = Some v" "v \<in> V"
  shows "values_ok mem support (insert (p, d) (set (map bare items)))"
proof -
  have val: "\<exists>v \<in> V. bare_value mem b = Some v" if b: "b \<in> insert (p, d) (set (map bare items))" for b
  proof (cases "b = (p, d)")
    case True
    with p show ?thesis by blast
  next
    case False
    with b obtain hc where hc: "hc \<in> set items" "b = bare hc" by auto
    with items obtain el etup where e: "mem_elems mem (hc_element hc) = Some el" "live_at index (etid el) etup"
      "he_value el = et_data etup" unfolding ready_def by blast
    moreover from e(2) ok obtain w where "et_data etup = Some w" by (auto simp: index_ok_def)
    ultimately show ?thesis using V(2) hc(2) by (auto simp: bare_value_def bare_def values_in_def)
  qed
  show ?thesis unfolding values_ok_def
  proof (intro conjI ballI)
    fix x y
    assume "x \<in> insert (p, d) (set (map bare items))" "y \<in> insert (p, d) (set (map bare items))"
    then show "\<exists>d. HnswGetDistance (the (bare_value mem x)) (the (bare_value mem y)) support = Inr d"
      using val [of x] val [of y] V(1) unfolding num_dist_def by fastforce
  qed (use val in fastforce)
qed

lemma GetUpdateIndex_ok:
  assumes g: "graph_ok ix" and ne: "known ix lc ne" and V: "num_dist support V" "values_in ix \<subseteq> V"
    and mem: "mem_ok mem" "mem_elems mem p = Some e" "he_value e = Some v" "v \<in> V" and d: "\<not> float4_isnan dist"
  defines "r \<equiv> GetUpdateIndex ne p dist (index_m ix) (HnswGetLayerM (index_m ix) lc) lc ix support mem"
  shows "r = Inl out_of_memory \<or> (\<exists>i. r = Inr i \<and> (i = -2 \<or> i = -1 \<or> 0 \<le> i))"
proof -
  let ?m = "index_m ix" and ?lm = "HnswGetLayerM (index_m ix) lc"
  note ok = graph_okD [OF g]
  have iok: "index_ok ix ?m" by (rule graph_ok_index_ok [OF g])
  obtain etup where et: "live_in (stored ix) (etid ne) etup" "loaded ne etup" "he_value ne = et_data etup"
    "lc \<le> unat (et_level etup)" using ne by (auto simp: known_def)
  obtain tids where t: "HnswLoadNeighborTids ne ix ?m ?lm lc None = Inr (Some tids, None)" "length tids = ?lm"
    "\<forall>t \<in> set tids. ItemPointerIsValid t \<longrightarrow> (\<exists>x. live_in (stored ix) t x)"
    by (rule neighbor_tids_live [OF g et(1,2,4)])
  have lm: "\<not> ?lm > HNSW_MAX_M * 2" using ok(6) by (simp add: HNSW_MAX_M_def HnswGetLayerM_def)
  have r: "r = bindE (load_neighbors tids (HnswInitNeighborArray ?lm) mem) (\<lambda>(neighbors, mem1).
     if length (na_items neighbors) < ?lm then Inr (-2)
     else bindE (LoadElementsForInsert (na_items neighbors) 0 (he_value ne) ix support mem1) (\<lambda>(items, idx, mem2).
       case idx of Some i \<Rightarrow> Inr i
       | None \<Rightarrow> bindE (HnswUpdateConnection mem2 (neighbors\<lparr>na_items := items\<rparr>) p dist ?lm support False)
             (\<lambda>(a, updateIdx). Inr (case updateIdx of None \<Rightarrow> -1 | Some i \<Rightarrow> i))))"
    unfolding r_def GetUpdateIndex_def HnswLoadNeighbors_def if_not_P [OF lm] t(1) by simp
  have "length (na_items (HnswInitNeighborArray ?lm)) + length tids \<le> na_alloc (HnswInitNeighborArray ?lm)"
    by (simp add: HnswInitNeighborArray_def t(2))
  from load_neighbors_ok [OF mem(1) this]
  consider "load_neighbors tids (HnswInitNeighborArray ?lm) mem = Inl out_of_memory"
    | hcs mem1 where "load_neighbors tids (HnswInitNeighborArray ?lm) mem = Inr ((HnswInitNeighborArray ?lm)\<lparr>na_items := hcs\<rparr>, mem1)"
      "mem_ok mem1" "mem_extends mem mem1" "distinct (map hc_element hcs)" "length hcs \<le> length tids"
      "\<forall>hc \<in> set hcs. mem_elems mem (hc_element hc) = None \<and>
          (\<exists>el. mem_elems mem1 (hc_element hc) = Some el \<and> etid el \<in> set tids \<and> ItemPointerIsValid (etid el))"
    by (auto simp: HnswInitNeighborArray_def)
  then show ?thesis
  proof cases
    case 1
    then show ?thesis by (simp add: r)
  next
    case (2 hcs mem1)
    have q: "distances_ok ix (he_value ne) support"
      by (rule num_dist_distances(1) [OF V]) (use et V(2) ok(1) in \<open>auto simp: values_in_def live_at_stored\<close>)
    have live: "\<forall>hc \<in> set hcs. \<exists>el etup. mem_elems mem1 (hc_element hc) = Some el \<and> live_at ix (etid el) etup"
      using 2(6) t(3) live_at_stored [OF ok(1)] by blast
    obtain items idx mem2 where l: "LoadElementsForInsert hcs 0 (he_value ne) ix support mem1 = Inr (items, idx, mem2)"
      "mem_ok mem2" "map hc_element items = map hc_element hcs" "extends_but (hc_element ` set hcs) mem1 mem2"
      "case idx of None \<Rightarrow> \<forall>hc \<in> set items. ready ix mem2 hc | Some k \<Rightarrow> int 0 \<le> k \<and> k < int 0 + int (length hcs)"
      using LoadElementsForInsert_ok [OF iok q 2(4) live 2(2)] by blast
    show ?thesis
    proof (cases "length hcs < ?lm \<or> idx \<noteq> None")
      case True
      then show ?thesis using 2(1) l(1,5) by (auto simp: r)
    next
      case False
      then have len: "length hcs = ?lm" "idx = None" using 2(5) t(2) by auto
      let ?a = "(HnswInitNeighborArray ?lm)\<lparr>na_items := items\<rparr>"
      have pn: "p \<notin> hc_element ` set items"
        using 2(6) mem(2) l(3) by (metis imageE image_set option.distinct(1))
      have "mem_elems mem1 p = Some e" using 2(3) mem(2) by (simp add: mem_extends_def)
      moreover have "p \<notin> hc_element ` set hcs" using pn l(3) by (metis image_set)
      ultimately have "mem_elems mem2 p = Some e" using l(4) by (simp add: extends_but_def)
      then have bv: "bare_value mem2 (p, dist) = Some v" using mem(3) by (simp add: bare_value_def)
      have rd: "\<forall>hc \<in> set items. ready ix mem2 hc" using l(5) len(2) by simp
      note vals = ready_values [OF V iok rd bv mem(4)]
      have il: "length items = ?lm" using l(3) len(1) by (metis length_map)
      have "neighbors_ok mem2 support ?lm ?a"
        using il l(3) 2(4) rd values_ok_mono [OF vals, of "set (map bare items)"]
        by (auto simp: neighbors_ok_def HnswInitNeighborArray_def sortable_def ready_def)
      moreover have "new_neighbor_ok mem2 support ?a (p, dist)" using pn d vals by (simp add: new_neighbor_ok_def)
      moreover have "length (na_items ?a) = ?lm" using il by simp
      ultimately obtain a' k where "HnswUpdateConnection mem2 ?a p dist ?lm support False =
          Inr (a', if k = ?lm then None else Some (int k))" by (rule HnswUpdateConnection_full)
      then show ?thesis using 2(1) l(1) len by (simp add: r)
    qed
  qed
qed

subsection \<open>All neighbors\<close>

lemma foldE_total_or:
  assumes "\<And>x u. x \<in> set xs \<Longrightarrow> P u \<Longrightarrow> f x u = Inl err \<or> (\<exists>v. f x u = Inr v \<and> P v)" "P s"
  shows "foldE f xs s = Inl err \<or> (\<exists>t. foldE f xs s = Inr t \<and> P t)"
  using assms
proof (induction xs arbitrary: s)
  case (Cons x xs)
  from Cons.prems(1) [OF _ Cons.prems(2), of x] have "f x s = Inl err \<or> (\<exists>v. f x s = Inr v \<and> P v)" by simp
  then show ?case
  proof (elim disjE exE conjE)
    fix v
    assume v: "f x s = Inr v" "P v"
    from Cons.IH [OF Cons.prems(1) v(2)] v(1) show ?thesis by simp
  qed simp
qed simp

lemma same_elements_known: "same_elements a b \<Longrightarrow> known b lc ne = known a lc ne"
  unfolding known_def using same_elements_live by blast

lemma values_in_stored:
  assumes "blocks_ok index"
  shows "values_in index = {v. \<exists>t e. live_in (stored index) t e \<and> et_data e = Some v}"
  by (simp add: values_in_def live_at_stored [OF assms])

lemma same_elements_values:
  assumes "same_elements a b" "blocks_ok a" "blocks_ok b"
  shows "values_in b = values_in a"
  using same_elements_live [OF assms(1)] by (simp add: values_in_stored assms(2,3))

lemma update_neighbor_ok:
  fixes chk :: bool
  assumes g: "graph_ok ix" and ne: "mem_elems mem (hc_element hc) = Some ne" "known ix lc ne" "\<not> float4_isnan (hc_distance hc)"
    and V: "num_dist support V" "values_in ix \<subseteq> V"
    and mem: "mem_ok mem" "mem_elems mem p = Some e" "he_value e = Some v" "v \<in> V" "live_in (stored ix) (etid e) x"
  defines "r \<equiv> update_neighbor support p (index_m ix) chk mem lc hc ix"
  shows "r = Inl out_of_memory \<or> (\<exists>ix'. r = Inr ix' \<and> graph_ok ix' \<and> relinks (etid e) ix ix')"
proof -
  let ?lm = "HnswGetLayerM (index_m ix) lc"
  obtain etup where et: "live_in (stored ix) (etid ne) etup" "loaded ne etup" "lc \<le> unat (et_level etup)"
    using ne(2) by (auto simp: known_def)
  from GetUpdateIndex_ok [OF g ne(2) V mem(1-4) ne(3)] show ?thesis
  proof (elim disjE exE conjE)
    fix i
    assume i: "GetUpdateIndex ne p (hc_distance hc) (index_m ix) ?lm lc ix support mem = Inr i" "0 \<le> i"
    with UpdateNeighborOnDisk_ok [OF g et(1,2) mem(5) et(3), of i chk] ne(1) mem(2) show ?thesis
      by (auto simp: r_def update_neighbor_def Let_def)
  next
    fix i
    assume i: "GetUpdateIndex ne p (hc_distance hc) (index_m ix) ?lm lc ix support mem = Inr i" "i = -2"
    with UpdateNeighborOnDisk_ok [OF g et(1,2) mem(5) et(3), of "-2" chk] ne(1) mem(2) show ?thesis
      by (auto simp: r_def update_neighbor_def Let_def)
  qed (use ne(1) g in \<open>simp_all add: r_def update_neighbor_def Let_def\<close>)
qed

lemma HnswUpdateNeighborsOnDisk_ok:
  fixes chk :: bool
  assumes g: "graph_ok ix" and V: "num_dist support V" "values_in ix \<subseteq> V"
    and mem: "mem_ok mem" "mem_elems mem p = Some e" "he_value e = Some v" "v \<in> V" "live_in (stored ix) (etid e) x"
    and ns: "he_neighbors e = Some ns" "length ns = Suc (unat (he_level e))"
      "\<forall>lc < length ns. \<forall>hc \<in> set (na_items (ns ! lc)). \<not> float4_isnan (hc_distance hc) \<and>
         (\<exists>ne. mem_elems mem (hc_element hc) = Some ne \<and> known ix lc ne)"
  defines "r \<equiv> HnswUpdateNeighborsOnDisk ix support p (index_m ix) chk mem"
  shows "r = Inl out_of_memory \<or> (\<exists>ix'. r = Inr ix' \<and> graph_ok ix' \<and> relinks (etid e) ix ix')"
proof -
  let ?P = "\<lambda>ix'. graph_ok ix' \<and> relinks (etid e) ix ix'"
  have step: "update_neighbor support p (index_m ix) chk mem lc hc ix1 = Inl out_of_memory \<or>
      (\<exists>ix'. update_neighbor support p (index_m ix) chk mem lc hc ix1 = Inr ix' \<and> ?P ix')"
    if P: "?P ix1" and lc: "lc < length ns" "hc \<in> set (na_items (ns ! lc))" for ix1 lc hc
  proof -
    have se: "same_elements ix ix1" by (rule relinks_same [OF conjunct2 [OF P]])
    have b: "blocks_ok ix" "blocks_ok ix1" and m: "index_m ix1 = index_m ix"
      using P g same_elements_meta [OF se] by (auto simp: graph_ok_def)
    obtain ne where ne: "mem_elems mem (hc_element hc) = Some ne" "known ix1 lc ne" "\<not> float4_isnan (hc_distance hc)"
      using ns(3) lc same_elements_known [OF se] by blast
    have V1: "values_in ix1 \<subseteq> V" using V(2) same_elements_values [OF se b] by simp
    have x1: "live_in (stored ix1) (etid e) x" using mem(5) same_elements_live [OF se] by simp
    from update_neighbor_ok [OF conjunct1 [OF P] ne V(1) V1 mem(1-4) x1, of chk] relinks_trans [OF conjunct2 [OF P]]
    show ?thesis unfolding m by blast
  qed
  have "r = foldE (\<lambda>lc index1. bindE (HnswGetNeighbors e lc) (\<lambda>neighbors.
       foldE (update_neighbor support p (index_m ix) chk mem lc) (na_items neighbors) index1))
       (rev [0..<length ns]) ix"
    by (simp add: r_def HnswUpdateNeighborsOnDisk_def mem(2) ns(2) del: upt_Suc)
  moreover have "\<dots> = Inl out_of_memory \<or> (\<exists>t. \<dots> = Inr t \<and> ?P t)"
  proof (rule foldE_total_or)
    fix lc ix1
    assume lc: "lc \<in> set (rev [0..<length ns])" and P: "?P ix1"
    then have l: "lc < length ns" by simp
    have "HnswGetNeighbors e lc = Inr (ns ! lc)" using l ns(1) by (simp add: HnswGetNeighbors_def array_get_def)
    moreover have "foldE (update_neighbor support p (index_m ix) chk mem lc) (na_items (ns ! lc)) ix1 = Inl out_of_memory \<or>
        (\<exists>t. foldE (update_neighbor support p (index_m ix) chk mem lc) (na_items (ns ! lc)) ix1 = Inr t \<and> ?P t)"
      by (rule foldE_total_or) (use step l P in auto)
    ultimately show "bindE (HnswGetNeighbors e lc) (\<lambda>neighbors.
          foldE (update_neighbor support p (index_m ix) chk mem lc) (na_items neighbors) ix1) = Inl out_of_memory \<or>
        (\<exists>v. bindE (HnswGetNeighbors e lc) (\<lambda>neighbors.
          foldE (update_neighbor support p (index_m ix) chk mem lc) (na_items neighbors) ix1) = Inr v \<and> ?P v)"
      by simp
  qed (use g in simp)
  ultimately show ?thesis by simp
qed

end
