(* ===== verification/Hnsw_Insert_Refine.thy ===== *)
theory Hnsw_Insert_Refine
  imports Hnsw_Update_Correct
begin

section \<open>Inserts refine the addition of an entry\<close>

text \<open>
  The whole of \<^verbatim>\<open>hnswinsert\<close>: on a well-formed index it ends, keeps the index well-formed, and adds exactly the new heap TID with
  its value to the set of entries, whether it finds room in an element with the same value, reclaims a deleted
  element, or appends to a page.
\<close>

subsection \<open>Entries and changes of the store\<close>

text \<open>The entries of one tuple.\<close>

definition tuple_entries :: "'v HnswElementTupleData \<Rightarrow> (ItemPointerData \<times> 'v) set" where
  "tuple_entries e = set (takeWhile ItemPointerIsValid (et_heaptids e)) \<times> set_option (et_data e)"

lemma entries_alt: "entries index = {x. \<exists>t e. live_in (stored index) t e \<and> x \<in> tuple_entries e}"
  by (auto simp: entries_def tuple_entries_def)

lemma entries_live_cong:
  assumes "\<And>t e. live_in (stored index') t e \<longleftrightarrow> live_in (stored index) t e"
  shows "entries index' = entries index"
  using assms by (simp add: entries_alt)

lemma entries_element:
  assumes "stored index t = Some (ETup e, l)" "et_deleted e = 0" "et_deleted e' = 0"
    "stored index' = (stored index)(t \<mapsto> (ETup e', l))" "tuple_entries e \<subseteq> tuple_entries e'"
  shows "entries index' = tuple_entries e' \<union> entries index"
proof (intro set_eqI iffI)
  fix x
  assume "x \<in> entries index'"
  then obtain t' e1 where "live_in (stored index') t' e1" "x \<in> tuple_entries e1" by (auto simp: entries_alt)
  then show "x \<in> tuple_entries e' \<union> entries index"
    using assms(4) by (cases "t' = t") (auto simp: entries_alt live_in_def)
next
  fix x
  assume "x \<in> tuple_entries e' \<union> entries index"
  then consider "x \<in> tuple_entries e'" | t' e1 where "live_in (stored index) t' e1" "x \<in> tuple_entries e1" "t' \<noteq> t"
    using assms(1,5) by (fastforce simp: entries_alt live_in_def)
  then show "x \<in> entries index'"
  proof cases
    case 1
    have "live_in (stored index') t e'" using assms(3,4) by (simp add: live_in_def)
    with 1 show ?thesis by (auto simp: entries_alt)
  next
    case 2
    then have "live_in (stored index') t' e1" using assms(4) by (simp add: live_in_def)
    with 2 show ?thesis by (auto simp: entries_alt)
  qed
qed

lemma entries_added:
  assumes ok: "store_ok m (stored index)" and free: "free_places (stored index) t nt" and d: "et_deleted e = 0"
    and st: "stored index' = (stored index)(t \<mapsto> (ETup e, es), nt \<mapsto> (NTup n, ns))"
  shows "entries index' = tuple_entries e \<union> entries index"
proof -
  have ne: "t \<noteq> nt" using free by (simp add: free_places_def)
  have old: "t' \<noteq> t \<and> t' \<noteq> nt" if "live_in (stored index) t' x" for t' x
    using that free store_ok_conn [OF ok, of t] unfolding live_in_def free_places_def by fastforce
  have "live_in (stored index') t' x \<longleftrightarrow> t' = t \<and> x = e \<or> live_in (stored index) t' x" for t' x
    using old [of t' x] ne d by (auto simp: st live_in_def)
  then show ?thesis by (auto simp: entries_alt)
qed

text \<open>The heap TIDs at an index TID.\<close>

definition heaps_at :: "'v store \<Rightarrow> ItemPointerData \<Rightarrow> ItemPointerData list" where
  "heaps_at \<sigma> t =
     (case \<sigma> t of
        Some (ETup e, len) \<Rightarrow> if et_deleted e = 0 then takeWhile ItemPointerIsValid (et_heaptids e) else []
      | _ \<Rightarrow> [])"

lemma heaps_at_live: "live_in \<sigma> t e \<Longrightarrow> heaps_at \<sigma> t = takeWhile ItemPointerIsValid (et_heaptids e)"
  by (auto simp: heaps_at_def live_in_def)

lemma heaps_at_dead: "(\<And>e. \<not> live_in \<sigma> t e) \<Longrightarrow> heaps_at \<sigma> t = []"
  by (auto simp: heaps_at_def live_in_def split: option.splits hnsw_item.splits)

lemma heaps_at_cong: "(\<And>e. live_in \<sigma>' t e \<longleftrightarrow> live_in \<sigma> t e) \<Longrightarrow> heaps_at \<sigma>' t = heaps_at \<sigma> t"
  using heaps_at_live heaps_at_dead by metis

lemma live_heaptids_stored:
  assumes "blocks_ok index"
  shows "live_heaptids index t = heaps_at (stored index) t"
proof (cases "\<exists>e. live_at index t e")
  case True
  then obtain e where e: "live_at index t e" ..
  then have "live_in (stored index) t e" using live_at_stored [OF assms, of t e] by simp
  with e show ?thesis by (simp add: heaps_at_live live_heaptids_def live_at_def)
next
  case False
  then have "\<not> live_in (stored index) t e" for e using live_at_stored [OF assms, of t e] by simp
  from heaps_at_dead [OF this] False show ?thesis by (auto simp: live_heaptids_def live_at_def split: option.splits)
qed

lemma added_heaps:
  assumes ok: "store_ok m (stored index)" and free: "free_places (stored index) t nt" and d: "et_deleted e = 0"
    and st: "stored index' = (stored index)(t \<mapsto> (ETup e, es), nt \<mapsto> (NTup n, ns))"
  shows "heaps_at (stored index') =
    (heaps_at (stored index))(t := heaps_at (stored index) t @ takeWhile ItemPointerIsValid (et_heaptids e))"
proof (rule ext)
  fix t'
  have ne: "t \<noteq> nt" and t: "heaps_at (stored index) t = []" using free by (auto simp: free_places_def heaps_at_def)
  have "heaps_at (stored index) nt = []"
    using free store_ok_conn [OF ok, of t] by (fastforce simp: free_places_def heaps_at_def)
  then show "heaps_at (stored index') t' =
      ((heaps_at (stored index))(t := heaps_at (stored index) t @ takeWhile ItemPointerIsValid (et_heaptids e))) t'"
    using ne t d by (auto simp: heaps_at_def st)
qed

lemma takeWhile_next:
  assumes "\<forall>x \<in> set (dropWhile P xs). \<not> P x" "P y" "length (takeWhile P xs) < length xs"
  defines "ys \<equiv> xs[length (takeWhile P xs) := y]"
  shows "takeWhile P ys = takeWhile P xs @ [y]" "\<forall>x \<in> set (dropWhile P ys). \<not> P x"
proof -
  obtain z zs where z: "dropWhile P xs = z # zs"
    using assms(3) by (metis append_Nil2 less_irrefl list.exhaust takeWhile_dropWhile_id)
  have "xs = takeWhile P xs @ z # zs" using z by (metis takeWhile_dropWhile_id)
  then have ys: "ys = takeWhile P xs @ y # zs" unfolding ys_def by (metis list_update_length)
  have zs: "\<forall>x \<in> set zs. \<not> P x" using assms(1) z by simp
  have t: "takeWhile P (as @ y # zs) = as @ [y]" "dropWhile P (as @ y # zs) = zs" if "\<forall>x \<in> set as. P x" for as
  proof -
    have "takeWhile P zs = []" "dropWhile P zs = zs" using zs by (cases zs; simp)+
    then show "takeWhile P (as @ y # zs) = as @ [y]" "dropWhile P (as @ y # zs) = zs"
      using that assms(2) by (simp_all add: dropWhile_append2)
  qed
  have "\<forall>x \<in> set (takeWhile P xs). P x" by (auto dest: set_takeWhileD)
  from t [OF this] zs show "takeWhile P ys = takeWhile P xs @ [y]" "\<forall>x \<in> set (dropWhile P ys). \<not> P x"
    unfolding ys by simp_all
qed

text \<open>The metapage stays valid when live elements stay live with their levels.\<close>

lemma meta_ok_live:
  assumes "meta_ok index" "rd_meta index' = rd_meta index" "length (rd_blocks index) \<le> length (rd_blocks index')"
    and "\<And>t e. live_in (stored index) t e \<Longrightarrow> \<exists>e'. live_in (stored index') t e' \<and> et_level e' = et_level e"
  shows "meta_ok index'"
proof -
  have b: "is_block index b \<Longrightarrow> is_block index' b" for b using assms(3) by (simp add: is_block_def)
  show ?thesis
  proof (cases "BlockNumberIsValid (mp_entryBlkno (rd_meta index))")
    case True
    with assms(1) obtain e where
      "live_in (stored index) (ItemPointerSet (mp_entryBlkno (rd_meta index)) (mp_entryOffno (rd_meta index))) e"
      "mp_entryLevel (rd_meta index) = uint (et_level e)" by (auto simp: meta_ok_def Let_def)
    with assms(4) obtain e' where
      "live_in (stored index') (ItemPointerSet (mp_entryBlkno (rd_meta index)) (mp_entryOffno (rd_meta index))) e'"
      "mp_entryLevel (rd_meta index) = uint (et_level e')" by metis
    with True assms(1,2) b show ?thesis by (auto simp: meta_ok_def Let_def)
  next
    case False
    with assms(1,2) b show ?thesis by (simp add: meta_ok_def Let_def)
  qed
qed

subsection \<open>Duplicates\<close>

text \<open>What a finished insert of \<open>h\<close> with value \<open>v\<close> leaves: one more entry, the last one of some element.\<close>

definition inserts :: "'v relation \<Rightarrow> ItemPointerData \<Rightarrow> 'v \<Rightarrow> 'v relation \<Rightarrow> bool" where
  "inserts index h v index' \<longleftrightarrow>
     graph_ok index' \<and> entries index' = insert (h, v) (entries index) \<and>
     (\<exists>t. heaps_at (stored index') = (heaps_at (stored index))(t := heaps_at (stored index) t @ [h]))"

lemma inserts_later:
  assumes "inserts index h v index'" "graph_ok index''" "\<And>t e. live_in (stored index'') t e \<longleftrightarrow> live_in (stored index') t e"
  shows "inserts index h v index''"
proof -
  have "heaps_at (stored index'') = heaps_at (stored index')" by (rule ext) (rule heaps_at_cong [OF assms(3)])
  then show ?thesis using assms(1,2) entries_live_cong [OF assms(3)] by (simp add: inserts_def)
qed

lemma element_ok_heaptids:
  assumes "element_ok m x" "et_deleted x \<noteq> 0 \<Longrightarrow> takeWhile ItemPointerIsValid hs = []" "length hs = HNSW_HEAPTIDS" "\<forall>t \<in> set (dropWhile ItemPointerIsValid hs). \<not> ItemPointerIsValid t"
  shows "element_ok m (x\<lparr>et_heaptids := hs\<rparr>)"
  using assms unfolding element_ok_def by (cases x) (simp only: HnswElementTupleData.simps, blast)

lemma AddDuplicateOnDisk_ok:
  assumes g: "graph_ok ix" and dup: "live_in (stored ix) (etid dup) x" "et_data x = Some v"
    and h: "he_heaptids e = [h]" "ItemPointerIsValid h"
  shows "AddDuplicateOnDisk ix e dup = Inr (False, ix) \<or>
    (\<exists>ix'. AddDuplicateOnDisk ix e dup = Inr (True, ix') \<and> inserts ix h v ix')"
proof -
  let ?b = "he_blkno dup" and ?off = "he_offno dup"
  note ok = graph_okD [OF g]
  obtain l where st: "stored ix (ItemPointerSet ?b ?off) = Some (ETup x, l)" "et_deleted x = 0"
    using dup(1) by (auto simp: live_in_def etid_def)
  have el: "element_ok (index_m ix) x" by (rule store_ok_elem [OF ok(3) st(1)])
  then have len: "length (et_heaptids x) = HNSW_HEAPTIDS"
    and pad: "\<forall>t \<in> set (dropWhile ItemPointerIsValid (et_heaptids x)). \<not> ItemPointerIsValid t"
    by (simp_all add: element_ok_def)
  have blk: "is_block ix ?b" using stored_block(1) [OF st(1)] by simp
  have read: "PageGetTuple (page_of ix ?b) ?off = Inr (ETup x)"
    by (rule stored_item [OF ok(1) st(1)])
  let ?i = "length (takeWhile ItemPointerIsValid (et_heaptids x))"
  have run: "AddDuplicateOnDisk ix e dup =
     (if ?i = 0 \<or> ?i = HNSW_HEAPTIDS then Inr (False, ix)
      else bindE (array_set ''heaptids'' (et_heaptids x) ?i h) (\<lambda>heaptids.
           bindE (PageSetTuple (page_of ix ?b) ?off (ETup (x\<lparr>et_heaptids := heaptids\<rparr>))) (\<lambda>page'.
           Inr (True, WriteBuffer ix ?b page'))))"
    using h(1) len by (simp add: AddDuplicateOnDisk_def ReadBuffer_block [OF blk] read Let_def array_get_def)
  show ?thesis
  proof (cases "?i = 0 \<or> ?i = HNSW_HEAPTIDS")
    case True
    then show ?thesis unfolding run by simp
  next
    case False
    have lt: "?i < length (et_heaptids x)" using False len length_takeWhile_le [of ItemPointerIsValid "et_heaptids x"] by linarith
    define hs where "hs = (et_heaptids x)[?i := h]"
    let ?x = "x\<lparr>et_heaptids := hs\<rparr>"
    note tw = takeWhile_next [OF pad h(2) lt, folded hs_def]
    have hl: "length hs = HNSW_HEAPTIDS" using len by (simp add: hs_def)
    obtain page where pg: "PageSetTuple (page_of ix ?b) ?off (ETup ?x) = Inr page" "keeps_pages ix (WriteBuffer ix ?b page)"
      "stored (WriteBuffer ix ?b page) = (stored ix)(ItemPointerSet ?b ?off \<mapsto> (ETup ?x, l))"
      by (rule set_tuple_ok [OF ok(1) st(1)])
    let ?ix = "WriteBuffer ix ?b page"
    have new: "element_ok (index_m ix) ?x" by (rule element_ok_heaptids [OF el _ hl tw(2)]) (simp add: st(2))
    have "store_ok (index_m ix) (stored ?ix)"
      unfolding pg(3) by (rule store_ok_element [OF ok(3) st(1) new]) simp_all
    moreover have "meta_ok ?ix"
    proof (rule meta_ok_live [OF ok(4)])
      fix t a
      assume "live_in (stored ix) t a"
      with st show "\<exists>e'. live_in (stored ?ix) t e' \<and> et_level e' = et_level a"
        unfolding pg(3) live_in_def by (cases "t = ItemPointerSet ?b ?off") auto
    qed simp_all
    ultimately have "graph_ok ?ix" using pg(2) ok(2) by (simp add: graph_ok_def keeps_pages_def)
    moreover have "entries ?ix = insert (h, v) (entries ix)"
    proof -
      have te: "tuple_entries ?x = insert (h, v) (tuple_entries x)" using tw(1) dup(2) by (auto simp: tuple_entries_def)
      have "tuple_entries x \<subseteq> entries ix" using dup(1) by (auto simp: entries_alt)
      then show ?thesis using entries_element [OF st _ pg(3)] st(2) te by auto
    qed
    moreover have "heaps_at (stored ?ix) = (heaps_at (stored ix))(etid dup := heaps_at (stored ix) (etid dup) @ [h])"
      using st tw(1) by (auto simp: fun_eq_iff heaps_at_def pg(3) etid_def)
    moreover have "AddDuplicateOnDisk ix e dup = Inr (True, ?ix)"
      unfolding run if_not_P [OF False] using lt pg(1) by (simp add: array_set_def hs_def)
    ultimately show ?thesis unfolding inserts_def by blast
  qed
qed

lemma find_duplicate_ok:
  assumes g: "graph_ok ix" and h: "he_heaptids e = [h]" "ItemPointerIsValid h"
    and hcs: "\<forall>hc \<in> set hcs. link_ok ix q support lc mem hc"
  shows "find_duplicate ix e v mem hcs = Inr (False, ix) \<or>
    (\<exists>ix'. find_duplicate ix e v mem hcs = Inr (True, ix') \<and> inserts ix h v ix')"
  using hcs
proof (induction hcs)
  case (Cons hc hcs)
  note ok = graph_okD [OF g]
  from Cons.prems obtain ne etup where ne: "mem_elems mem (hc_element hc) = Some ne" "live_at ix (etid ne) etup"
    "he_value ne = et_data etup" by (auto simp: link_ok_def)
  have live: "live_in (stored ix) (etid ne) etup" using ne(2) live_at_stored [OF ok(1)] by blast
  obtain w where w: "et_data etup = Some w" using graph_ok_index_ok [OF g] ne(2) by (auto simp: index_ok_def)
  have IH: "find_duplicate ix e v mem hcs = Inr (False, ix) \<or>
      (\<exists>ix'. find_duplicate ix e v mem hcs = Inr (True, ix') \<and> inserts ix h v ix')"
    using Cons by simp
  show ?case
  proof (cases "v = w")
    case False
    then show ?thesis using ne(1,3) w by simp
  next
    case True
    from AddDuplicateOnDisk_ok [OF g live w h] IH ne(1,3) w True show ?thesis by auto
  qed
qed simp

subsection \<open>The metapage\<close>

lemma meta_update_simps [simp]:
  "stored (index\<lparr>rd_meta := x\<rparr>) = stored index" "blocks_ok (index\<lparr>rd_meta := x\<rparr>) = blocks_ok index"
  "chain_ok (index\<lparr>rd_meta := x\<rparr>) = chain_ok index" "is_block (index\<lparr>rd_meta := x\<rparr>) b = is_block index b"
  "entries (index\<lparr>rd_meta := x\<rparr>) = entries index"
proof -
  show st: "stored (index\<lparr>rd_meta := x\<rparr>) = stored index" by (rule ext) (simp add: stored_def Let_def)
  show "chain_ok (index\<lparr>rd_meta := x\<rparr>) = chain_ok index" by (simp add: chain_ok_def page_next_def)
  show "entries (index\<lparr>rd_meta := x\<rparr>) = entries index" by (simp add: entries_def st)
qed (simp_all add: blocks_ok_def is_block_def)

lemma update_insert_page:
  fixes ix :: "'v relation"
  assumes "graph_ok ix" "is_block ix b"
  obtains meta where "HnswUpdateMetaPage ix mem 0 None b = Inr (ix\<lparr>rd_meta := meta\<rparr>)" "graph_ok (ix\<lparr>rd_meta := meta\<rparr>)"
    "mp_m meta = mp_m (rd_meta ix)"
proof -
  let ?meta = "HnswUpdateMetaPageInfo (rd_meta ix) 0 (None :: 'v HnswElementData option) b"
  have "HnswUpdateMetaPage ix mem 0 None b = Inr (ix\<lparr>rd_meta := ?meta\<rparr>)" by (simp add: HnswUpdateMetaPage_def HnswUpdateMetaPageInfo_def)
  moreover have "graph_ok (ix\<lparr>rd_meta := ?meta\<rparr>)"
    using assms by (simp add: graph_ok_def meta_ok_def HnswUpdateMetaPageInfo_def Let_def)
  ultimately show thesis by (rule that) (simp add: HnswUpdateMetaPageInfo_def Let_def)
qed

lemma block_valid: "blocks_ok ix \<Longrightarrow> is_block ix b \<Longrightarrow> BlockNumberIsValid b"
  by (auto simp: blocks_ok_def is_block_def BlockNumberIsValid_def InvalidBlockNumber_def)

lemma update_entry_point:
  assumes g: "graph_ok ix" and e: "mem_elems mem p = Some e" "live_in (stored ix) (etid e) x" "et_level x = he_level e"
  obtains meta where "HnswUpdateMetaPage ix mem HNSW_UPDATE_ENTRY_GREATER (Some p) InvalidBlockNumber = Inr (ix\<lparr>rd_meta := meta\<rparr>)"
    "graph_ok (ix\<lparr>rd_meta := meta\<rparr>)"
proof -
  let ?meta = "HnswUpdateMetaPageInfo (rd_meta ix) HNSW_UPDATE_ENTRY_GREATER (Some e) InvalidBlockNumber"
  note ok = graph_okD [OF g]
  obtain l where "stored ix (etid e) = Some (ETup x, l)" using e(2) by (auto simp: live_in_def)
  then have v: "BlockNumberIsValid (he_blkno e)"
    using stored_block(1) block_valid [OF ok(1)] by (fastforce simp: etid_def)
  have "meta_ok (ix\<lparr>rd_meta := ?meta\<rparr>)"
    using ok(4) v e(2,3) by (auto simp: meta_ok_def HnswUpdateMetaPageInfo_def Let_def etid_def BlockNumberIsValid_def [of InvalidBlockNumber])
  moreover have "mp_m ?meta = mp_m (rd_meta ix)" by (simp add: HnswUpdateMetaPageInfo_def Let_def)
  ultimately have "graph_ok (ix\<lparr>rd_meta := ?meta\<rparr>)" using ok(1-3) by (simp add: graph_ok_def)
  moreover have "HnswUpdateMetaPage ix mem HNSW_UPDATE_ENTRY_GREATER (Some p) InvalidBlockNumber = Inr (ix\<lparr>rd_meta := ?meta\<rparr>)"
    using e(1) by (simp add: HnswUpdateMetaPage_def)
  ultimately show thesis using that by blast
qed

subsection \<open>Storing the connections\<close>

lemma set_neighbor_tuple_ok:
  assumes ns: "he_neighbors e = Some ns" "length ns = Suc (unat (he_level e))"
    and links: "\<forall>lc < length ns. links_ok ix q support m lc mem (ns ! lc)" and b: "blocks_ok ix"
  obtains ntup where "HnswSetNeighborTuple mem ntup_zero e m = Inr ntup"
    "\<forall>t \<in> set (nt_indextids ntup). ItemPointerIsValid t \<longrightarrow> (\<exists>x. live_in (stored ix) t x)"
proof -
  define slot where "slot lc i = (if i < length (na_items (ns ! lc))
    then etid (the (mem_elems mem (hc_element (na_items (ns ! lc) ! i)))) else ItemPointerSetInvalid)" for lc i
  define layer where "layer lc = map (slot lc) [0..<HnswGetLayerM m lc]" for lc
  have link: "link_ok ix q support lc mem (na_items (ns ! lc) ! i)" if "lc < length ns" "i < length (na_items (ns ! lc))" for lc i
    using links that by (simp add: links_ok_def)
  have "neighbor_slot mem (ns ! lc) i = Inr (slot lc i)" if "lc < length ns" for lc i
    using link [OF that, of i] by (auto simp: neighbor_slot_def slot_def etid_def link_ok_def)
  then have lay: "neighbor_layer mem e m lc = Inr (layer lc)" if "lc < length ns" for lc
    using that ns(1) mapE_total [of "[0..<HnswGetLayerM m lc]" "neighbor_slot mem (ns ! lc)" "slot lc"]
    by (simp add: neighbor_layer_def HnswGetNeighbors_def array_get_def layer_def)
  let ?ls = "map layer (rev [0..<Suc (unat (he_level e))])"
  have "mapE (neighbor_layer mem e m) (rev [0..<Suc (unat (he_level e))]) = Inr ?ls"
    by (rule mapE_total) (use lay ns(2) in auto)
  then have "HnswSetNeighborTuple mem ntup_zero e m = Inr (ntup_zero\<lparr>nt_type := HNSW_NEIGHBOR_TUPLE_TYPE,
      nt_indextids := concat ?ls, nt_count := word_of_nat (length (concat ?ls)), nt_version := he_version e\<rparr>)"
    by (simp add: HnswSetNeighborTuple_def del: upt_Suc)
  moreover have "\<exists>x. live_in (stored ix) t x" if t: "t \<in> set (concat ?ls)" "ItemPointerIsValid t" for t
  proof -
    from t(1) obtain lc i where lc: "lc < length ns" "t = slot lc i" using ns(2) by (auto simp: layer_def simp del: upt_Suc)
    with t(2) have "i < length (na_items (ns ! lc))" by (auto simp: slot_def split: if_splits)
    with link [OF lc(1) this] lc(2) show ?thesis using live_at_stored [OF b] by (auto simp: slot_def link_ok_def)
  qed
  ultimately show thesis using that by simp
qed

lemma link_known:
  assumes "link_ok ix q support lc mem hc" "blocks_ok ix" "num_dist support V" "values_in ix \<subseteq> V" "q = Some v" "v \<in> V"
    and ok: "index_ok ix m"
  shows "\<not> float4_isnan (hc_distance hc)" "\<exists>ne. mem_elems mem (hc_element hc) = Some ne \<and> known ix lc ne"
proof -
  obtain ne etup where ne: "mem_elems mem (hc_element hc) = Some ne" "live_at ix (etid ne) etup" "loaded ne etup"
    "he_value ne = et_data etup" "lc \<le> unat (et_level etup)"
    "hc_distance hc = float8_to_float4 (tuple_distance q support etup)"
    using assms(1) by (auto simp: link_ok_def)
  have d: "distances_ok ix q support" by (rule num_dist_distances(1) [OF assms(3,4)]) (use assms(5,6) in simp)
  have "et_data etup \<noteq> None" using ok ne(2) by (auto simp: index_ok_def)
  from element_distance_live(2) [OF d ne(2) this] ne(6) show "\<not> float4_isnan (hc_distance hc)" by simp
  show "\<exists>ne. mem_elems mem (hc_element hc) = Some ne \<and> known ix lc ne"
    using ne live_at_stored [OF assms(2)] unfolding known_def by blast
qed

text \<open>The element as \<^verbatim>\<open>HnswFindElementNeighbors\<close> leaves it, ready to be stored.\<close>

definition connected ::
  "'v relation \<Rightarrow> 'v HnswSupport \<Rightarrow> 'v memory \<Rightarrow> eptr \<Rightarrow> ItemPointerData \<Rightarrow> 'v \<Rightarrow> 'v HnswElementData \<Rightarrow> bool" where
  "connected ix support mem p h v e \<longleftrightarrow>
     mem_elems mem p = Some e \<and> he_value e = Some v \<and> he_heaptids e = [h] \<and> ItemPointerIsValid h \<and>
     he_version e = 1 \<and> unat (he_level e) \<le> HnswGetMaxLevel (index_m ix) \<and> apart ix e \<and>
     (\<exists>ns. he_neighbors e = Some ns \<and> length ns = Suc (unat (he_level e)) \<and>
        (\<forall>lc < length ns. links_ok ix (Some v) support (index_m ix) lc mem (ns ! lc)))"

text \<open>The failures an insert may have: memory is exhausted, or the relation has its maximal size.\<close>

definition resource_error :: "pg_error \<Rightarrow> bool" where
  "resource_error err \<longleftrightarrow> err = out_of_memory \<or> err = cannot_extend"

lemma add_connected:
  assumes g: "graph_ok ix" and c: "connected ix support mem p h v e" and f: "fits_page ix v"
  shows "AddElementOnDisk ix mem p (index_m ix) (GetInsertPage ix) = Some (Inl cannot_extend) \<or>
    (\<exists>ix' e' x nip. AddElementOnDisk ix mem p (index_m ix) (GetInsertPage ix) = Some (Inr (ix', element_store mem p e', nip)) \<and>
       inserts ix h v ix' \<and> rd_meta ix' = rd_meta ix \<and> (\<forall>b. nip = Some b \<longrightarrow> is_block ix' b) \<and>
       live_in (stored ix') (etid e') x \<and> et_level x = he_level e' \<and> he_level e' = he_level e \<and>
       he_value e' = Some v \<and> he_neighbors e' = he_neighbors e \<and> values_in ix' \<subseteq> insert v (values_in ix) \<and>
       (\<forall>t y. live_in (stored ix) t y \<longrightarrow> live_in (stored ix') t y))"
proof -
  let ?m = "index_m ix" and ?ns = "HNSW_NEIGHBOR_TUPLE_SIZE (unat (he_level e)) (index_m ix)"
  note ok = graph_okD [OF g]
  have e: "mem_elems mem p = Some e" "he_value e = Some v" "he_heaptids e = [h]" "ItemPointerIsValid h" "he_version e = 1"
    "unat (he_level e) \<le> HnswGetMaxLevel ?m" using c by (simp_all add: connected_def)
  obtain ns where ns: "he_neighbors e = Some ns" "length ns = Suc (unat (he_level e))"
    "\<forall>lc < length ns. links_ok ix (Some v) support ?m lc mem (ns ! lc)" using c unfolding connected_def by blast
  obtain ntup where n: "HnswSetNeighborTuple mem ntup_zero e ?m = Inr ntup"
    "\<forall>t \<in> set (nt_indextids ntup). ItemPointerIsValid t \<longrightarrow> (\<exists>x. live_in (stored ix) t x)"
    by (rule set_neighbor_tuple_ok [OF ns ok(1)])
  let ?r = "AddElementOnDisk ix mem p ?m (GetInsertPage ix)"
  let ?es = "HNSW_ELEMENT_TUPLE_SIZE (rd_varsize ix v)"
  consider "?r = Some (Inl cannot_extend)" | ix' e' etup x ntup' nip where
    "?r = Some (Inr (ix', element_store mem p e', nip))" "HnswSetElementTuple etup_zero e = Inr etup"
    "stores ix e etup ntup ?es ?ns ix' e' x ntup'" "\<forall>b. nip = Some b \<longrightarrow> is_block ix' b"
    using AddElementOnDisk_ok [OF g e(1,2,5,6) f n(1)] by blast
  then show ?thesis
  proof cases
    case 1
    then show ?thesis by simp
  next
    case (2 ix' e' etup x ntup' nip)
    have hv: "\<forall>t \<in> set (he_heaptids e). ItemPointerIsValid t" using e(3,4) by simp
    note s = stored_graph_ok [OF g 2(3) 2(2) e(6) hv n]
    have s': "same_relation ix ix'" "free_places (stored ix) (etid e') (et_neighbortid x)"
      "stored ix' = (stored ix)(etid e' \<mapsto> (ETup x, ?es), et_neighbortid x \<mapsto> (NTup ntup', ?ns))"
      using 2(3) unfolding stores_def by blast+
    have x: "x = etup\<lparr>et_version := et_version x, et_neighbortid := et_neighbortid x\<rparr>"
      and e': "e' = e\<lparr>he_blkno := he_blkno e', he_offno := he_offno e', he_neighborPage := he_neighborPage e',
            he_neighborOffno := he_neighborOffno e'\<rparr>" using 2(3) unfolding stores_def by blast+
    note el = element_tuple_fields [OF 2(2)]
    have xf: "et_level x = he_level e" "et_deleted x = 0" "et_data x = Some v" "et_heaptids x = et_heaptids etup"
      using el e(2) by (subst x, simp)+
    have ef: "he_level e' = he_level e" "he_value e' = Some v" "he_neighbors e' = he_neighbors e"
      using e(2) by (subst e', simp)+
    have tw: "takeWhile ItemPointerIsValid (et_heaptids x) = [h]"
      using el(9) e(3,4) xf(4) by (simp add: HNSW_HEAPTIDS_def)
    then have te: "tuple_entries x = {(h, v)}" using xf(3) by (simp add: tuple_entries_def)
    have "entries ix' = insert (h, v) (entries ix)" using entries_added [OF ok(3) s'(2) xf(2) s'(3)] te by simp
    moreover have "values_in ix' \<subseteq> insert v (values_in ix)"
    proof -
      have "live_in (stored ix) t y \<or> y = x" if "live_in (stored ix') t y" for t y
        using that by (auto simp: s'(3) live_in_def split: if_splits)
      then show ?thesis using xf(3) unfolding values_in_stored [OF graph_okD(1) [OF s(1)]] values_in_stored [OF ok(1)]
        by fastforce
    qed
    moreover have "heaps_at (stored ix') = (heaps_at (stored ix))(etid e' := heaps_at (stored ix) (etid e') @ [h])"
      using added_heaps [OF ok(3) s'(2) xf(2) s'(3)] tw by simp
    ultimately show ?thesis
      using 2(1,4) s xf ef same_relation_fields(5) [OF s'(1)] unfolding inserts_def by (intro disjI2) metis
  qed
qed

text \<open>The links of the element are still known after it is stored.\<close>

lemma known_after:
  assumes g: "graph_ok ix" and c: "connected ix support mem p h v e" and V: "num_dist support V" "values_in ix \<subseteq> V" "v \<in> V"
    and live: "\<And>t y. live_in (stored ix) t y \<Longrightarrow> live_in (stored ix') t y" and ns: "he_neighbors e = Some ns" "lc < length ns"
    and hc: "hc \<in> set (na_items (ns ! lc))"
  shows "\<not> float4_isnan (hc_distance hc)" "\<exists>ne. mem_elems (element_store mem p e') (hc_element hc) = Some ne \<and> known ix' lc ne"
proof -
  have l: "link_ok ix (Some v) support lc mem hc" and p: "mem_elems mem p = Some e" "apart ix e"
    using c ns hc by (auto simp: connected_def links_ok_def)
  note k = link_known [OF l graph_okD(1) [OF g] V(1,2) refl V(3) graph_ok_index_ok [OF g]]
  show "\<not> float4_isnan (hc_distance hc)" by (rule k(1))
  have "hc_element hc \<noteq> p" by (rule apart_link [OF p l])
  then show "\<exists>ne. mem_elems (element_store mem p e') (hc_element hc) = Some ne \<and> known ix' lc ne"
    using k(2) live unfolding known_def element_store_def by fastforce
qed

lemma above_entry_ok:
  assumes "mem_elems mem p = Some e" "\<And>ep. entry = Some ep \<Longrightarrow> mem_elems mem ep \<noteq> None"
  shows "\<exists>b. above_entry mem p entry = Inr b"
  using assms by (cases entry) (fastforce simp: above_entry_def)+

lemma UpdateGraphOnDisk_ok:
  assumes g: "graph_ok ix" and c: "connected ix support mem p h v e" and f: "fits_page ix v" and mem: "mem_ok mem"
    and V: "num_dist support (insert v (values_in ix))"
    and entry: "\<And>ep. entry = Some ep \<Longrightarrow> mem_elems mem ep \<noteq> None"
  defines "r \<equiv> UpdateGraphOnDisk ix support p (index_m ix) entry mem"
  shows "(\<exists>err. r = Some (Inl err) \<and> resource_error err) \<or> (\<exists>ix'. r = Some (Inr ix') \<and> inserts ix h v ix')"
proof -
  let ?V = "insert v (values_in ix)"
  have e: "mem_elems mem p = Some e" "he_value e = Some v" "he_heaptids e = [h]" "ItemPointerIsValid h"
    using c by (simp_all add: connected_def)
  obtain ns where ns: "he_neighbors e = Some ns" "length ns = Suc (unat (he_level e))"
    "\<forall>lc < length ns. links_ok ix (Some v) support (index_m ix) lc mem (ns ! lc)" using c unfolding connected_def by blast
  have ne: "ns \<noteq> []" using ns(2) by auto
  have "\<forall>hc \<in> set (na_items (ns ! 0)). link_ok ix (Some v) support 0 mem hc" using ns(2,3) by (simp add: links_ok_def)
  from find_duplicate_ok [OF g e(3,4) this, of v]
  have dup: "FindDuplicateOnDisk ix p mem = Inr (False, ix) \<or>
      (\<exists>ix'. FindDuplicateOnDisk ix p mem = Inr (True, ix') \<and> inserts ix h v ix')"
    using e(1,2) ns(1) ne by (simp add: FindDuplicateOnDisk_def HnswGetNeighbors_def array_get_def)
  show ?thesis
  proof (cases "FindDuplicateOnDisk ix p mem = Inr (False, ix)")
    case False
    with dup show ?thesis by (auto simp: r_def UpdateGraphOnDisk_def)
  next
    case True
    from add_connected [OF g c f] show ?thesis
    proof (elim disjE exE conjE)
      assume "AddElementOnDisk ix mem p (index_m ix) (GetInsertPage ix) = Some (Inl cannot_extend)"
      then show ?thesis using True by (simp add: r_def UpdateGraphOnDisk_def resource_error_def)
    next
      fix ix2 e' x nip
      assume a: "AddElementOnDisk ix mem p (index_m ix) (GetInsertPage ix) = Some (Inr (ix2, element_store mem p e', nip))"
        "inserts ix h v ix2" "rd_meta ix2 = rd_meta ix" "\<forall>b. nip = Some b \<longrightarrow> is_block ix2 b"
        "live_in (stored ix2) (etid e') x" "et_level x = he_level e'" "he_level e' = he_level e" "he_value e' = Some v"
        "he_neighbors e' = he_neighbors e" "values_in ix2 \<subseteq> ?V" "\<forall>t y. live_in (stored ix) t y \<longrightarrow> live_in (stored ix2) t y"
      let ?mem = "element_store mem p e'"
      have g2: "graph_ok ix2" using a(2) by (simp add: inserts_def)
      obtain meta where m: "(case nip of None \<Rightarrow> Inr ix2 | Some b \<Rightarrow> HnswUpdateMetaPage ix2 ?mem 0 None b) = Inr (ix2\<lparr>rd_meta := meta\<rparr>)"
        "graph_ok (ix2\<lparr>rd_meta := meta\<rparr>)" "mp_m meta = mp_m (rd_meta ix)"
      proof (cases nip)
        case None
        have "ix2\<lparr>rd_meta := rd_meta ix2\<rparr> = ix2" by simp
        with None g2 a(3) show thesis by (intro that [of "rd_meta ix2"]) (simp_all only: option.case)
      next
        case (Some b)
        with a(4) have "is_block ix2 b" by simp
        from update_insert_page [OF g2 this, of ?mem] Some that a(3) show thesis by (metis option.case(2))
      qed
      let ?ix3 = "ix2\<lparr>rd_meta := meta\<rparr>"
      have "\<forall>lc < length ns. \<forall>hc \<in> set (na_items (ns ! lc)). \<not> float4_isnan (hc_distance hc) \<and>
          (\<exists>ne. mem_elems ?mem (hc_element hc) = Some ne \<and> known ?ix3 lc ne)"
        using known_after [OF g c V subset_insertI insertI1 _ ns(1), of ?ix3] a(11) unfolding meta_update_simps(1) by blast
      moreover have "mem_ok ?mem" using element_store_ok [OF mem] e(1) by simp
      moreover have "values_in ?ix3 \<subseteq> ?V" using a(10) m(2) g2 by (simp add: values_in_stored graph_ok_def)
      ultimately have "HnswUpdateNeighborsOnDisk ?ix3 support p (index_m ?ix3) False ?mem = Inl out_of_memory \<or>
          (\<exists>ix4. HnswUpdateNeighborsOnDisk ?ix3 support p (index_m ?ix3) False ?mem = Inr ix4 \<and> graph_ok ix4 \<and> relinks (etid e') ?ix3 ix4)"
        using HnswUpdateNeighborsOnDisk_ok [OF m(2) V, of ?mem p e' v x ns False] a(5,7,8,9) ns(1,2)
        by (simp add: element_store_def)
      then show ?thesis
      proof (elim disjE exE conjE)
        assume "HnswUpdateNeighborsOnDisk ?ix3 support p (index_m ?ix3) False ?mem = Inl out_of_memory"
        then show ?thesis using True a(1) m(1,3) by (simp add: r_def UpdateGraphOnDisk_def resource_error_def)
      next
        fix ix4
        assume u: "HnswUpdateNeighborsOnDisk ?ix3 support p (index_m ?ix3) False ?mem = Inr ix4" "graph_ok ix4"
          "relinks (etid e') ?ix3 ix4"
        have i4: "inserts ix h v ix4" by (rule inserts_later [OF a(2) u(2)]) (use same_elements_live [OF relinks_same [OF u(3)]] in simp)
        have x4: "live_in (stored ix4) (etid e') x" using a(5) same_elements_live [OF relinks_same [OF u(3)]] by simp
        have "\<exists>b. above_entry ?mem p entry = Inr b"
          by (rule above_entry_ok [of _ _ e']) (use entry in \<open>auto simp: element_store_def\<close>)
        then obtain ab where ab: "above_entry ?mem p entry = Inr ab" ..
        obtain meta4 where "HnswUpdateMetaPage ix4 ?mem HNSW_UPDATE_ENTRY_GREATER (Some p) InvalidBlockNumber = Inr (ix4\<lparr>rd_meta := meta4\<rparr>)"
          "graph_ok (ix4\<lparr>rd_meta := meta4\<rparr>)"
          using update_entry_point [OF u(2) _ x4 a(6), of ?mem p] by (auto simp: element_store_def)
        then show ?thesis using True a(1) m(1,3) u(1) ab i4
          by (cases ab) (simp_all add: r_def UpdateGraphOnDisk_def inserts_def)
      qed
    qed
  qed
qed

subsection \<open>The new element and the entry point\<close>

lemma mem_values_fresh:
  assumes "mem_values ix mem" "mem_elems mem' = (mem_elems mem)(p \<mapsto> e)"
    "he_heaptids e = [] \<or> (\<forall>etup. \<not> live_at ix (etid e) etup)"
  shows "mem_values ix mem'"
  by (rule mem_values_upd [OF assms(1,2)]) (use assms(3) in auto)

lemma metapage_entry_ok:
  fixes ix :: "'v relation"
  assumes g: "graph_ok ix" and mem: "mem_ok mem" "mem_values ix mem"
  shows "HnswGetMetaPageInfo ix True mem = Inl out_of_memory \<or>
    (\<exists>entry mem'. HnswGetMetaPageInfo ix True mem = Inr (index_m ix, entry, mem') \<and> mem_ok mem' \<and> mem_values ix mem' \<and>
       mem_extends mem mem' \<and>
       (\<forall>ep. entry = Some ep \<longrightarrow> mem_elems mem ep = None \<and> (\<exists>en etup. mem_elems mem' ep = Some en \<and> live_at ix (etid en) etup)))"
proof (cases "BlockNumberIsValid (mp_entryBlkno (rd_meta ix))")
  case False
  then have "HnswGetMetaPageInfo ix True mem = Inr (index_m ix, None, mem)"
    using graph_okD(4) [OF g] by (simp add: HnswGetMetaPageInfo_def meta_ok_def Let_def)
  with mem show ?thesis by simp
next
  case True
  let ?M = "rd_meta ix"
  let ?e = "blank_element\<lparr>he_blkno := mp_entryBlkno ?M, he_offno := mp_entryOffno ?M, he_neighbors := None, he_value := None\<rparr>
    :: 'v HnswElementData"
  let ?en = "?e\<lparr>he_level := word_of_int (mp_entryLevel ?M)\<rparr>"
  have magic: "mp_magicNumber ?M = HNSW_MAGIC_NUMBER" using graph_okD(4) [OF g] by (simp add: meta_ok_def Let_def)
  from True obtain x where x: "live_in (stored ix) (etid ?en) x"
    using graph_okD(4) [OF g] by (auto simp: meta_ok_def Let_def etid_def)
  show ?thesis
  proof (cases rule: HnswAlloc_cases [OF mem(1), of ?e])
    case 1
    then show ?thesis using True magic by (simp add: HnswGetMetaPageInfo_def Let_def HnswInitElementFromBlock_def)
  next
    case (2 p mem1)
    let ?mem = "element_store mem1 p ?en"
    have run: "HnswGetMetaPageInfo ix True mem = Inr (index_m ix, Some p, ?mem)"
      using True magic 2(1,4) by (simp add: HnswGetMetaPageInfo_def Let_def HnswInitElementFromBlock_def)
    have el: "mem_elems ?mem = (mem_elems mem)(p \<mapsto> ?en)" by (simp add: element_store_def 2(4))
    have "mem_ok ?mem" using element_store_ok [OF 2(3)] 2(4) by simp
    moreover have "mem_values ix ?mem" by (rule mem_values_fresh [OF mem(2) el]) (simp add: blank_element_def)
    moreover have "mem_extends mem ?mem" using 2(2) by (auto simp: mem_extends_def el)
    moreover have "live_at ix (etid ?en) x" by (rule iffD2 [OF live_at_stored [OF graph_okD(1) [OF g]] x])
    moreover have "mem_elems ?mem p = Some ?en" unfolding el by simp
    ultimately show ?thesis using run 2(2) by (intro disjI2 exI [of _ "Some p"] exI [of _ ?mem]) blast
  qed
qed

lemma block_0_not_live: "he_blkno e = 0 \<Longrightarrow> \<not> live_at ix (etid e) etup"
  by (auto simp: live_at_def etup_at_def etid_def ReadItem_def ReadBuffer_Inr_iff is_block_def split: sum.splits hnsw_item.splits)

text \<open>A new element with its value: it is apart from the stored elements and has empty neighbor arrays.\<close>

definition fresh_element :: "'v relation \<Rightarrow> ItemPointerData \<Rightarrow> 'v \<Rightarrow> 'v HnswElementData \<Rightarrow> bool" where
  "fresh_element ix h v e \<longleftrightarrow>
     he_value e = Some v \<and> he_heaptids e = [h] \<and> he_version e = 1 \<and>
     unat (he_level e) \<le> HnswGetMaxLevel (index_m ix) \<and> to_connect ix (index_m ix) e"

lemma new_element_ok:
  fixes mem :: "'v memory" and h :: ItemPointerData and v :: 'v
  assumes g: "graph_ok ix" and mem: "mem_ok mem" "mem_values ix mem" and lev: "0 \<le> lev"
  defines "r \<equiv> HnswInitElement mem h (index_m ix) lev (HnswGetMaxLevel (index_m ix))"
  shows "r = Inl out_of_memory \<or>
    (\<exists>p mem1 e. r = Inr (p, mem1) \<and> mem_elems mem p = None \<and> mem_elems mem1 p = Some e \<and>
       fresh_element ix h v (e\<lparr>he_value := Some v\<rparr>) \<and> mem_ok (element_store mem1 p (e\<lparr>he_value := Some v\<rparr>)) \<and>
       mem_values ix (element_store mem1 p (e\<lparr>he_value := Some v\<rparr>)) \<and>
       mem_extends mem (element_store mem1 p (e\<lparr>he_value := Some v\<rparr>)))"
proof -
  let ?max = "HnswGetMaxLevel (index_m ix)"
  define L where "L = (if lev > int ?max then int ?max else lev)"
  let ?e1 = "blank_element\<lparr>he_heaptids := [h], he_level := word_of_int L, he_deleted := 0, he_version := 1\<rparr> :: 'v HnswElementData"
  let ?e = "(HnswInitNeighbors ?e1 (index_m ix))\<lparr>he_value := None\<rparr>" and ?ev = "(HnswInitNeighbors ?e1 (index_m ix))\<lparr>he_value := Some v\<rparr>"
  note ok = graph_okD [OF g]
  have r: "r = HnswAlloc mem ?e"
    by (simp add: r_def HnswInitElement_def HnswAddHeapTid_def HNSW_HEAPTIDS_def Let_def L_def)
  have max: "?max \<le> 255" using HnswGetMaxLevel_slots(2) [OF ok(5,6) order_refl] .
  have L: "0 \<le> L" "L \<le> int ?max" using lev by (simp_all add: L_def)
  then have "L < 2 ^ 8" using max by simp
  then have u: "uint (word_of_int L :: 8 word) = L" using L(1) by (simp add: uint_word_of_int)
  have "unat (word_of_int L :: 8 word) = nat L" unfolding unat_eq_nat_uint u ..
  then have "unat (word_of_int L :: 8 word) \<le> ?max" using L by linarith
  then have l: "unat (he_level ?ev) \<le> ?max" by (simp add: HnswInitNeighbors_def)
  have dead: "\<not> live_at ix (etid ?ev) etup" for etup
    by (rule block_0_not_live) (simp add: HnswInitNeighbors_def blank_element_def)
  then have "apart ix ?ev" by (simp add: apart_def)
  then have fr: "fresh_element ix h v ?ev"
    using l by (simp add: fresh_element_def to_connect_def HnswInitNeighbors_def del: upt_Suc)
  show ?thesis
  proof (cases rule: HnswAlloc_cases [OF mem(1), of ?e])
    case 1
    then show ?thesis by (simp add: r)
  next
    case (2 p mem1)
    let ?mem = "element_store mem1 p ?ev"
    have el: "mem_elems ?mem = (mem_elems mem)(p \<mapsto> ?ev)" by (simp add: element_store_def 2(4))
    have "mem_ok ?mem" using element_store_ok [OF 2(3)] 2(4) by simp
    moreover have "mem_values ix ?mem" by (rule mem_values_fresh [OF mem(2) el]) (use dead in blast)
    moreover have "mem_extends mem ?mem" using 2(2) by (auto simp: mem_extends_def el)
    moreover have "?e\<lparr>he_value := Some v\<rparr> = ?ev" by simp
    ultimately show ?thesis using r 2(1,2,4) fr by (intro disjI2 exI [of _ p] exI [of _ mem1] exI [of _ ?e]) simp
  qed
qed

subsection \<open>The whole insert\<close>

text \<open>The work of \<^verbatim>\<open>HnswInsertTupleOnDisk\<close> before the graph is changed.\<close>

lemma prepare_insert_ok:
  fixes ix :: "'v relation" and support :: "'v HnswSupport" and h :: ItemPointerData and v :: 'v
  assumes g: "graph_ok ix" and mem: "mem_ok mem" "mem_values ix mem" and lev: "0 \<le> lev" and h: "ItemPointerIsValid h"
    and V: "num_dist support (insert v (values_in ix))" and ef: "0 < HnswGetEfConstruction ix"
  defines "r \<equiv> bindE (HnswGetMetaPageInfo ix True mem) (\<lambda>(m, entryPoint, mem1).
       bindE (HnswInitElement mem1 h m lev (HnswGetMaxLevel m)) (\<lambda>(p, mem2).
       bindE (HnswPtrAccess mem2 p) (\<lambda>element.
       let mem3 = element_store mem2 p (element\<lparr>he_value := Some v\<rparr>) in
       bindE (above_entry mem3 p entryPoint) (\<lambda>above.
       bindE (if above then HnswGetEntryPoint ix mem3 else Inr (entryPoint, mem3)) (\<lambda>(entryPoint1, mem4).
       bindE (HnswFindElementNeighbors p entryPoint1 (Some ix) support m (HnswGetEfConstruction ix)
                False mem4) (\<lambda>mem5.
       Inr (p, m, entryPoint1, mem5)))))))"
  shows "r = Inl out_of_memory \<or> (\<exists>p entry mem5 e. r = Inr (p, index_m ix, entry, mem5) \<and> mem_ok mem5 \<and>
    connected ix support mem5 p h v e \<and> (\<forall>ep. entry = Some ep \<longrightarrow> mem_elems mem5 ep \<noteq> None))"
proof (cases "HnswGetMetaPageInfo ix True mem = Inl out_of_memory")
  case True
  then show ?thesis by (simp add: r_def)
next
  case False
  then obtain entry mem1 where m1: "HnswGetMetaPageInfo ix True mem = Inr (index_m ix, entry, mem1)" "mem_ok mem1"
    "mem_values ix mem1"
    "\<forall>ep. entry = Some ep \<longrightarrow> (\<exists>en etup. mem_elems mem1 ep = Some en \<and> live_at ix (etid en) etup)"
    using metapage_entry_ok [OF g mem] by blast
  show ?thesis
  proof (cases "HnswInitElement mem1 h (index_m ix) lev (HnswGetMaxLevel (index_m ix)) = Inl out_of_memory")
    case True
    then show ?thesis by (simp add: r_def m1(1))
  next
    case nf: False
    obtain p mem2 e where "HnswInitElement mem1 h (index_m ix) lev (HnswGetMaxLevel (index_m ix)) = Inr (p, mem2)"
      "mem_elems mem1 p = None" "mem_elems mem2 p = Some e" "fresh_element ix h v (e\<lparr>he_value := Some v\<rparr>)"
      "mem_ok (element_store mem2 p (e\<lparr>he_value := Some v\<rparr>))" "mem_values ix (element_store mem2 p (e\<lparr>he_value := Some v\<rparr>))"
      "mem_extends mem1 (element_store mem2 p (e\<lparr>he_value := Some v\<rparr>))"
      using new_element_ok [OF g m1(2,3) lev, of h v] nf by blast
    moreover define ev where "ev = e\<lparr>he_value := Some v\<rparr>"
    moreover define mem3 where "mem3 = element_store mem2 p ev"
    ultimately have m3: "HnswInitElement mem1 h (index_m ix) lev (HnswGetMaxLevel (index_m ix)) = Inr (p, mem2)"
      "mem_elems mem1 p = None" "mem_elems mem2 p = Some e" "fresh_element ix h v ev" "mem_ok mem3" "mem_values ix mem3"
      "mem_extends mem1 mem3" "mem_elems mem3 p = Some ev" by (simp_all add: element_store_def)
    have e3: "ep \<noteq> p \<and> (\<exists>en etup. mem_elems mem3 ep = Some en \<and> live_at ix (etid en) etup)" if "entry = Some ep" for ep
      using m1(4) m3(2,7) that unfolding mem_extends_def by (metis option.distinct(1))
    have "\<exists>b. above_entry mem3 p entry = Inr b" by (rule above_entry_ok [OF m3(8)]) (use e3 in auto)
    then obtain ab where ab: "above_entry mem3 p entry = Inr ab" ..
    have entry: "(if ab then HnswGetEntryPoint ix mem3 else Inr (entry, mem3)) = Inl out_of_memory \<or>
        (\<exists>entry1 mem4. (if ab then HnswGetEntryPoint ix mem3 else Inr (entry, mem3)) = Inr (entry1, mem4) \<and> mem_ok mem4 \<and>
           mem_values ix mem4 \<and> mem_elems mem4 p = Some ev \<and>
           (\<forall>ep. entry1 = Some ep \<longrightarrow> ep \<noteq> p \<and> (\<exists>en etup. mem_elems mem4 ep = Some en \<and> live_at ix (etid en) etup)))"
    proof (cases ab)
      case False
      then show ?thesis using m3(5,6,8) e3 by simp
    next
      case True
      from metapage_entry_ok [OF g m3(5,6)] m3(8) True show ?thesis
        unfolding HnswGetEntryPoint_def mem_extends_def by (elim disjE exE conjE) (simp, fastforce)
    qed
    have r: "r = bindE (if ab then HnswGetEntryPoint ix mem3 else Inr (entry, mem3)) (\<lambda>(entryPoint1, mem4).
       bindE (HnswFindElementNeighbors p entryPoint1 (Some ix) support (index_m ix) (HnswGetEfConstruction ix)
                False mem4) (\<lambda>mem5. Inr (p, index_m ix, entryPoint1, mem5)))"
      by (simp add: r_def m1(1) m3(1,3) Let_def ev_def [symmetric] mem3_def [symmetric] ab)
    show ?thesis
    proof (cases "(if ab then HnswGetEntryPoint ix mem3 else Inr (entry, mem3)) = Inl out_of_memory")
      case True
      then show ?thesis unfolding r by simp
    next
      case nf: False
      with entry obtain entry1 mem4 where m4: "(if ab then HnswGetEntryPoint ix mem3 else Inr (entry, mem3)) = Inr (entry1, mem4)"
        "mem_ok mem4" "mem_values ix mem4" "mem_elems mem4 p = Some ev"
        "\<And>ep. entry1 = Some ep \<Longrightarrow> ep \<noteq> p \<and> (\<exists>en etup. mem_elems mem4 ep = Some en \<and> live_at ix (etid en) etup)" by blast
      have f: "he_value ev = Some v" "he_heaptids ev = [h]" "he_version ev = 1"
        "unat (he_level ev) \<le> HnswGetMaxLevel (index_m ix)" "to_connect ix (index_m ix) ev"
        using m3(4) by (simp_all add: fresh_element_def)
      have d: "insert_ok ix (index_m ix) (he_value ev) support" "pairs_ok ix support"
        using num_dist_distances [OF V, of ix "Some v"] graph_ok_index_ok [OF g] graph_okD(6) [OF g]
        by (auto simp: insert_ok_def HNSW_MAX_M_def f(1))
      let ?f = "HnswFindElementNeighbors p entry1 (Some ix) support (index_m ix) (HnswGetEfConstruction ix) False mem4"
      from HnswFindElementNeighbors_ok [OF d ef m4(2,3,4) f(5) m4(5), where existing = False]
      consider "?f = Inl out_of_memory" | mem5 ns where "?f = Inr mem5" "mem_ok mem5" "mem_elems mem5 p = Some (ev\<lparr>he_neighbors := Some ns\<rparr>)"
        "length ns = Suc (unat (he_level ev))" "\<forall>ep. entry1 = Some ep \<longrightarrow> mem_elems mem5 ep \<noteq> None"
        "\<forall>lc < length ns. links_ok ix (he_value ev) support (index_m ix) lc mem5 (ns ! lc)" by blast
      then show ?thesis
      proof cases
        case 1
        then show ?thesis unfolding r m4(1) by simp
      next
        case (2 mem5 ns)
        have "connected ix support mem5 p h v (ev\<lparr>he_neighbors := Some ns\<rparr>)"
          using 2(3,4,6) f h by (simp add: connected_def to_connect_def)
        then show ?thesis unfolding r m4(1) using 2(1,2,5) by auto
      qed
    qed
  qed
qed

lemma HnswInsertTupleOnDisk_ok:
  fixes ix :: "'v relation" and support :: "'v HnswSupport" and h :: ItemPointerData and v :: 'v
  assumes g: "graph_ok ix" and mem: "mem_ok mem" "mem_values ix mem" and lev: "0 \<le> lev" and h: "ItemPointerIsValid h"
    and V: "num_dist support (insert v (values_in ix))" and ef: "0 < HnswGetEfConstruction ix" and f: "fits_page ix v"
  defines "r \<equiv> HnswInsertTupleOnDisk ix support v h lev mem"
  shows "(\<exists>err. r = Some (Inl err) \<and> resource_error err) \<or> (\<exists>ix'. r = Some (Inr ix') \<and> inserts ix h v ix')"
proof -
  have "r = Some (Inl out_of_memory) \<or> (\<exists>p entry mem5 e. r = UpdateGraphOnDisk ix support p (index_m ix) entry mem5 \<and>
      mem_ok mem5 \<and> connected ix support mem5 p h v e \<and> (\<forall>ep. entry = Some ep \<longrightarrow> mem_elems mem5 ep \<noteq> None))"
    using prepare_insert_ok [OF g mem lev h V ef] unfolding r_def HnswInsertTupleOnDisk_def
    by (elim disjE exE conjE) (simp only: bindO_simps prod.case, blast)+
  with UpdateGraphOnDisk_ok [OF g _ f _ V] show ?thesis unfolding resource_error_def by blast
qed

text \<open>The entries an insert of the value \<open>v\<close> adds: none if the value has no norm.\<close>

lemma hnswinsert_ok:
  fixes ix :: "'v relation" and h :: ItemPointerData and v :: 'v
  assumes g: "graph_ok ix" and mem: "mem_ok mem" "mem_values ix mem" and lev: "0 \<le> lev" and h: "ItemPointerIsValid h"
    and v: "HnswFormIndexValue v (HnswGetTypeInfo ix) (HnswInitSupport ix) = Inr (Some v')"
    and V: "num_dist (HnswInitSupport ix) (insert v' (values_in ix))" and ef: "0 < HnswGetEfConstruction ix"
    and f: "fits_page ix v'"
  defines "r \<equiv> hnswinsert ix (Some v) h lev mem"
  shows "(\<exists>err. r = Some (Inl err) \<and> resource_error err) \<or>
    (\<exists>ix'. r = Some (Inr (False, ix')) \<and> inserts ix h v' ix')"
  using HnswInsertTupleOnDisk_ok [OF g mem lev h V ef f] v
  by (auto simp: r_def hnswinsert_def HnswInsertTuple_def Let_def)

text \<open>A heap TID that is not in the index yet is in it once afterwards.\<close>

lemma heaps_entries:
  assumes "graph_ok index" "h \<in> set (heaps_at (stored index) t)"
  shows "h \<in> fst ` entries index"
proof -
  from assms(2) obtain e where e: "live_in (stored index) t e" using heaps_at_dead by fastforce
  then obtain l where "stored index t = Some (ETup e, l)" "et_deleted e = 0" by (auto simp: live_in_def)
  then obtain v where "et_data e = Some v"
    using store_ok_elem [OF graph_okD(3) [OF assms(1)]] by (fastforce simp: element_ok_def)
  with assms(2) e have "(h, v) \<in> entries index" by (auto simp: entries_def heaps_at_live)
  then show ?thesis by force
qed

lemma inserts_unique:
  assumes g: "graph_ok index" and i: "inserts index h v index'" and u: "heaps_unique index" and new: "h \<notin> fst ` entries index"
  shows "heaps_unique index'"
proof -
  obtain t where t: "graph_ok index'" "heaps_at (stored index') = (heaps_at (stored index))(t := heaps_at (stored index) t @ [h])"
    using i by (auto simp: inserts_def)
  have b: "live_heaptids index = heaps_at (stored index)" "live_heaptids index' = heaps_at (stored index')"
    using live_heaptids_stored graph_okD(1) g t(1) by blast+
  have "h \<notin> set (heaps_at (stored index) t')" for t' using heaps_entries [OF g] new by blast
  then show ?thesis using u unfolding heaps_unique_def b t(2) by auto
qed

end
