(* ===== verification/Hnsw_Build_Correct.thy ===== *)
theory Hnsw_Build_Correct
  imports Hnsw_Build Hnsw_Insert_Refine
begin

section \<open>Correctness of builds\<close>

text \<open>An empty build: the metapage and one empty page, a well-formed index without entries.\<close>

lemma CreateGraphPages_empty:
  assumes bs: "rd_blocks (bs_index bs) = []" "2 \<le> bs_m bs" "bs_m bs \<le> 100" "gr_head (bs_graph bs) = None"
    "gr_entryPoint (bs_graph bs) = None"
  obtains index where "FlushPages bs = Some (Inr (bs\<lparr>bs_index := index, bs_graph := (bs_graph bs)\<lparr>gr_flushed := True\<rparr>,
      bs_mem := (bs_mem bs)\<lparr>mem_elems := Map.empty\<rparr>\<rparr>))"
    "graph_ok index" "entries index = {}" "index = (bs_index bs)\<lparr>rd_meta := rd_meta index, rd_blocks := rd_blocks index\<rparr>"
proof -
  let ?meta = "rd_meta (bs_index (CreateMetaPage bs))\<lparr>mp_insertPage := 1\<rparr>"
  let ?ix = "(bs_index bs)\<lparr>rd_meta := ?meta, rd_blocks := [HnswInitPage]\<rparr>"
  have run: "FlushPages bs = Some (Inr (bs\<lparr>bs_index := ?ix, bs_graph := (bs_graph bs)\<lparr>gr_flushed := True\<rparr>,
      bs_mem := (bs_mem bs)\<lparr>mem_elems := Map.empty\<rparr>\<rparr>))"
    using bs by (simp add: FlushPages_def CreateGraphPages_def HnswNewBuffer_def RelationGetNumberOfBlocks_def CreateMetaPage_def
      element_walk.simps HnswUpdateMetaPage_def HnswUpdateMetaPageInfo_def WriteNeighborTuples_def BlockNumberIsValid_def
      InvalidBlockNumber_def HNSW_UPDATE_ENTRY_ALWAYS_def Let_def)
  have st: "stored ?ix = Map.empty"
    by (rule ext) (auto simp: stored_def Let_def HnswInitPage_inv)
  have b: "blocks_ok ?ix" by (simp add: blocks_ok_def HnswInitPage_inv)
  have c: "chain_ok ?ix" by (simp add: chain_ok_def page_next_def HnswInitPage_def PageInit_def)
  have m: "unat (mp_m ?meta) = bs_m bs"
    using bs(3) by (simp add: CreateMetaPage_def unsigned_of_nat take_bit_nat_eq_self)
  have "meta_ok ?ix"
    using bs(2,3) m by (simp add: meta_ok_def Let_def HNSW_MIN_M_def HNSW_MAX_M_def is_block_def CreateMetaPage_def
      BlockNumberIsValid_def InvalidBlockNumber_def)
  moreover have "store_ok k (stored ?ix)" for k unfolding st store_ok_def by simp
  ultimately have "graph_ok ?ix" using b c by (simp add: graph_ok_def)
  moreover have "entries ?ix = {}" unfolding entries_def st live_in_def by simp
  ultimately show thesis using that [OF run] by simp
qed

lemma hnswbuildempty_ok:
  assumes ix: "rd_blocks index = []" "HNSW_MIN_M \<le> HnswGetM index" "HnswGetM index \<le> HNSW_MAX_M"
    and init: "InitBuildState index typmod isvarbit mwm mem = Inr bs"
  shows "\<exists>index'. hnswbuildempty index typmod isvarbit mwm mem = Some (Inr index') \<and> graph_ok index' \<and> entries index' = {} \<and>
    index' = index\<lparr>rd_meta := rd_meta index', rd_blocks := rd_blocks index'\<rparr>"
proof -
  have bs: "bs_index bs = index" "bs_m bs = HnswGetM index" "bs_graph bs = InitGraph (mwm * 1024)"
    using init by (auto simp: InitBuildState_def Let_def split: if_splits)
  obtain index' where "FlushPages bs = Some (Inr (bs\<lparr>bs_index := index', bs_graph := (bs_graph bs)\<lparr>gr_flushed := True\<rparr>,
      bs_mem := (bs_mem bs)\<lparr>mem_elems := Map.empty\<rparr>\<rparr>))"
    "graph_ok index'" "entries index' = {}" "index' = (bs_index bs)\<lparr>rd_meta := rd_meta index', rd_blocks := rd_blocks index'\<rparr>"
    using CreateGraphPages_empty [of bs] ix bs by (auto simp: InitGraph_def HNSW_MIN_M_def HNSW_MAX_M_def)
  then show ?thesis
    using init bs by (auto simp: hnswbuildempty_def BuildIndex_def BuildGraph_def InitGraph_def)
qed

end
