(* ===== verification/Hnsw_Vacuum.thy ===== *)
theory Hnsw_Vacuum
  imports Hnsw_Insert
begin

section \<open>Vacuum (src/hnswvacuum.c)\<close>

text \<open>
  The functions of \<^verbatim>\<open>hnswvacuum.c\<close>, for one backend: taking and releasing \<^verbatim>\<open>HNSW_UPDATE_LOCK\<close> and \<^verbatim>\<open>HNSW_SCAN_LOCK\<close>
  waits for other backends and does nothing else. The elements \<^verbatim>\<open>highestPoint\<close> and \<^verbatim>\<open>fallbackPoint\<close> are members of the
  vacuum state; the model keeps their addresses, and their contents with the other elements. The callback tells
  which heap TIDs are dead. The counters of the statistics are doubles in the source, exact as long as they are below
  \<open>2 ^ 53\<close>.
\<close>

record IndexBulkDeleteResult =
  bd_num_pages :: nat
  bd_num_index_tuples :: nat
  bd_tuples_removed :: nat

record 'v HnswVacuumState =
  vs_index :: "'v relation"
  vs_stats :: IndexBulkDeleteResult
  vs_callback :: "ItemPointerData \<Rightarrow> bool"
  vs_m :: nat
  vs_efConstruction :: nat
  vs_support :: "'v HnswSupport"
  vs_deleted :: "ItemPointerData set"
  vs_highestPoint :: eptr
  vs_fallbackPoint :: eptr
  vs_mem :: "'v memory"

definition DeletedContains :: "ItemPointerData set \<Rightarrow> ItemPointerData \<Rightarrow> bool" where
  "DeletedContains deleted indextid \<longleftrightarrow> indextid \<in> deleted"

text \<open>Changing an element through its pointer, and what a reset of a memory context leaves.\<close>

definition element_update ::
  "'v memory \<Rightarrow> eptr \<Rightarrow> ('v HnswElementData \<Rightarrow> 'v HnswElementData) \<Rightarrow> 'v memory result" where
  "element_update mem p f = bindE (HnswPtrAccess mem p) (\<lambda>e. Inr (element_store mem p (f e)))"

definition MemoryContextReset :: "'v memory \<Rightarrow> 'v memory \<Rightarrow> 'v memory" where
  "MemoryContextReset mem0 mem = mem0\<lparr>mem_elems := mem_elems mem |` dom (mem_elems mem0)\<rparr>"

subsection \<open>Removing heap TIDs\<close>

text \<open>
  The loop over the heap TIDs of one tuple. Its state: the array, \<^verbatim>\<open>idx\<close>, \<^verbatim>\<open>itemUpdated\<close>, and the two counters
  of the statistics.
\<close>

record heaptids_state =
  hs_tids :: "ItemPointerData list"
  hs_idx :: nat
  hs_updated :: bool
  hs_removed :: nat
  hs_kept :: nat

fun heaptids_loop :: "(ItemPointerData \<Rightarrow> bool) \<Rightarrow> nat list \<Rightarrow> heaptids_state \<Rightarrow> heaptids_state result" where
  "heaptids_loop callback [] s = Inr s"
| "heaptids_loop callback (i # is) s =
     bindE (array_get ''heaptids'' (hs_tids s) i) (\<lambda>tid.
     if \<not> ItemPointerIsValid tid then Inr s
     else if callback tid
     then heaptids_loop callback is (s\<lparr>hs_updated := True, hs_removed := hs_removed s + 1\<rparr>)
     else bindE (array_set ''heaptids'' (hs_tids s) (hs_idx s) tid) (\<lambda>tids.
          heaptids_loop callback is
            (s\<lparr>hs_tids := tids, hs_idx := hs_idx s + 1, hs_kept := hs_kept s + 1\<rparr>)))"

definition remove_heaptids ::
  "(ItemPointerData \<Rightarrow> bool) \<Rightarrow> ItemPointerData list \<Rightarrow> heaptids_state result" where
  "remove_heaptids callback tids =
     bindE (array_get ''heaptids'' tids 0) (\<lambda>first.
     let s0 = \<lparr>hs_tids = tids, hs_idx = 0, hs_updated = False, hs_removed = 0, hs_kept = 0\<rparr> in
     if \<not> ItemPointerIsValid first then Inr s0
     else bindE (heaptids_loop callback [0..<HNSW_HEAPTIDS] s0) (\<lambda>s.
          if \<not> hs_updated s then Inr s
          else bindE (foldE (\<lambda>i tids. array_set ''heaptids'' tids i ItemPointerSetInvalid)
                        [hs_idx s..<HNSW_HEAPTIDS] (hs_tids s)) (\<lambda>tids1.
               Inr (s\<lparr>hs_tids := tids1\<rparr>))))"

text \<open>The state of the loop over the tuples of a page.\<close>

record 'v remove_state =
  rm_vs :: "'v HnswVacuumState"
  rm_page :: "'v hnsw_page"
  rm_updated :: bool
  rm_highestLevel :: int
  rm_fallbackLevel :: int

definition set_point ::
  "BlockNumber \<Rightarrow> OffsetNumber \<Rightarrow> 8 word \<Rightarrow> 'v HnswElementData \<Rightarrow> 'v HnswElementData" where
  "set_point blkno offno level e = e\<lparr>he_blkno := blkno, he_offno := offno, he_level := level\<rparr>"

text \<open>What happens to the list of deleted elements and to the highest and fallback points.\<close>

definition track_element ::
  "BlockNumber \<Rightarrow> OffsetNumber \<Rightarrow> 'v HnswElementTupleData \<Rightarrow> ItemPointerData \<Rightarrow> 'v remove_state
    \<Rightarrow> 'v remove_state result" where
  "track_element blkno offno etup first s =
     (let vs = rm_vs s in
      if \<not> ItemPointerIsValid first
      then Inr (s\<lparr>rm_vs := vs\<lparr>vs_deleted := insert (ItemPointerSet blkno offno) (vs_deleted vs)\<rparr>\<rparr>)
      else if uint (et_level etup) > rm_highestLevel s
      then bindE (HnswPtrAccess (vs_mem vs) (vs_highestPoint vs)) (\<lambda>highest.
           bindE (if BlockNumberIsValid (he_blkno highest)
                  then bindE (element_update (vs_mem vs) (vs_fallbackPoint vs)
                                (set_point (he_blkno highest) (he_offno highest) (he_level highest))) (\<lambda>mem1.
                       Inr (mem1, rm_highestLevel s))
                  else Inr (vs_mem vs, rm_fallbackLevel s)) (\<lambda>(mem1, fallbackLevel).
           bindE (element_update mem1 (vs_highestPoint vs) (set_point blkno offno (et_level etup))) (\<lambda>mem2.
           Inr (s\<lparr>rm_vs := vs\<lparr>vs_mem := mem2\<rparr>, rm_highestLevel := uint (et_level etup),
                  rm_fallbackLevel := fallbackLevel\<rparr>))))
      else if uint (et_level etup) > rm_fallbackLevel s
      then bindE (element_update (vs_mem vs) (vs_fallbackPoint vs) (set_point blkno offno (et_level etup))) (\<lambda>mem1.
           Inr (s\<lparr>rm_vs := vs\<lparr>vs_mem := mem1\<rparr>, rm_fallbackLevel := uint (et_level etup)\<rparr>))
      else Inr s)"

definition remove_item :: "BlockNumber \<Rightarrow> OffsetNumber \<Rightarrow> 'v remove_state \<Rightarrow> 'v remove_state result" where
  "remove_item blkno offno s =
     bindE (PageGetTuple (rm_page s) offno) (\<lambda>item.
     if \<not> HnswIsElementTuple item then Inr s
     else bindE (as_etup item) (\<lambda>etup.
          bindE (remove_heaptids (vs_callback (rm_vs s)) (et_heaptids etup)) (\<lambda>hs.
          bindE (PageSetTuple (rm_page s) offno (ETup (etup\<lparr>et_heaptids := hs_tids hs\<rparr>))) (\<lambda>page1.
          bindE (array_get ''heaptids'' (hs_tids hs) 0) (\<lambda>first.
          let vs = rm_vs s; stats = vs_stats vs;
              s1 = s\<lparr>rm_page := page1, rm_updated := rm_updated s \<or> hs_updated hs,
                     rm_vs := vs\<lparr>vs_stats := stats\<lparr>bd_tuples_removed := bd_tuples_removed stats + hs_removed hs,
                                                   bd_num_index_tuples := bd_num_index_tuples stats + hs_kept hs\<rparr>\<rparr>\<rparr>
          in track_element blkno offno etup first s1)))))"

text \<open>One page: the changed copy of the page is kept only if a tuple was updated.\<close>

definition remove_page ::
  "BlockNumber \<Rightarrow> 'v HnswVacuumState \<times> int \<times> int \<Rightarrow> (BlockNumber \<times> 'v HnswVacuumState \<times> int \<times> int) result" where
  "remove_page blkno = (\<lambda>(vs, highestLevel, fallbackLevel).
     bindE (ReadBuffer (vs_index vs) blkno) (\<lambda>page.
     bindE (foldE (remove_item blkno) (page_offsets page)
              \<lparr>rm_vs = vs, rm_page = page, rm_updated = False, rm_highestLevel = highestLevel,
               rm_fallbackLevel = fallbackLevel\<rparr>) (\<lambda>s.
     let vs1 = rm_vs s in
     Inr (po_nextblkno (pd_opaque (rm_page s)),
          if rm_updated s then vs1\<lparr>vs_index := WriteBuffer (vs_index vs1) blkno (rm_page s)\<rparr> else vs1,
          rm_highestLevel s, rm_fallbackLevel s))))"

definition RemoveHeapTids :: "'v HnswVacuumState \<Rightarrow> 'v HnswVacuumState result option" where
  "RemoveHeapTids vs =
     (let unset = (\<lambda>e. e\<lparr>he_blkno := InvalidBlockNumber, he_offno := InvalidOffsetNumber\<rparr>) in
      bindO (Some (bindE (element_update (vs_mem vs) (vs_highestPoint vs) unset) (\<lambda>mem1.
                   element_update mem1 (vs_fallbackPoint vs) unset))) (\<lambda>mem2.
      bindO (page_walk remove_page HNSW_HEAD_BLKNO (vs\<lparr>vs_mem := mem2\<rparr>, -1, -1)) (\<lambda>(vs1, highestLevel, fallbackLevel).
      Some (Inr vs1))))"

subsection \<open>Repairing the graph\<close>

fun any_deleted :: "ItemPointerData set \<Rightarrow> ItemPointerData list \<Rightarrow> nat list \<Rightarrow> bool result" where
  "any_deleted deleted indextids [] = Inr False"
| "any_deleted deleted indextids (i # is) =
     bindE (array_get ''indextids'' indextids i) (\<lambda>indextid.
     if ItemPointerIsValid indextid \<and> DeletedContains deleted indextid then Inr True
     else any_deleted deleted indextids is)"

definition NeedsUpdated :: "'v HnswVacuumState \<Rightarrow> 'v HnswElementData \<Rightarrow> bool result" where
  "NeedsUpdated vs element =
     bindE (ReadItem (vs_index vs) (he_neighborPage element) (he_neighborOffno element)) (\<lambda>item.
     bindE (as_ntup item) (\<lambda>ntup.
     let count = unat (nt_count ntup) in
     bindE (any_deleted (vs_deleted vs) (nt_indextids ntup) [0..<count]) (\<lambda>needsUpdated.
     if \<not> needsUpdated \<and> count > 0
     then bindE (array_get ''indextids'' (nt_indextids ntup) (count - 1)) (\<lambda>indextid.
          Inr (\<not> ItemPointerIsValid indextid))
     else Inr needsUpdated)))"

definition same_place :: "'v HnswElementData \<Rightarrow> 'v HnswElementData \<Rightarrow> bool" where
  "same_place a b \<longleftrightarrow> he_blkno a = he_blkno b \<and> he_offno a = he_offno b"

definition RepairGraphElement ::
  "'v HnswVacuumState \<Rightarrow> eptr \<Rightarrow> eptr option \<Rightarrow> 'v HnswVacuumState result" where
  "RepairGraphElement vs p entryPoint =
     bindE (HnswPtrAccess (vs_mem vs) p) (\<lambda>element0.
     bindE (case entryPoint of
              None \<Rightarrow> Inr False
            | Some ep \<Rightarrow> bindE (HnswPtrAccess (vs_mem vs) ep) (\<lambda>entry. Inr (same_place element0 entry))) (\<lambda>isEntry.
     if isEntry then Inr vs
     else
       let index = vs_index vs; m = vs_m vs;
           mem1 = element_store (vs_mem vs) p ((HnswInitNeighbors element0 m)\<lparr>he_heaptids := []\<rparr>)
       in bindE (HnswFindElementNeighbors p entryPoint (Some index) (vs_support vs) m (vs_efConstruction vs)
                   True mem1) (\<lambda>mem2.
          bindE (HnswPtrAccess mem2 p) (\<lambda>element.
          bindE (HnswSetNeighborTuple mem2 ntup_zero element m) (\<lambda>ntup.
          bindE (overwrite_item index (he_neighborPage element) (he_neighborOffno element) (NTup ntup)
                   (HNSW_NEIGHBOR_TUPLE_SIZE (unat (he_level element0)) m)) (\<lambda>index1.
          bindE (HnswUpdateNeighborsOnDisk index1 (vs_support vs) p m True mem2) (\<lambda>index2.
          Inr (vs\<lparr>vs_index := index2, vs_mem := mem2\<rparr>))))))))"

text \<open>The element loaded from its tuple, and repaired if needed.\<close>

definition repair_loaded ::
  "'v HnswVacuumState \<Rightarrow> eptr \<Rightarrow> eptr option \<Rightarrow> eptr option \<Rightarrow> 'v HnswVacuumState result" where
  "repair_loaded vs p entryPoint resetPoint =
     bindE (HnswLoadElement p False None (vs_index vs) (vs_support vs) True None (vs_mem vs)) (\<lambda>(d, mem1).
     bindE (HnswPtrAccess mem1 p) (\<lambda>e.
     let vs1 = vs\<lparr>vs_mem := mem1\<rparr> in
     bindE (NeedsUpdated vs1 e) (\<lambda>needed.
     if \<not> needed then Inr vs1
     else bindE (case resetPoint of
                   None \<Rightarrow> Inr mem1
                 | Some r \<Rightarrow> element_update mem1 r (\<lambda>e. e\<lparr>he_neighbors := None\<rparr>)) (\<lambda>mem2.
          RepairGraphElement (vs1\<lparr>vs_mem := mem2\<rparr>) p entryPoint))))"

definition valid_point :: "'v memory \<Rightarrow> eptr \<Rightarrow> eptr option result" where
  "valid_point mem p =
     bindE (HnswPtrAccess mem p) (\<lambda>e. Inr (if BlockNumberIsValid (he_blkno e) then Some p else None))"

text \<open>The two halves of \<^verbatim>\<open>RepairGraphEntryPoint\<close>.\<close>

definition repair_highest ::
  "'v HnswVacuumState \<Rightarrow> (eptr option \<times> 'v HnswVacuumState) result" where
  "repair_highest vs =
     bindE (valid_point (vs_mem vs) (vs_highestPoint vs)) (\<lambda>highestPoint.
     case highestPoint of
       None \<Rightarrow> Inr (None, vs)
     | Some hp \<Rightarrow>
         bindE (HnswGetEntryPoint (vs_index vs) (vs_mem vs)) (\<lambda>(entryPoint, mem1).
         bindE (case entryPoint of
                  None \<Rightarrow> Inr False
                | Some ep \<Rightarrow> bindE (HnswPtrAccess mem1 ep) (\<lambda>entry.
                             bindE (HnswPtrAccess mem1 hp) (\<lambda>highest. Inr (same_place entry highest)))) (\<lambda>isEntry.
         bindE (if isEntry then valid_point mem1 (vs_fallbackPoint vs) else Inr (Some hp)) (\<lambda>highestPoint1.
         let vs1 = vs\<lparr>vs_mem := mem1\<rparr> in
         bindE (case highestPoint1 of None \<Rightarrow> Inr vs1 | Some p \<Rightarrow> repair_loaded vs1 p entryPoint None) (\<lambda>vs2.
         Inr (highestPoint1, vs2))))))"

definition RepairGraphEntryPoint :: "'v HnswVacuumState \<Rightarrow> 'v HnswVacuumState result" where
  "RepairGraphEntryPoint vs =
     bindE (repair_highest vs) (\<lambda>(highestPoint, vs1).
     bindE (HnswGetEntryPoint (vs_index vs1) (vs_mem vs1)) (\<lambda>(entryPoint, mem2).
     let vs2 = vs1\<lparr>vs_mem := mem2\<rparr> in
     bindE (case entryPoint of
              None \<Rightarrow> Inr vs2
            | Some ep \<Rightarrow>
                bindE (HnswPtrAccess mem2 ep) (\<lambda>entry.
                if DeletedContains (vs_deleted vs2) (ItemPointerSet (he_blkno entry) (he_offno entry))
                then bindE (HnswUpdateMetaPage (vs_index vs2) mem2 HNSW_UPDATE_ENTRY_ALWAYS highestPoint
                              InvalidBlockNumber) (\<lambda>index1.
                     Inr (vs2\<lparr>vs_index := index1\<rparr>))
                else repair_loaded vs2 ep highestPoint highestPoint)) (\<lambda>vs3.
     Inr (vs3\<lparr>vs_mem := MemoryContextReset (vs_mem vs) (vs_mem vs3)\<rparr>))))"

text \<open>Loading the elements of a page that are not being deleted.\<close>

fun load_page_elements ::
  "BlockNumber \<Rightarrow> 'v hnsw_page \<Rightarrow> OffsetNumber list \<Rightarrow> 'v memory \<Rightarrow> (eptr list \<times> 'v memory) result" where
  "load_page_elements blkno page [] mem = Inr ([], mem)"
| "load_page_elements blkno page (offno # offnos) mem =
     bindE (PageGetTuple page offno) (\<lambda>item.
     if \<not> HnswIsElementTuple item then load_page_elements blkno page offnos mem
     else bindE (as_etup item) (\<lambda>etup.
          bindE (array_get ''heaptids'' (et_heaptids etup) 0) (\<lambda>first.
          if \<not> ItemPointerIsValid first then load_page_elements blkno page offnos mem
          else bindE (HnswInitElementFromBlock mem blkno offno) (\<lambda>(p, mem1).
               bindE (HnswPtrAccess mem1 p) (\<lambda>e.
               bindE (HnswLoadElementFromTuple e etup False True) (\<lambda>e1.
               bindE (load_page_elements blkno page offnos (element_store mem1 p e1)) (\<lambda>(ps, mem2).
               Inr (p # ps, mem2))))))))"

definition repair_element :: "eptr \<Rightarrow> 'v HnswVacuumState \<Rightarrow> 'v HnswVacuumState result" where
  "repair_element p vs =
     bindE (HnswPtrAccess (vs_mem vs) p) (\<lambda>element.
     bindE (NeedsUpdated vs element) (\<lambda>needed.
     if \<not> needed then Inr vs
     else bindE (HnswGetEntryPoint (vs_index vs) (vs_mem vs)) (\<lambda>(entryPoint0, mem1).
          bindE (above_entry mem1 p entryPoint0) (\<lambda>above0.
          bindE (if above0 then HnswGetEntryPoint (vs_index vs) mem1 else Inr (entryPoint0, mem1))
            (\<lambda>(entryPoint, mem2).
          bindE (RepairGraphElement (vs\<lparr>vs_mem := mem2\<rparr>) p entryPoint) (\<lambda>vs1.
          bindE (above_entry (vs_mem vs1) p entryPoint) (\<lambda>above.
          if above
          then bindE (HnswUpdateMetaPage (vs_index vs1) (vs_mem vs1) HNSW_UPDATE_ENTRY_GREATER (Some p)
                        InvalidBlockNumber) (\<lambda>index1.
               Inr (vs1\<lparr>vs_index := index1\<rparr>))
          else Inr vs1)))))))"

definition repair_page ::
  "BlockNumber \<Rightarrow> 'v HnswVacuumState \<Rightarrow> (BlockNumber \<times> 'v HnswVacuumState) result" where
  "repair_page blkno vs =
     bindE (ReadBuffer (vs_index vs) blkno) (\<lambda>page.
     bindE (load_page_elements blkno page (page_offsets page) (vs_mem vs)) (\<lambda>(elements, mem1).
     bindE (foldE repair_element elements (vs\<lparr>vs_mem := mem1\<rparr>)) (\<lambda>vs1.
     Inr (po_nextblkno (pd_opaque page),
          vs1\<lparr>vs_mem := MemoryContextReset (vs_mem vs) (vs_mem vs1)\<rparr>))))"

definition RepairGraph :: "'v HnswVacuumState \<Rightarrow> 'v HnswVacuumState result option" where
  "RepairGraph vs =
     bindO (Some (RepairGraphEntryPoint vs)) (\<lambda>vs1. page_walk repair_page HNSW_HEAD_BLKNO vs1)"

subsection \<open>Marking elements as deleted\<close>

definition confirm_item :: "'v HnswVacuumState \<Rightarrow> 'v hnsw_page \<Rightarrow> OffsetNumber \<Rightarrow> unit \<Rightarrow> unit result" where
  "confirm_item vs page offno u =
     bindE (PageGetTuple page offno) (\<lambda>item.
     if \<not> HnswIsElementTuple item then Inr ()
     else bindE (as_etup item) (\<lambda>etup.
          bindE (array_get ''heaptids'' (et_heaptids etup) 0) (\<lambda>first.
          if \<not> ItemPointerIsValid first then Inr ()
          else bindE (ReadItem (vs_index vs) (ItemPointerGetBlockNumber (et_neighbortid etup))
                        (ItemPointerGetOffsetNumber (et_neighbortid etup))) (\<lambda>nitem.
               bindE (as_ntup nitem) (\<lambda>ntup.
               bindE (any_deleted (vs_deleted vs) (nt_indextids ntup) [0..<unat (nt_count ntup)]) (\<lambda>found.
               if found then Inl (Elog ''hnsw graph not repaired'') else Inr ()))))))"

definition confirm_page :: "'v HnswVacuumState \<Rightarrow> BlockNumber \<Rightarrow> unit \<Rightarrow> (BlockNumber \<times> unit) result" where
  "confirm_page vs blkno u =
     bindE (ReadBuffer (vs_index vs) blkno) (\<lambda>page.
     bindE (foldE (confirm_item vs page) (page_offsets page) ()) (\<lambda>u1.
     Inr (po_nextblkno (pd_opaque page), ())))"

definition ConfirmRepaired :: "'v HnswVacuumState \<Rightarrow> unit result option" where
  "ConfirmRepaired vs = page_walk (confirm_page vs) HNSW_HEAD_BLKNO ()"

definition next_version :: "8 word \<Rightarrow> 8 word" where
  "next_version ver = (if ver + 1 > 15 then 1 else ver + 1)"

text \<open>One tuple; the state is the relation and \<^verbatim>\<open>insertPage\<close>.\<close>

definition mark_item ::
  "BlockNumber \<Rightarrow> OffsetNumber \<Rightarrow> 'v relation \<times> BlockNumber \<Rightarrow> ('v relation \<times> BlockNumber) result" where
  "mark_item blkno offno = (\<lambda>(index, insertPage).
     bindE (ReadBuffer index blkno) (\<lambda>page.
     bindE (PageGetTuple page offno) (\<lambda>item.
     let insertPage1 = (if \<not> BlockNumberIsValid insertPage then blkno else insertPage) in
     if \<not> HnswIsElementTuple item then Inr (index, insertPage)
     else bindE (as_etup item) (\<lambda>etup.
       if et_deleted etup \<noteq> 0 then Inr (index, insertPage1)
       else bindE (array_get ''heaptids'' (et_heaptids etup) 0) (\<lambda>first.
         if ItemPointerIsValid first then Inr (index, insertPage)
         else
           let neighborPage = ItemPointerGetBlockNumber (et_neighbortid etup);
               neighborOffno = ItemPointerGetOffsetNumber (et_neighbortid etup);
               version = next_version (et_version etup);
               etup1 = etup\<lparr>et_deleted := 1, et_data := None, et_version := version\<rparr>
           in bindE (PageSetTuple page offno (ETup etup1)) (\<lambda>page1.
              let index1 = WriteBuffer index blkno page1 in
              bindE (ReadBuffer index1 neighborPage) (\<lambda>npage.
              bindE (PageGetTuple npage neighborOffno) (\<lambda>nitem.
              bindE (as_ntup nitem) (\<lambda>ntup.
              let count = unat (nt_count ntup) in
              if length (nt_indextids ntup) < count then Inl (BadAccess ''indextids'')
              else
                let ntup1 = ntup\<lparr>nt_indextids := replicate count ItemPointerSetInvalid @ drop count (nt_indextids ntup),
                                 nt_version := version\<rparr>
                in bindE (PageSetTuple npage neighborOffno (NTup ntup1)) (\<lambda>npage1.
                   Inr (WriteBuffer index1 neighborPage npage1, insertPage1)))))))))))"

definition mark_page ::
  "BlockNumber \<Rightarrow> 'v relation \<times> BlockNumber \<Rightarrow> (BlockNumber \<times> 'v relation \<times> BlockNumber) result" where
  "mark_page blkno = (\<lambda>(index, insertPage).
     bindE (ReadBuffer index blkno) (\<lambda>page.
     bindE (foldE (mark_item blkno) (page_offsets page) (index, insertPage)) (\<lambda>(index1, insertPage1).
     bindE (ReadBuffer index1 blkno) (\<lambda>page1.
     Inr (po_nextblkno (pd_opaque page1), index1, insertPage1)))))"

definition MarkDeleted :: "'v HnswVacuumState \<Rightarrow> 'v HnswVacuumState result option" where
  "MarkDeleted vs =
     bindO (ConfirmRepaired vs) (\<lambda>u.
     bindO (page_walk mark_page HNSW_HEAD_BLKNO (vs_index vs, InvalidBlockNumber)) (\<lambda>(index1, insertPage).
     bindO (Some (HnswUpdateMetaPage index1 (vs_mem vs) 0 None insertPage)) (\<lambda>index2.
     Some (Inr (vs\<lparr>vs_index := index2\<rparr>)))))"

subsection \<open>The access method functions\<close>

text \<open>\<open>hp\<close> and \<open>fp\<close> are the addresses of the two elements in the local variable \<^verbatim>\<open>vacuumstate\<close>.\<close>

definition InitVacuumState ::
  "'v relation \<Rightarrow> IndexBulkDeleteResult option \<Rightarrow> (ItemPointerData \<Rightarrow> bool) \<Rightarrow> eptr \<Rightarrow> eptr \<Rightarrow> 'v memory
    \<Rightarrow> 'v HnswVacuumState result" where
  "InitVacuumState index stats callback hp fp mem =
     bindE (HnswGetMetaPageInfo index False mem) (\<lambda>(m, entryPoint, mem1).
     Inr \<lparr>vs_index = index,
          vs_stats = (case stats of
                        None \<Rightarrow> \<lparr>bd_num_pages = 0, bd_num_index_tuples = 0, bd_tuples_removed = 0\<rparr>
                      | Some st \<Rightarrow> st),
          vs_callback = callback, vs_m = m, vs_efConstruction = HnswGetEfConstruction index,
          vs_support = HnswInitSupport index, vs_deleted = {}, vs_highestPoint = hp, vs_fallbackPoint = fp,
          vs_mem = mem1\<rparr>)"

definition hnswbulkdelete ::
  "'v relation \<Rightarrow> IndexBulkDeleteResult option \<Rightarrow> (ItemPointerData \<Rightarrow> bool) \<Rightarrow> eptr \<Rightarrow> eptr \<Rightarrow> 'v memory
    \<Rightarrow> (IndexBulkDeleteResult \<times> 'v relation) result option" where
  "hnswbulkdelete index stats callback hp fp mem =
     bindO (Some (InitVacuumState index stats callback hp fp mem)) (\<lambda>vs.
     bindO (RemoveHeapTids vs) (\<lambda>vs1.
     bindO (RepairGraph vs1) (\<lambda>vs2.
     bindO (MarkDeleted vs2) (\<lambda>vs3.
     Some (Inr (vs_stats vs3, vs_index vs3))))))"

definition hnswvacuumcleanup ::
  "bool \<Rightarrow> 'v relation \<Rightarrow> IndexBulkDeleteResult option \<Rightarrow> IndexBulkDeleteResult option" where
  "hnswvacuumcleanup analyze_only rel stats =
     (if analyze_only then stats
      else case stats of
        None \<Rightarrow> None
      | Some st \<Rightarrow> Some (st\<lparr>bd_num_pages := RelationGetNumberOfBlocks rel\<rparr>))"

end
