(* ===== verification/Hnsw_Vacuum_Remove.thy ===== *)
theory Hnsw_Vacuum_Remove
  imports Hnsw_Vacuum Hnsw_Insert_Refine
begin

section \<open>Vacuum: removing heap TIDs\<close>

text \<open>
  The first pass of a vacuum (\<^verbatim>\<open>RemoveHeapTids\<close>): it visits every element tuple once, keeps exactly the heap TIDs the callback
  does not name, counts both kinds, lists the elements left without heap TIDs, and remembers two different elements with heap TIDs
  on high levels.
\<close>

subsection \<open>The heap TIDs of one tuple\<close>

text \<open>The state of the loop before position \<open>i\<close> of the array \<open>xs\<close>.\<close>

definition loop_state :: "(ItemPointerData \<Rightarrow> bool) \<Rightarrow> ItemPointerData list \<Rightarrow> nat \<Rightarrow> heaptids_state \<Rightarrow> bool" where
  "loop_state cb xs i s \<longleftrightarrow>
     length (hs_tids s) = length xs \<and> (\<forall>t \<in> set (take i xs). ItemPointerIsValid t) \<and>
     hs_idx s = length (filter (\<lambda>t. \<not> cb t) (take i xs)) \<and>
     take (hs_idx s) (hs_tids s) = filter (\<lambda>t. \<not> cb t) (take i xs) \<and> drop i (hs_tids s) = drop i xs \<and>
     hs_updated s = (\<exists>t \<in> set (take i xs). cb t) \<and> (\<not> hs_updated s \<longrightarrow> hs_tids s = xs) \<and>
     hs_removed s = length (filter cb (take i xs)) \<and> hs_kept s = length (filter (\<lambda>t. \<not> cb t) (take i xs))"

lemma takeWhile_prefix:
  assumes "\<forall>x \<in> set (take i xs). P x" "i < length xs \<Longrightarrow> \<not> P (xs ! i)"
  shows "takeWhile P xs = take i xs"
proof (cases "i < length xs")
  case True
  then have "xs = take i xs @ xs ! i # drop (Suc i) xs" by (simp add: id_take_nth_drop)
  then show ?thesis using assms True by (metis takeWhile_append2 takeWhile.simps(2) append_Nil2)
next
  case False
  then show ?thesis using assms(1) by (simp add: takeWhile_eq_all_conv)
qed

lemma loop_state_step:
  assumes s: "loop_state cb xs i s" and i: "i < length xs" "ItemPointerIsValid (xs ! i)"
  shows "cb (xs ! i) \<Longrightarrow> loop_state cb xs (Suc i) (s\<lparr>hs_updated := True, hs_removed := hs_removed s + 1\<rparr>)"
    "\<not> cb (xs ! i) \<Longrightarrow> loop_state cb xs (Suc i)
       (s\<lparr>hs_tids := (hs_tids s)[hs_idx s := xs ! i], hs_idx := hs_idx s + 1, hs_kept := hs_kept s + 1\<rparr>)"
proof -
  have t: "take (Suc i) xs = take i xs @ [xs ! i]" using i(1) by (simp add: take_Suc_conv_app_nth)
  have d: "drop (Suc i) (hs_tids s) = drop (Suc i) xs"
    using s unfolding loop_state_def by (metis drop_Suc tl_drop)
  show "loop_state cb xs (Suc i) (s\<lparr>hs_updated := True, hs_removed := hs_removed s + 1\<rparr>)" if "cb (xs ! i)"
    using s that i d unfolding loop_state_def t by auto
  assume n: "\<not> cb (xs ! i)"
  have idx: "hs_idx s \<le> i" using s i(1) unfolding loop_state_def by (metis length_filter_le length_take min.absorb2 nat_less_le)
  let ?ts = "(hs_tids s)[hs_idx s := xs ! i]"
  have len: "length (hs_tids s) = length xs" using s by (simp add: loop_state_def)
  have tk: "take (Suc (hs_idx s)) ?ts = take (hs_idx s) (hs_tids s) @ [xs ! i]"
    using idx i(1) len by (simp add: take_Suc_conv_app_nth)
  have dr: "drop (Suc i) ?ts = drop (Suc i) xs" using idx d by simp
  have same: "?ts = xs" if "\<not> hs_updated s"
  proof -
    have x: "hs_tids s = xs" "filter (\<lambda>t. \<not> cb t) (take i xs) = take i xs"
      using s that unfolding loop_state_def by (auto simp: filter_id_conv)
    then have "hs_idx s = i" using s i(1) unfolding loop_state_def by (simp add: min_absorb2)
    with x(1) show ?thesis by simp
  qed
  show "loop_state cb xs (Suc i) (s\<lparr>hs_tids := ?ts, hs_idx := hs_idx s + 1, hs_kept := hs_kept s + 1\<rparr>)"
    using s n i tk dr same len unfolding loop_state_def t by auto
qed

lemma heaptids_loop_run:
  assumes "loop_state cb xs i s" "i \<le> length xs"
  shows "\<exists>s'. heaptids_loop cb [i..<length xs] s = Inr s' \<and>
    loop_state cb xs (length (takeWhile ItemPointerIsValid xs)) s'"
  using assms
proof (induction "length xs - i" arbitrary: i s)
  case 0
  then have i: "i = length xs" by simp
  have tw: "takeWhile ItemPointerIsValid xs = take i xs"
    by (rule takeWhile_prefix) (use 0(2) i in \<open>simp_all add: loop_state_def\<close>)
  show ?case unfolding tw using 0(2) i by simp
next
  case (Suc k)
  then have i: "i < length xs" by simp
  have up: "[i..<length xs] = i # [Suc i..<length xs]" using i by (rule upt_conv_Cons)
  have len: "length (hs_tids s) = length xs" and nth: "hs_tids s ! i = xs ! i"
    using Suc.prems(1) i unfolding loop_state_def by (metis nth_via_drop Cons_nth_drop_Suc)+
  have idx: "hs_idx s \<le> i"
    using Suc.prems(1) i unfolding loop_state_def by (metis length_filter_le length_take min.absorb2 nat_less_le)
  show ?case
  proof (cases "ItemPointerIsValid (xs ! i)")
    case False
    have tw: "takeWhile ItemPointerIsValid xs = take i xs"
      by (rule takeWhile_prefix) (use Suc.prems(1) False in \<open>simp_all add: loop_state_def\<close>)
    show ?thesis unfolding tw using Suc.prems(1) False i len nth by (simp add: up array_get_def)
  next
    case True
    note st = loop_state_step [OF Suc.prems(1) i True]
    have IH: "\<exists>s'. heaptids_loop cb [Suc i..<length xs] s1 = Inr s' \<and> loop_state cb xs (length (takeWhile ItemPointerIsValid xs)) s'"
      if "loop_state cb xs (Suc i) s1" for s1
      using Suc.hyps(1) [OF _ that] Suc.hyps(2) i by simp
    show ?thesis
      using IH [OF st(1)] IH [OF st(2)] True i idx len nth by (cases "cb (xs ! i)") (simp_all add: up array_get_def array_set_def)
  qed
qed

lemma foldE_fill:
  assumes "k \<le> length xs"
  shows "foldE (\<lambda>i ts. array_set nm ts i x) [k..<length xs] xs = Inr (take k xs @ replicate (length xs - k) x)"
  using assms
proof (induction "length xs - k" arbitrary: k xs)
  case (Suc j)
  then have k: "k < length xs" by simp
  let ?ys = "xs[k := x]"
  have "foldE (\<lambda>i ts. array_set nm ts i x) [k..<length xs] xs = foldE (\<lambda>i ts. array_set nm ts i x) [Suc k..<length ?ys] ?ys"
    using k by (simp add: upt_conv_Cons array_set_def)
  also have "\<dots> = Inr (take (Suc k) ?ys @ replicate (length ?ys - Suc k) x)" using Suc(1) [of ?ys "Suc k"] Suc(2) k by simp
  also have "take (Suc k) ?ys = take k xs @ [x]" using k by (simp add: take_Suc_conv_app_nth)
  finally show ?case using k by (simp add: replicate_app_Cons_same flip: replicate_Suc)
qed simp

lemma takeWhile_filled:
  assumes "\<forall>x \<in> set ks. P x" "\<not> P y"
  shows "takeWhile P (ks @ replicate n y) = ks" "dropWhile P (ks @ replicate n y) = replicate n y"
  using assms by (induction ks) (simp_all add: takeWhile_replicate dropWhile_replicate)

text \<open>What the pass does to the heap TIDs of a tuple.\<close>

definition vacuumed :: "(ItemPointerData \<Rightarrow> bool) \<Rightarrow> ItemPointerData list \<Rightarrow> heaptids_state \<Rightarrow> bool" where
  "vacuumed cb xs hs \<longleftrightarrow>
     length (hs_tids hs) = HNSW_HEAPTIDS \<and>
     takeWhile ItemPointerIsValid (hs_tids hs) = filter (\<lambda>t. \<not> cb t) (takeWhile ItemPointerIsValid xs) \<and>
     (\<forall>t \<in> set (dropWhile ItemPointerIsValid (hs_tids hs)). \<not> ItemPointerIsValid t) \<and>
     (\<not> hs_updated hs \<longrightarrow> hs_tids hs = xs) \<and>
     hs_removed hs = length (filter cb (takeWhile ItemPointerIsValid xs)) \<and>
     hs_kept hs = length (filter (\<lambda>t. \<not> cb t) (takeWhile ItemPointerIsValid xs))"

lemma remove_heaptids_ok:
  assumes len: "length xs = HNSW_HEAPTIDS" and pad: "\<forall>t \<in> set (dropWhile ItemPointerIsValid xs). \<not> ItemPointerIsValid t"
  obtains hs where "remove_heaptids cb xs = Inr hs" "vacuumed cb xs hs"
proof -
  let ?n = "length (takeWhile ItemPointerIsValid xs)" and ?s0 = "\<lparr>hs_tids = xs, hs_idx = 0, hs_updated = False, hs_removed = 0, hs_kept = 0\<rparr>"
  have ne: "xs \<noteq> []" using len by (auto simp: HNSW_HEAPTIDS_def)
  have vt: "take ?n xs = takeWhile ItemPointerIsValid xs" by (rule takeWhile_eq_take [symmetric])
  show thesis
  proof (cases "ItemPointerIsValid (xs ! 0)")
    case False
    then have "takeWhile ItemPointerIsValid xs = []" using ne by (cases xs) auto
    then have "vacuumed cb xs ?s0" using len pad by (simp add: vacuumed_def)
    moreover have "remove_heaptids cb xs = Inr ?s0" using False ne by (simp add: remove_heaptids_def array_get_def)
    ultimately show thesis using that by blast
  next
    case True
    have "loop_state cb xs 0 ?s0" by (simp add: loop_state_def)
    from heaptids_loop_run [OF this] obtain s where s: "heaptids_loop cb [0..<HNSW_HEAPTIDS] ?s0 = Inr s" "loop_state cb xs ?n s"
      using len by auto
    note st = s(2) [unfolded loop_state_def vt]
    have run: "remove_heaptids cb xs = (if \<not> hs_updated s then Inr s
        else bindE (foldE (\<lambda>i tids. array_set ''heaptids'' tids i ItemPointerSetInvalid) [hs_idx s..<HNSW_HEAPTIDS] (hs_tids s))
          (\<lambda>tids1. Inr (s\<lparr>hs_tids := tids1\<rparr>)))"
      using True ne s(1) by (simp add: remove_heaptids_def array_get_def)
    show thesis
    proof (cases "hs_updated s")
      case False
      then have "filter (\<lambda>t. \<not> cb t) (takeWhile ItemPointerIsValid xs) = takeWhile ItemPointerIsValid xs"
        using st by (auto simp: filter_id_conv)
      then have "vacuumed cb xs s" using st False len pad by (simp add: vacuumed_def)
      then show thesis using that run False by simp
    next
      case True
      let ?ks = "filter (\<lambda>t. \<not> cb t) (takeWhile ItemPointerIsValid xs)"
      let ?ts = "?ks @ replicate (HNSW_HEAPTIDS - length ?ks) ItemPointerSetInvalid"
      have kl: "length ?ks \<le> HNSW_HEAPTIDS"
        using length_filter_le [of "\<lambda>t. \<not> cb t" "takeWhile ItemPointerIsValid xs"] length_takeWhile_le [of ItemPointerIsValid xs] len by linarith
      have hl: "length (hs_tids s) = HNSW_HEAPTIDS" using st len by simp
      have "foldE (\<lambda>i tids. array_set ''heaptids'' tids i ItemPointerSetInvalid) [hs_idx s..<HNSW_HEAPTIDS] (hs_tids s) = Inr ?ts"
      proof -
        have i: "hs_idx s = length ?ks" "take (hs_idx s) (hs_tids s) = ?ks" using st by blast+
        have "hs_idx s \<le> length (hs_tids s)" using i(1) kl hl by simp
        from foldE_fill [OF this, of "''heaptids''" ItemPointerSetInvalid] show ?thesis unfolding hl i(2) unfolding i(1) .
      qed
      then have r: "remove_heaptids cb xs = Inr (s\<lparr>hs_tids := ?ts\<rparr>)" using run True by simp
      have valid: "\<forall>t \<in> set ?ks. ItemPointerIsValid t" by (auto dest: set_takeWhileD)
      have "takeWhile ItemPointerIsValid ?ts = ?ks" "dropWhile ItemPointerIsValid ?ts = replicate (HNSW_HEAPTIDS - length ?ks) ItemPointerSetInvalid"
        by (rule takeWhile_filled [OF valid], simp)+
      then have "vacuumed cb xs (s\<lparr>hs_tids := ?ts\<rparr>)" using st True kl unfolding vacuumed_def by simp
      then show thesis using that [OF r] by simp
    qed
  qed
qed

subsection \<open>The store after the pass\<close>

fun vac_item :: "(ItemPointerData \<Rightarrow> bool) \<Rightarrow> 'v hnsw_item \<Rightarrow> 'v hnsw_item" where
  "vac_item cb (ETup e) =
     (case remove_heaptids cb (et_heaptids e) of Inl err \<Rightarrow> ETup e | Inr hs \<Rightarrow> ETup (e\<lparr>et_heaptids := hs_tids hs\<rparr>))"
| "vac_item cb (NTup n) = NTup n"

definition vac_store :: "(ItemPointerData \<Rightarrow> bool) \<Rightarrow> 'v store \<Rightarrow> 'v store" where
  "vac_store cb \<sigma> t = map_option (map_prod (vac_item cb) id) (\<sigma> t)"

text \<open>A tuple without heap TIDs.\<close>

definition dead :: "'v HnswElementTupleData \<Rightarrow> bool" where
  "dead e \<longleftrightarrow> takeWhile ItemPointerIsValid (et_heaptids e) = []"

definition vac_etup :: "(ItemPointerData \<Rightarrow> bool) \<Rightarrow> 'v HnswElementTupleData \<Rightarrow> 'v HnswElementTupleData \<Rightarrow> bool" where
  "vac_etup cb e e' \<longleftrightarrow>
     (\<exists>hs. remove_heaptids cb (et_heaptids e) = Inr hs \<and> vacuumed cb (et_heaptids e) hs \<and> e' = e\<lparr>et_heaptids := hs_tids hs\<rparr>)"

lemma element_ok_vac:
  assumes "element_ok m e"
  obtains e' where "vac_item cb (ETup e) = ETup e'" "vac_etup cb e e'" "element_ok m e'"
proof -
  obtain hs where hs: "remove_heaptids cb (et_heaptids e) = Inr hs" "vacuumed cb (et_heaptids e) hs"
    using remove_heaptids_ok [of "et_heaptids e"] assms unfolding element_ok_def by blast
  have "element_ok m (e\<lparr>et_heaptids := hs_tids hs\<rparr>)"
  proof (rule element_ok_heaptids [OF assms])
    show "takeWhile ItemPointerIsValid (hs_tids hs) = []" if "et_deleted e \<noteq> 0"
      using that assms hs(2) unfolding element_ok_def vacuumed_def by simp
  qed (use hs(2) in \<open>simp_all add: vacuumed_def\<close>)
  with hs show thesis by (intro that) (auto simp: vac_etup_def)
qed

lemma vac_etup_same:
  assumes "vac_etup cb e e'"
  shows "et_version e' = et_version e" "et_level e' = et_level e" "et_neighbortid e' = et_neighbortid e"
    "et_deleted e' = et_deleted e" "et_data e' = et_data e"
    "takeWhile ItemPointerIsValid (et_heaptids e') = filter (\<lambda>t. \<not> cb t) (takeWhile ItemPointerIsValid (et_heaptids e))"
  using assms by (auto simp: vac_etup_def vacuumed_def)

lemma vac_store_ETup:
  assumes "store_ok m \<sigma>"
  shows "vac_store cb \<sigma> t = Some (ETup e', l) \<longleftrightarrow> (\<exists>e. \<sigma> t = Some (ETup e, l) \<and> vac_etup cb e e')"
proof
  assume "vac_store cb \<sigma> t = Some (ETup e', l)"
  then obtain x where x: "\<sigma> t = Some (x, l)" "vac_item cb x = ETup e'" by (auto simp: vac_store_def)
  then obtain e where e: "x = ETup e" by (cases x) auto
  obtain e1 where "vac_item cb (ETup e) = ETup e1" "vac_etup cb e e1"
    using element_ok_vac [OF store_ok_elem [OF assms x(1) [unfolded e]]] .
  with x e show "\<exists>e. \<sigma> t = Some (ETup e, l) \<and> vac_etup cb e e'" by auto
next
  assume "\<exists>e. \<sigma> t = Some (ETup e, l) \<and> vac_etup cb e e'"
  then show "vac_store cb \<sigma> t = Some (ETup e', l)" by (auto simp: vac_store_def vac_etup_def)
qed

lemma vac_store_NTup: "vac_store cb \<sigma> t = Some (NTup n, l) \<longleftrightarrow> \<sigma> t = Some (NTup n, l)"
proof
  assume "vac_store cb \<sigma> t = Some (NTup n, l)"
  then obtain x where x: "\<sigma> t = Some (x, l)" "vac_item cb x = NTup n" by (auto simp: vac_store_def)
  then show "\<sigma> t = Some (NTup n, l)" by (cases x) (auto split: sum.splits)
qed (simp add: vac_store_def)

lemma vac_store_live:
  assumes "store_ok m \<sigma>"
  shows "live_in (vac_store cb \<sigma>) t e' \<longleftrightarrow> (\<exists>e. live_in \<sigma> t e \<and> vac_etup cb e e')"
  unfolding live_in_def vac_store_ETup [OF assms] using vac_etup_same(4) by metis

lemma vac_etup_ex: "element_ok m e \<Longrightarrow> \<exists>e'. vac_etup cb e e'"
  using element_ok_vac by metis

lemma vac_etup_ok:
  assumes "vac_etup cb e e'" "element_ok m e"
  shows "element_ok m e'"
proof -
  obtain e1 where e1: "vac_etup cb e e1" "element_ok m e1" using element_ok_vac [OF assms(2)] .
  have "e1 = e'" using e1(1) assms(1) by (auto simp: vac_etup_def)
  with e1(2) show ?thesis by simp
qed

lemma vac_store_ok:
  assumes ok: "store_ok m \<sigma>"
  shows "store_ok m (vac_store cb \<sigma>)"
proof (rule store_okI)
  fix t e' l
  assume "vac_store cb \<sigma> t = Some (ETup e', l)"
  then obtain e where e: "\<sigma> t = Some (ETup e, l)" "vac_etup cb e e'" unfolding vac_store_ETup [OF ok] by blast
  note s = vac_etup_same [OF e(2)]
  obtain n where n: "element_ok m e" "connects m \<sigma> e n"
    "\<sigma> (et_neighbortid e) = Some (NTup n, HNSW_NEIGHBOR_TUPLE_SIZE (unat (et_level e)) m)" using store_okD [OF ok e(1)] .
  have "element_ok m e'" by (rule vac_etup_ok [OF e(2) n(1)])
  moreover have "connects m (vac_store cb \<sigma>) e n"
  proof (rule connects_mono [OF n(2)])
    fix t x
    assume x: "live_in \<sigma> t x"
    then obtain l where "\<sigma> t = Some (ETup x, l)" by (auto simp: live_in_def)
    then obtain x' where "vac_etup cb x x'" using vac_etup_ex [OF store_ok_elem [OF ok]] by blast
    with x show "\<exists>x'. live_in (vac_store cb \<sigma>) t x'" unfolding vac_store_live [OF ok] by blast
  qed
  moreover have "connects m (vac_store cb \<sigma>) e' n = connects m (vac_store cb \<sigma>) e n" by (rule connects_cong [OF s(1,2)])
  ultimately show "element_ok m e' \<and> (\<exists>n. vac_store cb \<sigma> (et_neighbortid e') =
      Some (NTup n, HNSW_NEIGHBOR_TUPLE_SIZE (unat (et_level e')) m) \<and> connects m (vac_store cb \<sigma>) e' n)"
    using n(3) s(2,3) by (auto simp: vac_store_NTup)
next
  fix t n l
  assume "vac_store cb \<sigma> t = Some (NTup n, l)"
  then show "nt_type n = HNSW_NEIGHBOR_TUPLE_TYPE" using store_ok_ntup [OF ok] by (simp add: vac_store_NTup)
next
  fix t1 t2 e1 e2 l1 l2
  assume "vac_store cb \<sigma> t1 = Some (ETup e1, l1)" "vac_store cb \<sigma> t2 = Some (ETup e2, l2)" "et_neighbortid e1 = et_neighbortid e2"
  then show "t1 = t2" using store_ok_inj [OF ok] vac_etup_same(3) unfolding vac_store_ETup [OF ok] by metis
qed

lemma vac_store_heaps:
  assumes ok: "store_ok m \<sigma>"
  shows "heaps_at (vac_store cb \<sigma>) t = filter (\<lambda>h. \<not> cb h) (heaps_at \<sigma> t)"
proof (cases "\<exists>e. live_in \<sigma> t e")
  case True
  then obtain e l where e: "live_in \<sigma> t e" "\<sigma> t = Some (ETup e, l)" by (auto simp: live_in_def)
  obtain e' where e': "vac_etup cb e e'" using vac_etup_ex [OF store_ok_elem [OF ok e(2)]] ..
  then have "live_in (vac_store cb \<sigma>) t e'" using e(1) unfolding vac_store_live [OF ok] by blast
  then show ?thesis using e(1) vac_etup_same(6) [OF e'] by (simp add: heaps_at_live)
next
  case False
  then have "\<not> live_in (vac_store cb \<sigma>) t e" for e unfolding vac_store_live [OF ok] by blast
  with False show ?thesis by (simp add: heaps_at_dead)
qed

subsection \<open>The points remembered\<close>

text \<open>
  \<open>F\<close> is the store after the pass and \<open>S\<close> the TIDs visited so far. A point is unset, or the place of a visited element with heap
  TIDs, and the level kept beside it is the element's.
\<close>

definition point_at :: "'v store \<Rightarrow> ItemPointerData set \<Rightarrow> 'v HnswElementData \<Rightarrow> int \<Rightarrow> bool" where
  "point_at F S e lev \<longleftrightarrow>
     he_heaptids e = [] \<and>
     (if BlockNumberIsValid (he_blkno e)
      then etid e \<in> S \<and> (\<exists>x l. F (etid e) = Some (ETup x, l) \<and> \<not> dead x \<and> he_level e = et_level x) \<and> lev = uint (he_level e)
      else lev = -1)"

definition points_ok :: "'v store \<Rightarrow> ItemPointerData set \<Rightarrow> 'v memory \<Rightarrow> eptr \<Rightarrow> eptr \<Rightarrow> int \<Rightarrow> int \<Rightarrow> bool" where
  "points_ok F S mem hp fp hl fl \<longleftrightarrow>
     mem_ok mem \<and> dom (mem_elems mem) = {hp, fp} \<and> hp \<noteq> fp \<and>
     (\<exists>h f. mem_elems mem hp = Some h \<and> mem_elems mem fp = Some f \<and> point_at F S h hl \<and> point_at F S f fl \<and>
        (BlockNumberIsValid (he_blkno h) \<and> BlockNumberIsValid (he_blkno f) \<longrightarrow> etid h \<noteq> etid f)) \<and>
     (hl = -1 \<longrightarrow> (\<forall>t \<in> S. \<forall>x l. F t = Some (ETup x, l) \<longrightarrow> dead x))"

lemma point_at_mono: "point_at F S e lev \<Longrightarrow> S \<subseteq> S' \<Longrightarrow> point_at F S' e lev"
  by (auto simp: point_at_def split: if_splits)

lemma point_at_set:
  assumes "F (ItemPointerSet b off) = Some (ETup x, l)" "\<not> dead x" "BlockNumberIsValid b" "he_heaptids e = []"
    "ItemPointerSet b off \<in> S"
  shows "point_at F S (set_point b off (et_level x) e) (uint (et_level x))"
  using assms by (auto simp: point_at_def set_point_def etid_def)

lemma points_okE:
  assumes "points_ok F S mem hp fp hl fl"
  obtains h f where "mem_ok mem" "dom (mem_elems mem) = {hp, fp}" "hp \<noteq> fp" "mem_elems mem hp = Some h" "mem_elems mem fp = Some f"
    "point_at F S h hl" "point_at F S f fl" "BlockNumberIsValid (he_blkno h) \<Longrightarrow> BlockNumberIsValid (he_blkno f) \<Longrightarrow> etid h \<noteq> etid f"
    "hl = -1 \<Longrightarrow> t \<in> S \<Longrightarrow> F t = Some (ETup x, l) \<Longrightarrow> dead x"
  using assms unfolding points_ok_def by blast

lemma points_ok_store:
  assumes p: "points_ok F S mem hp fp hl fl" and S: "S \<subseteq> S'"
    and el: "mem_elems mem' = (mem_elems mem)(hp \<mapsto> h, fp \<mapsto> f)" "mem_addr mem' = mem_addr mem" "mem_count mem' = mem_count mem"
    and at: "point_at F S' h hl'" "point_at F S' f fl'"
    and ne: "BlockNumberIsValid (he_blkno h) \<Longrightarrow> BlockNumberIsValid (he_blkno f) \<Longrightarrow> etid h \<noteq> etid f"
    and top: "hl' = -1 \<Longrightarrow> \<forall>t \<in> S'. \<forall>x l. F t = Some (ETup x, l) \<longrightarrow> dead x"
  shows "points_ok F S' mem' hp fp hl' fl'"
proof -
  have m: "mem_ok mem" "dom (mem_elems mem) = {hp, fp}" "hp \<noteq> fp" using p by (simp_all add: points_ok_def)
  have "mem_elems mem q \<noteq> None" if "mem_elems mem' q \<noteq> None" for q
    using that m(2) by (cases "q = hp \<or> q = fp") (auto simp: el(1) dom_def)
  then have "mem_ok mem'" using m(1) unfolding mem_ok_def el(2,3) by blast
  moreover have "dom (mem_elems mem') = {hp, fp}" using m(2) by (auto simp: el(1))
  ultimately show ?thesis using at ne top m(3) unfolding points_ok_def el(1) by auto
qed

text \<open>The part of the loop that keeps the lists: what it changes of the state.\<close>

lemma track_element_ok:
  assumes p: "points_ok F S (vs_mem (rm_vs s)) (vs_highestPoint (rm_vs s)) (vs_fallbackPoint (rm_vs s)) (rm_highestLevel s) (rm_fallbackLevel s)"
    and new: "ItemPointerSet b off \<notin> S" "F (ItemPointerSet b off) = Some (ETup x, l)" "BlockNumberIsValid b"
    and et: "et_level etup = et_level x" "ItemPointerIsValid first \<longleftrightarrow> \<not> dead x"
  shows "\<exists>mem hl fl. track_element b off etup first s =
      Inr (s\<lparr>rm_vs := (rm_vs s)\<lparr>vs_deleted := if dead x then insert (ItemPointerSet b off) (vs_deleted (rm_vs s)) else vs_deleted (rm_vs s),
                                vs_mem := mem\<rparr>, rm_highestLevel := hl, rm_fallbackLevel := fl\<rparr>) \<and>
    points_ok F (insert (ItemPointerSet b off) S) mem (vs_highestPoint (rm_vs s)) (vs_fallbackPoint (rm_vs s)) hl fl"
proof -
  let ?t = "ItemPointerSet b off" and ?vs = "rm_vs s"
  let ?S = "insert ?t S" and ?hp = "vs_highestPoint ?vs" and ?fp = "vs_fallbackPoint ?vs" and ?mem = "vs_mem ?vs"
  obtain h f where m: "?hp \<noteq> ?fp" "mem_elems ?mem ?hp = Some h" "mem_elems ?mem ?fp = Some f"
    and at: "point_at F S h (rm_highestLevel s)" "point_at F S f (rm_fallbackLevel s)"
    and ne: "BlockNumberIsValid (he_blkno h) \<Longrightarrow> BlockNumberIsValid (he_blkno f) \<Longrightarrow> etid h \<noteq> etid f"
    and top: "\<And>t x l. rm_highestLevel s = -1 \<Longrightarrow> t \<in> S \<Longrightarrow> F t = Some (ETup x, l) \<Longrightarrow> dead x"
    using p unfolding points_ok_def by blast
  have sub: "S \<subseteq> ?S" by blast
  note at' = at [THEN point_at_mono, OF sub]
  have in_S: "BlockNumberIsValid (he_blkno e) \<Longrightarrow> etid e \<in> S" if "point_at F S e lev" for e lev
    using that by (auto simp: point_at_def)
  have hids: "he_heaptids h = []" "he_heaptids f = []" using at by (simp_all add: point_at_def)
  have nh: "rm_highestLevel s \<noteq> -1" if "\<not> uint (et_level etup) > rm_highestLevel s"
    using that uint_ge_0 [of "et_level etup"] by linarith
  have keep: "(mem_elems ?mem)(?hp \<mapsto> h, ?fp \<mapsto> f) = mem_elems ?mem" using m by auto
  consider (dead) "dead x" | (high) "\<not> dead x" "uint (et_level etup) > rm_highestLevel s"
    | (fall) "\<not> dead x" "\<not> uint (et_level etup) > rm_highestLevel s" "uint (et_level etup) > rm_fallbackLevel s"
    | (none) "\<not> dead x" "\<not> uint (et_level etup) > rm_highestLevel s" "\<not> uint (et_level etup) > rm_fallbackLevel s" by blast
  then show ?thesis
  proof cases
    case dead
    have "points_ok F ?S ?mem ?hp ?fp (rm_highestLevel s) (rm_fallbackLevel s)"
      by (rule points_ok_store [OF p sub keep [symmetric] refl refl at' ne]) (use top dead new(2) in auto)
    with dead show ?thesis
      by (intro exI [of _ ?mem] exI [of _ "rm_highestLevel s"] exI [of _ "rm_fallbackLevel s"])
        (simp add: track_element_def et(2) Let_def)
  next
    case none
    have "points_ok F ?S ?mem ?hp ?fp (rm_highestLevel s) (rm_fallbackLevel s)"
      by (rule points_ok_store [OF p sub keep [symmetric] refl refl at' ne]) (use nh none in auto)
    with none show ?thesis
      by (intro exI [of _ ?mem] exI [of _ "rm_highestLevel s"] exI [of _ "rm_fallbackLevel s"])
        (simp add: track_element_def et(2) Let_def)
  next
    case fall
    let ?f = "set_point b off (et_level x) f" and ?mem1 = "element_store ?mem ?fp (set_point b off (et_level x) f)"
    have el: "mem_elems ?mem1 = (mem_elems ?mem)(?hp \<mapsto> h, ?fp \<mapsto> ?f)" using m by (auto simp: element_store_def)
    have "points_ok F ?S ?mem1 ?hp ?fp (rm_highestLevel s) (uint (et_level x))"
    proof (rule points_ok_store [OF p sub el _ _ at'(1)])
      show "point_at F ?S ?f (uint (et_level x))" by (rule point_at_set [where l = l]) (use new(2,3) fall(1) hids(2) in simp_all)
      show "etid h \<noteq> etid ?f" if "BlockNumberIsValid (he_blkno h)"
        using in_S [OF at(1) that] new(1) by (auto simp: set_point_def etid_def)
    qed (use nh fall in \<open>simp_all add: element_store_def\<close>)
    moreover have "track_element b off etup first s = Inr (s\<lparr>rm_vs := ?vs\<lparr>vs_mem := ?mem1\<rparr>, rm_fallbackLevel := uint (et_level x)\<rparr>)"
      using fall m(3) et by (simp add: track_element_def Let_def element_update_def)
    ultimately show ?thesis using fall(1)
      by (intro exI [of _ ?mem1] exI [of _ "rm_highestLevel s"] exI [of _ "uint (et_level x)"]) simp
  next
    case high
    define f' where "f' = (if BlockNumberIsValid (he_blkno h) then set_point (he_blkno h) (he_offno h) (he_level h) f else f)"
    define fl where "fl = (if BlockNumberIsValid (he_blkno h) then rm_highestLevel s else rm_fallbackLevel s)"
    let ?h = "set_point b off (et_level x) h"
    define mem1 where "mem1 = ?mem\<lparr>mem_elems := (mem_elems ?mem)(?hp \<mapsto> ?h, ?fp \<mapsto> f')\<rparr>"
    have f': "point_at F ?S f' fl"
      using at' hids by (auto simp: f'_def fl_def point_at_def set_point_def etid_def split: if_splits)
    have fS: "etid f' \<in> S" if "BlockNumberIsValid (he_blkno f')"
      using that in_S [OF at(1)] in_S [OF at(2)] by (auto simp: f'_def set_point_def etid_def split: if_splits)
    have "points_ok F ?S mem1 ?hp ?fp (uint (et_level x)) fl"
    proof (rule points_ok_store [OF p sub, of _ ?h f'])
      show "point_at F ?S ?h (uint (et_level x))" by (rule point_at_set [where l = l]) (use new(2,3) high(1) hids(1) in simp_all)
      show "etid ?h \<noteq> etid f'" if "BlockNumberIsValid (he_blkno f')"
        using fS [OF that] new(1) by (auto simp: set_point_def etid_def)
      show "\<forall>t \<in> ?S. \<forall>x l. F t = Some (ETup x, l) \<longrightarrow> dead x" if "uint (et_level x) = -1"
        using that uint_ge_0 [of "et_level x"] by linarith
    qed (use f' in \<open>simp_all add: mem1_def\<close>)
    moreover have "track_element b off etup first s =
        Inr (s\<lparr>rm_vs := ?vs\<lparr>vs_mem := mem1\<rparr>, rm_highestLevel := uint (et_level x), rm_fallbackLevel := fl\<rparr>)"
    proof (cases "BlockNumberIsValid (he_blkno h)")
      case True
      have "element_store (element_store ?mem ?fp f') ?hp ?h = mem1"
        using m by (auto simp: element_store_def mem1_def fun_upd_twist)
      then show ?thesis using high m et True by (simp add: track_element_def Let_def element_update_def f'_def fl_def) (simp add: element_store_def)
    next
      case False
      have "(mem_elems ?mem)(?hp \<mapsto> ?h) = (mem_elems ?mem)(?hp \<mapsto> ?h, ?fp \<mapsto> f')" using m False by (auto simp: f'_def)
      then have "element_store ?mem ?hp ?h = mem1" by (simp add: element_store_def mem1_def)
      then show ?thesis using high m et False by (simp add: track_element_def Let_def element_update_def fl_def)
    qed
    ultimately show ?thesis using high(1)
      by (intro exI [of _ mem1] exI [of _ "uint (et_level x)"] exI [of _ fl]) simp
  qed
qed

subsection \<open>One tuple and one page\<close>

text \<open>The state of the vacuum when the TIDs \<open>S\<close> of the store \<open>\<sigma>\<close> have been visited; it started as \<open>vs0\<close>.\<close>

definition rem_inv ::
  "'v store \<Rightarrow> 'v HnswVacuumState \<Rightarrow> ItemPointerData set \<Rightarrow> 'v HnswVacuumState \<Rightarrow> int \<Rightarrow> int \<Rightarrow> bool" where
  "rem_inv \<sigma> vs0 S vs hl fl \<longleftrightarrow>
     (let cb = vs_callback vs0; F = vac_store cb \<sigma>; stats = vs_stats vs0 in
      vs = vs0\<lparr>vs_index := vs_index vs, vs_stats := vs_stats vs, vs_deleted := vs_deleted vs, vs_mem := vs_mem vs\<rparr> \<and>
      vs_deleted vs = {t \<in> S. \<exists>x l. F t = Some (ETup x, l) \<and> dead x} \<and>
      vs_stats vs = stats
        \<lparr>bd_tuples_removed := bd_tuples_removed stats + (\<Sum>t \<in> S. length (filter cb (heaps_at \<sigma> t))),
         bd_num_index_tuples := bd_num_index_tuples stats + (\<Sum>t \<in> S. length (filter (\<lambda>h. \<not> cb h) (heaps_at \<sigma> t)))\<rparr> \<and>
      points_ok F S (vs_mem vs) (vs_highestPoint vs0) (vs_fallbackPoint vs0) hl fl)"

lemma vacuum_frame:
  assumes "vs = vs0\<lparr>vs_index := vs_index vs, vs_stats := vs_stats vs, vs_deleted := vs_deleted vs, vs_mem := vs_mem vs\<rparr>"
  shows "vs\<lparr>vs_stats := a, vs_deleted := b, vs_mem := c\<rparr> = vs0\<lparr>vs_index := vs_index vs, vs_stats := a, vs_deleted := b, vs_mem := c\<rparr>"
    "vs\<lparr>vs_index := i\<rparr> = vs0\<lparr>vs_index := i, vs_stats := vs_stats vs, vs_deleted := vs_deleted vs, vs_mem := vs_mem vs\<rparr>"
  using assms by (cases vs; cases vs0; simp)+

lemma rem_invI:
  assumes "vs = vs0\<lparr>vs_index := vs_index vs, vs_stats := vs_stats vs, vs_deleted := vs_deleted vs, vs_mem := vs_mem vs\<rparr>"
    "vs_deleted vs = {t \<in> S. \<exists>x l. vac_store (vs_callback vs0) \<sigma> t = Some (ETup x, l) \<and> dead x}"
    "vs_stats vs = (vs_stats vs0)
      \<lparr>bd_tuples_removed := bd_tuples_removed (vs_stats vs0) + (\<Sum>t \<in> S. length (filter (vs_callback vs0) (heaps_at \<sigma> t))),
       bd_num_index_tuples := bd_num_index_tuples (vs_stats vs0) + (\<Sum>t \<in> S. length (filter (\<lambda>h. \<not> vs_callback vs0 h) (heaps_at \<sigma> t)))\<rparr>"
    "points_ok (vac_store (vs_callback vs0) \<sigma>) S (vs_mem vs) (vs_highestPoint vs0) (vs_fallbackPoint vs0) hl fl"
  shows "rem_inv \<sigma> vs0 S vs hl fl"
  using assms unfolding rem_inv_def Let_def by blast

lemma rem_invD:
  assumes "rem_inv \<sigma> vs0 S vs hl fl"
  shows "vs = vs0\<lparr>vs_index := vs_index vs, vs_stats := vs_stats vs, vs_deleted := vs_deleted vs, vs_mem := vs_mem vs\<rparr>"
    "vs_deleted vs = {t \<in> S. \<exists>x l. vac_store (vs_callback vs0) \<sigma> t = Some (ETup x, l) \<and> dead x}"
    "vs_stats vs = (vs_stats vs0)
      \<lparr>bd_tuples_removed := bd_tuples_removed (vs_stats vs0) + (\<Sum>t \<in> S. length (filter (vs_callback vs0) (heaps_at \<sigma> t))),
       bd_num_index_tuples := bd_num_index_tuples (vs_stats vs0) + (\<Sum>t \<in> S. length (filter (\<lambda>h. \<not> vs_callback vs0 h) (heaps_at \<sigma> t)))\<rparr>"
    "points_ok (vac_store (vs_callback vs0) \<sigma>) S (vs_mem vs) (vs_highestPoint vs0) (vs_fallbackPoint vs0) hl fl"
  using assms unfolding rem_inv_def Let_def by blast+

lemma rem_inv_same:
  assumes "rem_inv \<sigma> vs0 S vs hl fl"
  shows "vs_callback vs = vs_callback vs0" "vs_highestPoint vs = vs_highestPoint vs0" "vs_fallbackPoint vs = vs_fallbackPoint vs0"
    "vs_m vs = vs_m vs0" "vs_efConstruction vs = vs_efConstruction vs0" "vs_support vs = vs_support vs0"
  using assms unfolding rem_inv_def Let_def by (cases vs; cases vs0; simp)+

lemma points_ok_skip:
  assumes "points_ok F S mem hp fp hl fl" "\<And>x l. F t \<noteq> Some (ETup x, l)"
  shows "points_ok F (insert t S) mem hp fp hl fl"
proof -
  have "point_at F S e lev \<Longrightarrow> point_at F (insert t S) e lev" for e lev by (erule point_at_mono) blast
  with assms show ?thesis unfolding points_ok_def by blast
qed

lemma heaps_at_element:
  assumes "store_ok m \<sigma>" "\<sigma> t = Some (ETup e, l)"
  shows "heaps_at \<sigma> t = takeWhile ItemPointerIsValid (et_heaptids e)"
  using store_ok_elem [OF assms] assms(2) by (auto simp: heaps_at_def element_ok_def)

lemma store_ok_is_element:
  assumes "store_ok m \<sigma>" "\<sigma> t = Some (x, l)"
  shows "HnswIsElementTuple x \<longleftrightarrow> (\<exists>e. x = ETup e)"
proof (cases x)
  case (ETup e)
  then show ?thesis using store_ok_elem [OF assms(1)] assms(2) by (auto simp: HnswIsElementTuple_def element_ok_def)
next
  case (NTup n)
  then show ?thesis using store_ok_ntup [OF assms(1)] assms(2)
    by (auto simp: HnswIsElementTuple_def HNSW_ELEMENT_TUPLE_TYPE_def HNSW_NEIGHBOR_TUPLE_TYPE_def)
qed

lemma dead_first:
  assumes "length (et_heaptids e) = HNSW_HEAPTIDS"
  shows "array_get nm (et_heaptids e) 0 = Inr (et_heaptids e ! 0)" "ItemPointerIsValid (et_heaptids e ! 0) \<longleftrightarrow> \<not> dead e"
proof -
  have ne: "et_heaptids e \<noteq> []" using assms by (auto simp: HNSW_HEAPTIDS_def)
  then show "array_get nm (et_heaptids e) 0 = Inr (et_heaptids e ! 0)" by (simp add: array_get_def)
  show "ItemPointerIsValid (et_heaptids e ! 0) \<longleftrightarrow> \<not> dead e"
    using ne by (cases "et_heaptids e") (auto simp: dead_def)
qed

lemma remove_item_ok:
  assumes ok: "store_ok m \<sigma>" and inv: "rem_inv \<sigma> vs0 S (rm_vs s) (rm_highestLevel s) (rm_fallbackLevel s)"
    and new: "ItemPointerSet b off \<notin> S" "finite S" "\<sigma> (ItemPointerSet b off) = Some (x, l)" "BlockNumberIsValid b"
    and pg: "page_inv (rm_page s)" "off \<noteq> 0" "unat off \<le> length (pd_linp (rm_page s))"
      "page_tuples (rm_page s) ! (unat off - 1) = (x, l)"
  defines "cb \<equiv> vs_callback vs0"
  shows "\<exists>s'. remove_item b off s = Inr s' \<and>
    rem_inv \<sigma> vs0 (insert (ItemPointerSet b off) S) (rm_vs s') (rm_highestLevel s') (rm_fallbackLevel s') \<and>
    vs_index (rm_vs s') = vs_index (rm_vs s) \<and> page_inv (rm_page s') \<and>
    page_tuples (rm_page s') = (page_tuples (rm_page s))[unat off - 1 := (vac_item cb x, l)] \<and>
    pd_linp (rm_page s') = pd_linp (rm_page s) \<and> pd_special (rm_page s') = pd_special (rm_page s) \<and>
    pd_opaque (rm_page s') = pd_opaque (rm_page s) \<and>
    (\<not> rm_updated s' \<longrightarrow> \<not> rm_updated s \<and> vac_item cb x = x)"
proof -
  let ?t = "ItemPointerSet b off" and ?F = "vac_store cb \<sigma>" and ?vs = "rm_vs s"
  let ?S = "insert ?t S"
  have read: "PageGetTuple (rm_page s) off = Inr x" using pg by (simp add: PageGetTuple_Inr_iff)
  have tup: "(page_tuples (rm_page s))[unat off - 1 := (x, l)] = page_tuples (rm_page s)"
    using pg(4) by (metis list_update_id)
  have cb: "vs_callback ?vs = cb" "vs_highestPoint ?vs = vs_highestPoint vs0" "vs_fallbackPoint ?vs = vs_fallbackPoint vs0"
    using rem_inv_same [OF inv] by (simp_all add: cb_def)
  show ?thesis
  proof (cases x)
    case (NTup n)
    then have "remove_item b off s = Inr s" using read store_ok_is_element [OF ok new(3)] by (simp add: remove_item_def)
    moreover have "rem_inv \<sigma> vs0 ?S ?vs (rm_highestLevel s) (rm_fallbackLevel s)"
    proof -
      have Ft: "?F ?t = Some (NTup n, l)" using new(3) NTup by (simp add: vac_store_NTup)
      then have d: "{t \<in> ?S. \<exists>x l. ?F t = Some (ETup x, l) \<and> dead x} = {t \<in> S. \<exists>x l. ?F t = Some (ETup x, l) \<and> dead x}" by auto
      have h: "heaps_at \<sigma> ?t = []" using new(3) NTup by (simp add: heaps_at_def)
      show ?thesis
      proof (rule rem_invI [OF rem_invD(1) [OF inv]])
        show "points_ok (vac_store (vs_callback vs0) \<sigma>) ?S (vs_mem ?vs) (vs_highestPoint vs0) (vs_fallbackPoint vs0)
            (rm_highestLevel s) (rm_fallbackLevel s)"
          by (rule points_ok_skip [OF rem_invD(4) [OF inv]]) (use Ft in \<open>simp add: cb_def\<close>)
      qed (use rem_invD(2,3) [OF inv] d h new(1,2) in \<open>simp_all add: cb_def\<close>)
    qed
    ultimately show ?thesis using tup pg(1) NTup by simp
  next
    case (ETup e)
    have el: "element_ok m e" using store_ok_elem [OF ok] new(3) ETup by blast
    then obtain hs where hs: "remove_heaptids cb (et_heaptids e) = Inr hs" "vacuumed cb (et_heaptids e) hs"
      using remove_heaptids_ok [of "et_heaptids e"] unfolding element_ok_def by blast
    let ?e = "e\<lparr>et_heaptids := hs_tids hs\<rparr>"
    have vi: "vac_item cb x = ETup ?e" using hs(1) ETup by simp
    have Ft: "?F ?t = Some (ETup ?e, l)" using new(3) by (simp add: vac_store_def vi)
    obtain q where q: "PageSetTuple (rm_page s) off (ETup ?e) = Inr q" "page_inv q"
      "page_tuples q = (page_tuples (rm_page s))[unat off - 1 := (ETup ?e, snd (page_tuples (rm_page s) ! (unat off - 1)))]"
      "pd_linp q = pd_linp (rm_page s)" "pd_special q = pd_special (rm_page s)" "pd_opaque q = pd_opaque (rm_page s)"
      by (rule PageSetTuple_inv [OF pg(1-3)])
    let ?first = "hs_tids hs ! 0"
    have fst: "array_get ''heaptids'' (hs_tids hs) 0 = Inr ?first" "ItemPointerIsValid ?first \<longleftrightarrow> \<not> dead ?e"
      using dead_first [of ?e] hs(2) by (simp_all add: vacuumed_def)
    let ?st = "vs_stats ?vs"
    let ?s1 = "s\<lparr>rm_page := q, rm_updated := rm_updated s \<or> hs_updated hs,
      rm_vs := ?vs\<lparr>vs_stats := ?st\<lparr>bd_tuples_removed := bd_tuples_removed ?st + hs_removed hs,
        bd_num_index_tuples := bd_num_index_tuples ?st + hs_kept hs\<rparr>\<rparr>\<rparr>"
    have run: "remove_item b off s = track_element b off e ?first ?s1"
      using read store_ok_is_element [OF ok new(3)] ETup hs(1) q(1) fst(1) cb(1) by (simp add: remove_item_def Let_def array_get_def)
    have pts: "points_ok ?F S (vs_mem (rm_vs ?s1)) (vs_highestPoint (rm_vs ?s1)) (vs_fallbackPoint (rm_vs ?s1))
        (rm_highestLevel ?s1) (rm_fallbackLevel ?s1)"
      using inv cb unfolding rem_inv_def Let_def cb_def [symmetric] by simp
    obtain mem hl fl where t: "track_element b off e ?first ?s1 =
      Inr (?s1\<lparr>rm_vs := (rm_vs ?s1)\<lparr>vs_deleted := if dead ?e then insert ?t (vs_deleted (rm_vs ?s1)) else vs_deleted (rm_vs ?s1),
                                vs_mem := mem\<rparr>, rm_highestLevel := hl, rm_fallbackLevel := fl\<rparr>)"
      "points_ok ?F ?S mem (vs_highestPoint (rm_vs ?s1)) (vs_fallbackPoint (rm_vs ?s1)) hl fl"
      using track_element_ok [OF pts new(1) Ft new(4) _ fst(2), where etup = e] by auto
    let ?s2 = "?s1\<lparr>rm_vs := (rm_vs ?s1)\<lparr>vs_deleted := if dead ?e then insert ?t (vs_deleted (rm_vs ?s1)) else vs_deleted (rm_vs ?s1),
                                vs_mem := mem\<rparr>, rm_highestLevel := hl, rm_fallbackLevel := fl\<rparr>"
    have "rem_inv \<sigma> vs0 ?S (rm_vs ?s2) hl fl"
    proof -
      have d: "{t \<in> ?S. \<exists>x l. ?F t = Some (ETup x, l) \<and> dead x} =
          (if dead ?e then insert ?t {t \<in> S. \<exists>x l. ?F t = Some (ETup x, l) \<and> dead x} else {t \<in> S. \<exists>x l. ?F t = Some (ETup x, l) \<and> dead x})"
        using Ft by auto
      have h: "heaps_at \<sigma> ?t = takeWhile ItemPointerIsValid (et_heaptids e)" using heaps_at_element [OF ok] new(3) ETup by blast
      have c: "hs_removed hs = length (filter cb (heaps_at \<sigma> ?t))" "hs_kept hs = length (filter (\<lambda>h. \<not> cb h) (heaps_at \<sigma> ?t))"
        using hs(2) unfolding vacuumed_def h by simp_all
      note i = rem_invD [OF inv, folded cb_def]
      show ?thesis
      proof (rule rem_invI, fold cb_def)
        show "rm_vs ?s2 = vs0\<lparr>vs_index := vs_index (rm_vs ?s2), vs_stats := vs_stats (rm_vs ?s2),
            vs_deleted := vs_deleted (rm_vs ?s2), vs_mem := vs_mem (rm_vs ?s2)\<rparr>"
          using vacuum_frame(1) [OF i(1)] by simp
      qed (use i(2,3) d t(2) c cb(2,3) new(1,2) in simp_all)
    qed
    moreover have "vac_item cb x = x" if "\<not> hs_updated hs"
      using that hs(2) ETup unfolding vi vacuumed_def by simp
    ultimately show ?thesis using run t(1) q pg(4) vi by (intro exI [of _ ?s2]) auto
  qed
qed

lemma foldE_steps:
  assumes "P 0 s" "\<And>i s. i < length xs \<Longrightarrow> P i s \<Longrightarrow> (\<exists>err. f (xs ! i) s = Inl err \<and> Q err) \<or> (\<exists>s'. f (xs ! i) s = Inr s' \<and> P (Suc i) s')"
  shows "(\<exists>err. foldE f xs s = Inl err \<and> Q err) \<or> (\<exists>s'. foldE f xs s = Inr s' \<and> P (length xs) s')"
  using assms
proof (induction xs arbitrary: P s)
  case (Cons x xs)
  from Cons.prems(2) [of 0 s] Cons.prems(1) consider err where "f x s = Inl err" "Q err" | s1 where "f x s = Inr s1" "P 1 s1" by auto
  then show ?case
  proof cases
    case 1
    then show ?thesis by simp
  next
    case (2 s1)
    have "(\<exists>err. foldE f xs s1 = Inl err \<and> Q err) \<or> (\<exists>s'. foldE f xs s1 = Inr s' \<and> P (Suc (length xs)) s')"
    proof (rule Cons.IH [of "\<lambda>i. P (Suc i)"])
      show "P (Suc 0) s1" using 2(2) by simp
      show "(\<exists>err. f (xs ! i) s = Inl err \<and> Q err) \<or> (\<exists>s'. f (xs ! i) s = Inr s' \<and> P (Suc (Suc i)) s')"
        if "i < length xs" "P (Suc i) s" for i s
        using Cons.prems(2) [of "Suc i" s] that by simp
    qed
    with 2(1) show ?thesis by simp
  qed
qed simp

lemma finite_tids: "finite (A :: ItemPointerData set)"
proof -
  have "(\<lambda>(b, off). ItemPointerSet b off) ` (UNIV :: (BlockNumber \<times> OffsetNumber) set) = UNIV"
    by (auto simp: image_def) (metis ItemPointerSet_Get)
  moreover have "finite (UNIV :: (BlockNumber \<times> OffsetNumber) set)" by simp
  ultimately have "finite (UNIV :: ItemPointerData set)" using finite_imageI by metis
  then show ?thesis by (rule finite_subset [OF subset_UNIV])
qed

text \<open>The tuples of a page in the store.\<close>

lemma page_offsets_nth:
  assumes "page_inv page"
  shows "length (page_offsets page) = length (pd_linp page)"
    "i < length (pd_linp page) \<Longrightarrow> page_offsets page ! i = word_of_nat (Suc i)"
    "i < length (pd_linp page) \<Longrightarrow> unat (word_of_nat (Suc i) :: OffsetNumber) = Suc i"
proof -
  show "length (page_offsets page) = length (pd_linp page)"
    "i < length (pd_linp page) \<Longrightarrow> page_offsets page ! i = word_of_nat (Suc i)"
    using PageGetMaxOffsetNumber_inv [OF assms] by (simp_all add: page_offsets_def del: upt_Suc of_nat_Suc)
  show "unat (word_of_nat (Suc i) :: OffsetNumber) = Suc i" if "i < length (pd_linp page)"
    using that page_inv_linp_bound [OF assms] by (simp add: BLCKSZ_def unsigned_of_nat take_bit_nat_eq_self del: of_nat_Suc)
qed

lemma stored_nth:
  assumes "is_block index b" "page_inv (page_of index b)" "i < length (pd_linp (page_of index b))"
  shows "stored index (ItemPointerSet b (word_of_nat (Suc i))) = Some (page_tuples (page_of index b) ! i)"
proof -
  have u: "unat (word_of_nat (Suc i) :: OffsetNumber) = Suc i" by (rule page_offsets_nth(3) [OF assms(2,3)])
  then have "(word_of_nat (Suc i) :: OffsetNumber) \<noteq> 0" by (metis Zero_not_Suc unsigned_0)
  then show ?thesis unfolding stored_tuple [OF assms(1)] u using assms(3) by simp
qed

definition page_tids :: "BlockNumber \<Rightarrow> nat \<Rightarrow> ItemPointerData set" where
  "page_tids b i = (\<lambda>k. ItemPointerSet b (word_of_nat (Suc k))) ` {..<i}"

lemma page_tids_Suc: "page_tids b (Suc i) = insert (ItemPointerSet b (word_of_nat (Suc i))) (page_tids b i)"
  by (simp add: page_tids_def lessThan_Suc)

lemma page_tids_new:
  assumes "page_inv page" "i < length (pd_linp page)"
  shows "ItemPointerSet b (word_of_nat (Suc i)) \<notin> page_tids b i"
proof
  assume "ItemPointerSet b (word_of_nat (Suc i)) \<in> page_tids b i"
  then obtain k where k: "k < i" "(word_of_nat (Suc i) :: OffsetNumber) = word_of_nat (Suc k)"
    by (auto simp: page_tids_def simp del: of_nat_Suc)
  then have "unat (word_of_nat (Suc i) :: OffsetNumber) = unat (word_of_nat (Suc k) :: OffsetNumber)" by simp
  then show False using page_offsets_nth(3) [OF assms] page_offsets_nth(3) [OF assms(1), of k] k(1) assms(2) by simp
qed

lemma page_tids_block:
  assumes "is_block index b" "page_inv (page_of index b)"
  shows "page_tids b (length (pd_linp (page_of index b))) = {t. ItemPointerGetBlockNumber t = b \<and> stored index t \<noteq> None}"
proof (intro set_eqI iffI)
  fix t
  assume "t \<in> page_tids b (length (pd_linp (page_of index b)))"
  then show "t \<in> {t. ItemPointerGetBlockNumber t = b \<and> stored index t \<noteq> None}"
    using stored_nth [OF assms] by (auto simp: page_tids_def simp del: of_nat_Suc)
next
  fix t
  assume "t \<in> {t. ItemPointerGetBlockNumber t = b \<and> stored index t \<noteq> None}"
  then obtain off where t: "t = ItemPointerSet b off" "stored index (ItemPointerSet b off) \<noteq> None"
    by (metis (mono_tags, lifting) ItemPointerSet_Get mem_Collect_eq)
  then have off: "off \<noteq> 0" "unat off \<le> length (pd_linp (page_of index b))"
    by (auto simp: stored_tuple [OF assms(1)] split: if_splits)
  then have "off = word_of_nat (Suc (unat off - 1))" "unat off - 1 < length (pd_linp (page_of index b))"
    using unat_gt_0 [of off] by (simp, linarith)
  with t(1) show "t \<in> page_tids b (length (pd_linp (page_of index b)))"
    unfolding page_tids_def by (intro image_eqI [of _ _ "unat off - 1"]) (metis, simp)
qed

text \<open>The index when the blocks up to \<open>j\<close> have been processed.\<close>

definition removed_upto :: "'v relation \<Rightarrow> 'v HnswVacuumState \<Rightarrow> nat \<Rightarrow> 'v HnswVacuumState \<times> int \<times> int \<Rightarrow> bool" where
  "removed_upto index vs0 j = (\<lambda>(vs, hl, fl).
     keeps_pages index (vs_index vs) \<and>
     stored (vs_index vs) = (\<lambda>t. if unat (ItemPointerGetBlockNumber t) \<le> j then vac_store (vs_callback vs0) (stored index) t
       else stored index t) \<and>
     rem_inv (stored index) vs0 {t. stored index t \<noteq> None \<and> unat (ItemPointerGetBlockNumber t) \<le> j} vs hl fl)"

lemma remove_items_ok:
  fixes index :: "'v relation"
  assumes ok: "store_ok m (stored index)" and u: "removed_upto index vs0 j (vs, hl, fl)" and b: "is_block index b" "unat b = Suc j"
    and v: "BlockNumberIsValid b" and bk: "blocks_ok index"
  defines "page \<equiv> page_of (vs_index vs) b" and "cb \<equiv> vs_callback vs0"
  shows "\<exists>s'. foldE (remove_item b) (page_offsets page)
      \<lparr>rm_vs = vs, rm_page = page, rm_updated = False, rm_highestLevel = hl, rm_fallbackLevel = fl\<rparr> = Inr s' \<and>
    rem_inv (stored index) vs0 {t. stored index t \<noteq> None \<and> unat (ItemPointerGetBlockNumber t) \<le> Suc j} (rm_vs s')
      (rm_highestLevel s') (rm_fallbackLevel s') \<and>
    vs_index (rm_vs s') = vs_index vs \<and> page_inv (rm_page s') \<and>
    page_tuples (rm_page s') = map (map_prod (vac_item cb) id) (page_tuples page) \<and>
    pd_special (rm_page s') = pd_special page \<and> pd_opaque (rm_page s') = pd_opaque page \<and>
    (\<not> rm_updated s' \<longrightarrow> map (map_prod (vac_item cb) id) (page_tuples page) = page_tuples page)"
proof -
  let ?ix = "vs_index vs" and ?T = "page_tuples page" and ?n = "length (pd_linp page)" and ?f = "map_prod (vac_item cb) id"
  let ?S = "{t. stored index t \<noteq> None \<and> unat (ItemPointerGetBlockNumber t) \<le> j}"
  have k: "keeps_pages index ?ix" and inv: "rem_inv (stored index) vs0 ?S vs hl fl" using u by (simp_all add: removed_upto_def)
  have b': "is_block ?ix b" using k b(1) by (simp add: keeps_pages_block)
  have pinv: "page_inv page" using blocks_ok_page(1) [OF _ b'] k by (simp add: keeps_pages_def page_def)
  have same: "stored ?ix (ItemPointerSet b off) = stored index (ItemPointerSet b off)" for off
    using u b(2) by (simp add: removed_upto_def)
  have tup: "stored index (ItemPointerSet b (word_of_nat (Suc i))) = Some (?T ! i)" if "i < ?n" for i
    using stored_nth [OF b' pinv [unfolded page_def]] that same by (simp add: page_def del: of_nat_Suc)
  define P where "P i s \<longleftrightarrow> rem_inv (stored index) vs0 (?S \<union> page_tids b i) (rm_vs s) (rm_highestLevel s) (rm_fallbackLevel s) \<and>
      vs_index (rm_vs s) = ?ix \<and> page_inv (rm_page s) \<and> page_tuples (rm_page s) = map ?f (take i ?T) @ drop i ?T \<and>
      length (pd_linp (rm_page s)) = ?n \<and> pd_special (rm_page s) = pd_special page \<and> pd_opaque (rm_page s) = pd_opaque page \<and>
      (\<not> rm_updated s \<longrightarrow> map ?f (take i ?T) = take i ?T)" for i and s :: "'v remove_state"
  let ?s0 = "\<lparr>rm_vs = vs, rm_page = page, rm_updated = False, rm_highestLevel = hl, rm_fallbackLevel = fl\<rparr>"
  have "P 0 ?s0" using inv pinv by (simp add: P_def page_tids_def)
  moreover have "\<exists>s'. remove_item b (page_offsets page ! i) s = Inr s' \<and> P (Suc i) s'" if i: "i < length (page_offsets page)" and s: "P i s" for i s
  proof -
    have i': "i < ?n" using i page_offsets_nth(1) [OF pinv] by simp
    let ?off = "word_of_nat (Suc i) :: OffsetNumber" and ?x = "fst (?T ! i)" and ?l = "snd (?T ! i)"
    have o: "page_offsets page ! i = ?off" "unat ?off = Suc i" using page_offsets_nth(2,3) [OF pinv i'] .
    then have o0: "?off \<noteq> 0" by (metis Zero_not_Suc unsigned_0)
    have new: "ItemPointerSet b ?off \<notin> ?S \<union> page_tids b i" using page_tids_new [OF pinv i'] b(2) by (simp del: of_nat_Suc)
    have cur: "page_tuples (rm_page s) ! (unat ?off - 1) = (?x, ?l)"
      using s i' unfolding o(2) by (simp add: P_def nth_append)
    note st = s [unfolded P_def]
    obtain s' where s': "remove_item b ?off s = Inr s'"
      "rem_inv (stored index) vs0 (insert (ItemPointerSet b ?off) (?S \<union> page_tids b i)) (rm_vs s') (rm_highestLevel s') (rm_fallbackLevel s')"
      "vs_index (rm_vs s') = vs_index (rm_vs s)" "page_inv (rm_page s')"
      "page_tuples (rm_page s') = (page_tuples (rm_page s))[unat ?off - 1 := (vac_item cb ?x, ?l)]"
      "pd_linp (rm_page s') = pd_linp (rm_page s)" "pd_special (rm_page s') = pd_special (rm_page s)"
      "pd_opaque (rm_page s') = pd_opaque (rm_page s)" "\<not> rm_updated s' \<longrightarrow> \<not> rm_updated s \<and> vac_item cb ?x = ?x"
      using remove_item_ok [OF ok conjunct1 [OF st] new finite_tids _ v _ o0 _ cur] st tup [OF i'] o(2) i'
      unfolding cb_def [symmetric] by auto
    have tk: "take (Suc i) ?T = take i ?T @ [?T ! i]" using i' by (simp add: take_Suc_conv_app_nth)
    have fx: "?f (?T ! i) = (vac_item cb ?x, ?l)" by (cases "?T ! i") simp
    have "(map ?f (take i ?T) @ drop i ?T)[i := (vac_item cb ?x, ?l)] = map ?f (take (Suc i) ?T) @ drop (Suc i) ?T"
      using i' by (simp add: tk fx list_update_append flip: Cons_nth_drop_Suc)
    then have "page_tuples (rm_page s') = map ?f (take (Suc i) ?T) @ drop (Suc i) ?T"
      using s'(5) st unfolding o(2) by simp
    moreover have "map ?f (take (Suc i) ?T) = take (Suc i) ?T" if "\<not> rm_updated s'"
      using that s'(9) st unfolding tk map_append by (simp add: fx)
    ultimately have "P (Suc i) s'" using s' st unfolding P_def page_tids_Suc by simp
    with s'(1) show ?thesis unfolding o(1) by blast
  qed
  ultimately obtain s' where s': "foldE (remove_item b) (page_offsets page) ?s0 = Inr s'" "P (length (page_offsets page)) s'"
    using foldE_steps [of P ?s0 "page_offsets page" "remove_item b" "\<lambda>_. False"] by blast
  have "{t. ItemPointerGetBlockNumber t = b \<and> stored ?ix t \<noteq> None} = {t. ItemPointerGetBlockNumber t = b \<and> stored index t \<noteq> None}"
    using same by (metis ItemPointerSet_Get)
  then have pt: "page_tids b ?n = {t. ItemPointerGetBlockNumber t = b \<and> stored index t \<noteq> None}"
    using page_tids_block [OF b' pinv [unfolded page_def]] by (simp add: page_def)
  have "?S \<union> page_tids b ?n = {t. stored index t \<noteq> None \<and> unat (ItemPointerGetBlockNumber t) \<le> Suc j}"
    unfolding pt using b(2) by (auto simp: le_Suc_eq word_unat_eq_iff)
  with s' show ?thesis unfolding P_def page_offsets_nth(1) [OF pinv] by auto
qed

lemma rem_inv_index: "rem_inv \<sigma> vs0 S vs hl fl \<Longrightarrow> rem_inv \<sigma> vs0 S (vs\<lparr>vs_index := i\<rparr>) hl fl"
  using vacuum_frame(2) [OF rem_invD(1)] rem_invD(2-4) by (intro rem_invI) simp_all

lemma page_next_chain:
  assumes "chain_ok index" "j < length (rd_blocks index)" "unat b = Suc j"
  shows "po_nextblkno (pd_opaque (page_of index b)) =
    (if Suc j < length (rd_blocks index) then word_of_nat (j + 2) else InvalidBlockNumber)"
  using assms by (simp add: chain_ok_def page_next_def page_of_def)

lemma remove_page_ok:
  fixes index :: "'v relation"
  assumes ok: "store_ok m (stored index)" "blocks_ok index" "chain_ok index" and u: "removed_upto index vs0 j (vs, hl, fl)"
    and j: "j < length (rd_blocks index)"
  shows "\<exists>s'. remove_page (word_of_nat (Suc j)) (vs, hl, fl) =
      Inr (if Suc j < length (rd_blocks index) then word_of_nat (j + 2) else InvalidBlockNumber, s') \<and>
    removed_upto index vs0 (Suc j) s'"
proof -
  let ?b = "word_of_nat (Suc j) :: BlockNumber" and ?ix = "vs_index vs" and ?F = "vac_store (vs_callback vs0) (stored index)"
  let ?f = "map_prod (vac_item (vs_callback vs0)) id"
  have n: "Suc j < 2 ^ 32 - 1" using ok(2) j by (simp add: blocks_ok_def)
  note ub = block_of_nat [OF n]
  have b: "is_block index ?b" using ub(1) j by (simp add: is_block_def del: of_nat_Suc)
  have k: "keeps_pages index ?ix" using u by (simp add: removed_upto_def)
  have b': "is_block ?ix ?b" using k b by (simp add: keeps_pages_block)
  let ?page = "page_of ?ix ?b"
  obtain s where s: "foldE (remove_item ?b) (page_offsets ?page)
      \<lparr>rm_vs = vs, rm_page = ?page, rm_updated = False, rm_highestLevel = hl, rm_fallbackLevel = fl\<rparr> = Inr s"
    "rem_inv (stored index) vs0 {t. stored index t \<noteq> None \<and> unat (ItemPointerGetBlockNumber t) \<le> Suc j} (rm_vs s)
      (rm_highestLevel s) (rm_fallbackLevel s)"
    "vs_index (rm_vs s) = ?ix" "page_inv (rm_page s)" "page_tuples (rm_page s) = map ?f (page_tuples ?page)"
    "pd_special (rm_page s) = pd_special ?page" "pd_opaque (rm_page s) = pd_opaque ?page"
    "\<not> rm_updated s \<longrightarrow> map ?f (page_tuples ?page) = page_tuples ?page"
    using remove_items_ok [OF ok(1) u b ub(1,2) ok(2)] by blast
  let ?w = "WriteBuffer ?ix ?b (rm_page s)"
  let ?vs = "if rm_updated s then (rm_vs s)\<lparr>vs_index := ?w\<rparr> else rm_vs s"
  have old: "stored ?ix t = (if unat (ItemPointerGetBlockNumber t) \<le> j then ?F t else stored index t)" for t
    using u by (simp add: removed_upto_def)
  have kw: "keeps_pages ?ix ?w" by (rule write_page [OF _ b' s(4,6,7)]) (use k in \<open>simp add: keeps_pages_def\<close>)
  have at_b: "?F (ItemPointerSet ?b off) = (if off = 0 \<or> length (pd_linp ?page) < unat off then None
      else Some (map ?f (page_tuples ?page) ! (unat off - 1)))" for off
  proof -
    have "stored index (ItemPointerSet ?b off) = stored ?ix (ItemPointerSet ?b off)"
      unfolding old using ub(1) by (simp del: of_nat_Suc)
    then have "stored index (ItemPointerSet ?b off) = (if off = 0 \<or> length (pd_linp ?page) < unat off then None
        else Some (page_tuples ?page ! (unat off - 1)))" unfolding stored_tuple [OF b'] .
    moreover have "unat off - 1 < length (page_tuples ?page)" if "off \<noteq> 0" "\<not> length (pd_linp ?page) < unat off"
      using that unat_gt_0 [of off] unfolding length_page_tuples by linarith
    ultimately show ?thesis by (simp add: vac_store_def del: length_page_tuples)
  qed
  have st: "stored (vs_index ?vs) (ItemPointerSet b' off) =
      (if unat b' \<le> Suc j then ?F (ItemPointerSet b' off) else stored index (ItemPointerSet b' off))" for b' off
  proof -
    have w: "stored ?w (ItemPointerSet b' off) = (if b' = ?b then ?F (ItemPointerSet b' off) else stored ?ix (ItemPointerSet b' off))"
      using WriteBuffer_stored [OF b' s(5), of b' off] at_b [of off] by (simp del: of_nat_Suc)
    have nw: "stored ?ix (ItemPointerSet ?b off) = ?F (ItemPointerSet ?b off)" if "\<not> rm_updated s"
      using at_b [of off] s(8) that unfolding stored_tuple [OF b'] by simp
    have "unat b' \<le> Suc j \<longleftrightarrow> unat b' \<le> j \<or> b' = ?b" using ub(1) by (auto simp: le_Suc_eq word_unat_eq_iff simp del: of_nat_Suc)
    then show ?thesis using w nw s(3) old [of "ItemPointerSet b' off"] by (auto simp del: of_nat_Suc)
  qed
  have "removed_upto index vs0 (Suc j) (?vs, rm_highestLevel s, rm_fallbackLevel s)"
  proof -
    have "stored (vs_index ?vs) t = (if unat (ItemPointerGetBlockNumber t) \<le> Suc j then ?F t else stored index t)" for t
      using st [of "ItemPointerGetBlockNumber t" "ItemPointerGetOffsetNumber t"] by simp
    moreover have "keeps_pages index (vs_index ?vs)" using k kw keeps_pages_trans s(3) by auto
    moreover have "rem_inv (stored index) vs0 {t. stored index t \<noteq> None \<and> unat (ItemPointerGetBlockNumber t) \<le> Suc j} ?vs
        (rm_highestLevel s) (rm_fallbackLevel s)"
      using s(2) rem_inv_index [OF s(2)] by simp
    ultimately show ?thesis unfolding removed_upto_def by (simp add: fun_eq_iff)
  qed
  moreover have "po_nextblkno (pd_opaque ?page) = (if Suc j < length (rd_blocks index) then word_of_nat (j + 2) else InvalidBlockNumber)"
    using page_next_chain [of ?ix j ?b] k ok(3) j ub(1) by (simp add: keeps_pages_def del: of_nat_Suc)
  moreover have "remove_page ?b (vs, hl, fl) = Inr (po_nextblkno (pd_opaque ?page), ?vs, rm_highestLevel s, rm_fallbackLevel s)"
    using s(1,3,7) by (simp add: remove_page_def ReadBuffer_block [OF b'] Let_def del: of_nat_Suc)
  ultimately show ?thesis by (intro exI [of _ "(?vs, rm_highestLevel s, rm_fallbackLevel s)"] conjI) (simp only:)
qed

text \<open>The whole pass.\<close>

lemma RemoveHeapTids_ok:
  fixes vs :: "'v HnswVacuumState"
  assumes g: "graph_ok (vs_index vs)" and mem: "mem_ok (vs_mem vs)" "dom (mem_elems (vs_mem vs)) = {vs_highestPoint vs, vs_fallbackPoint vs}"
      "vs_highestPoint vs \<noteq> vs_fallbackPoint vs" "\<forall>e \<in> ran (mem_elems (vs_mem vs)). he_heaptids e = []"
    and d: "vs_deleted vs = {}"
  defines "\<sigma> \<equiv> stored (vs_index vs)"
  shows "\<exists>vs1 hl fl. RemoveHeapTids vs = Some (Inr vs1) \<and> keeps_pages (vs_index vs) (vs_index vs1) \<and>
    stored (vs_index vs1) = vac_store (vs_callback vs) \<sigma> \<and> rem_inv \<sigma> vs {t. \<sigma> t \<noteq> None} vs1 hl fl"
proof -
  let ?ix = "vs_index vs" and ?hp = "vs_highestPoint vs" and ?fp = "vs_fallbackPoint vs" and ?n = "length (rd_blocks (vs_index vs))"
  let ?unset = "\<lambda>e. e\<lparr>he_blkno := InvalidBlockNumber, he_offno := InvalidOffsetNumber\<rparr> :: 'v HnswElementData"
  note ok = graph_okD [OF g]
  obtain h f where hf: "mem_elems (vs_mem vs) ?hp = Some h" "mem_elems (vs_mem vs) ?fp = Some f" using mem(2) by (metis domD insertCI)
  have ids: "he_heaptids h = []" "he_heaptids f = []" using mem(4) hf by (auto simp: ran_def)
  let ?mem = "element_store (element_store (vs_mem vs) ?hp (?unset h)) ?fp (?unset f)"
  have m: "bindE (element_update (vs_mem vs) ?hp ?unset) (\<lambda>mem1. element_update mem1 ?fp ?unset) = Inr ?mem"
    using hf mem(3) by (simp add: element_update_def element_store_def)
  have pts: "points_ok F {} ?mem ?hp ?fp (-1) (-1)" for F
  proof -
    have el: "mem_elems ?mem = (mem_elems (vs_mem vs))(?hp \<mapsto> ?unset h, ?fp \<mapsto> ?unset f)" by (simp add: element_store_def)
    have "mem_ok ?mem" using element_store_ok [OF element_store_ok [OF mem(1)]] hf mem(3) by (simp add: element_store_def)
    moreover have "dom (mem_elems ?mem) = {?hp, ?fp}" using mem(2) unfolding el by auto
    ultimately show ?thesis using ids mem(3) unfolding points_ok_def el by (simp add: point_at_def BlockNumberIsValid_def)
  qed
  have e0: "{t. stored ?ix t \<noteq> None \<and> unat (ItemPointerGetBlockNumber t) \<le> 0} = {}"
    using stored_block(1) [of ?ix] by (fastforce simp: is_block_def)
  let ?vs = "vs\<lparr>vs_mem := ?mem\<rparr>"
  have r0: "rem_inv (stored ?ix) vs {} ?vs (-1) (-1)" by (rule rem_invI) (use pts d in simp_all)
  have start: "removed_upto ?ix vs 0 (?vs, -1, -1)"
  proof -
    have "stored ?ix t = (if unat (ItemPointerGetBlockNumber t) \<le> 0 then vac_store (vs_callback vs) (stored ?ix) t else stored ?ix t)" for t
    proof (cases "unat (ItemPointerGetBlockNumber t) \<le> 0")
      case True
      then have "stored ?ix t = None" using e0 by blast
      then show ?thesis by (simp add: vac_store_def)
    qed simp
    then have "stored ?ix = (\<lambda>t. if unat (ItemPointerGetBlockNumber t) \<le> 0 then vac_store (vs_callback vs) (stored ?ix) t
      else stored ?ix t)" by (rule ext)
    with r0 keeps_pages_refl [OF ok(1)] show ?thesis
      unfolding removed_upto_def e0 prod.case by (simp del: le_zero_eq)
  qed
  have n: "?n < 2 ^ 32 - 1" "0 < ?n" using ok(1,2) by (auto simp: blocks_ok_def chain_ok_def)
  have step: "(\<exists>e. remove_page (word_of_nat (Suc j)) s = Inl e \<and> False) \<or>
      (\<exists>s'. remove_page (word_of_nat (Suc j)) s = Inr (if Suc j < ?n then word_of_nat (j + 2) else InvalidBlockNumber, s') \<and>
        removed_upto ?ix vs (Suc j) s')" if s: "removed_upto ?ix vs j s" and j: "j < ?n" for j s
  proof -
    obtain vs1 hl fl where "s = (vs1, hl, fl)" by (rule prod_cases3)
    with remove_page_ok [OF ok(3,1,2) _ j] s show ?thesis by blast
  qed
  obtain s where s: "page_walk remove_page (word_of_nat (Suc 0)) (?vs, -1, -1) = Some (Inr s)" "removed_upto ?ix vs ?n s"
    using page_walk_chain [where step = remove_page and P = "removed_upto ?ix vs" and Q = "\<lambda>_. False", OF n(1) start n(2) step]
    by blast
  obtain vs1 hl fl where s': "s = (vs1, hl, fl)" by (cases s) auto
  have far: "stored ?ix t = None" if "\<not> unat (ItemPointerGetBlockNumber t) \<le> ?n" for t
    using that by (simp add: stored_def Let_def)
  have u: "keeps_pages ?ix (vs_index vs1)" "stored (vs_index vs1) =
      (\<lambda>t. if unat (ItemPointerGetBlockNumber t) \<le> ?n then vac_store (vs_callback vs) (stored ?ix) t else stored ?ix t)"
    "rem_inv (stored ?ix) vs {t. stored ?ix t \<noteq> None \<and> unat (ItemPointerGetBlockNumber t) \<le> ?n} vs1 hl fl"
    using s(2) unfolding s' removed_upto_def prod.case by blast+
  have "stored (vs_index vs1) t = vac_store (vs_callback vs) (stored ?ix) t" for t
  proof (cases "unat (ItemPointerGetBlockNumber t) \<le> ?n")
    case True
    then show ?thesis unfolding u(2) by (rule if_P)
  next
    case False
    from far [OF False] show ?thesis unfolding u(2) if_not_P [OF False] by (simp only: vac_store_def option.map)
  qed
  then have st: "stored (vs_index vs1) = vac_store (vs_callback vs) \<sigma>" unfolding \<sigma>_def by (rule ext)
  have S: "{t. stored ?ix t \<noteq> None \<and> unat (ItemPointerGetBlockNumber t) \<le> ?n} = {t. \<sigma> t \<noteq> None}"
  proof (rule Collect_cong)
    show "stored ?ix t \<noteq> None \<and> unat (ItemPointerGetBlockNumber t) \<le> ?n \<longleftrightarrow> \<sigma> t \<noteq> None" for t
      using far [of t] unfolding \<sigma>_def by argo
  qed
  have "RemoveHeapTids vs = Some (Inr vs1)"
    using s(1) unfolding RemoveHeapTids_def Let_def m bindO_simps s' HNSW_HEAD_BLKNO_def by simp
  then show ?thesis using u(1) st u(3) [unfolded S, folded \<sigma>_def] by blast
qed

text \<open>What the pass means for the entries of the index.\<close>

lemma vac_entries:
  assumes ok: "store_ok m (stored index)" and st: "stored index' = vac_store cb (stored index)"
  shows "entries index' = {x \<in> entries index. \<not> cb (fst x)}"
proof -
  have te: "tuple_entries e' = {x \<in> tuple_entries e. \<not> cb (fst x)}" if "vac_etup cb e e'" for e e'
    using vac_etup_same(5,6) [OF that] by (auto simp: tuple_entries_def)
  have "\<exists>e'. vac_etup cb e e'" if "live_in (stored index) t e" for t e
    using that vac_etup_ex [OF store_ok_elem [OF ok]] by (auto simp: live_in_def)
  then show ?thesis unfolding entries_alt st vac_store_live [OF ok] using te by blast
qed

lemma RemoveHeapTids_graph:
  assumes g: "graph_ok index" and k: "keeps_pages index index'" and st: "stored index' = vac_store cb (stored index)"
  shows "graph_ok index'"
proof -
  note ok = graph_okD [OF g]
  have meta: "rd_meta index' = rd_meta index" using k same_relation_fields(5) by (auto simp: keeps_pages_def)
  have "meta_ok index'"
  proof (rule meta_ok_live [OF ok(4) meta])
    show "\<exists>e'. live_in (stored index') t e' \<and> et_level e' = et_level e" if e: "live_in (stored index) t e" for t e
    proof -
      obtain l where "stored index t = Some (ETup e, l)" using e by (auto simp: live_in_def)
      from vac_etup_ex [OF store_ok_elem [OF ok(3) this]] obtain e' where "vac_etup cb e e'" ..
      with e vac_etup_same(2) show ?thesis unfolding st vac_store_live [OF ok(3)] by blast
    qed
  qed (use k in \<open>simp add: keeps_pages_def\<close>)
  moreover have "store_ok (index_m index') (stored index')" unfolding st meta by (rule vac_store_ok [OF ok(3)])
  ultimately show ?thesis using k ok(2) by (simp add: graph_ok_def keeps_pages_def)
qed

end
