(* ===== verification/Spec2Isabelle.thy ===== *)
theory Spec2Isabelle
  imports Storage_Properties Search_Properties Example_Graph Hnsw_Build_Correct Hnsw_Vacuum_Remove
begin

text \<open>
  A verification of the HNSW index of pgvector (\<^verbatim>\<open>src/pgvector/src\<close>) with the scan instrumentation this
  repository adds to it (\<^verbatim>\<open>hnsw.trace\<close>), and of the PostgreSQL routines the index rests on.

  \<^bold>\<open>The program.\<close> An HNSW index stores elements (a vector, up to ten heap TIDs, a level) and for each element a
  neighbor tuple with the TIDs of its connections per layer, in pages linked from block 1 on; block 0 holds the
  metapage with the entry point. \<^verbatim>\<open>hnswbuild\<close> builds the graph in memory and writes it out, \<^verbatim>\<open>hnswinsert\<close> adds an
  element, \<^verbatim>\<open>hnswgettuple\<close> returns heap TIDs by distance, \<^verbatim>\<open>hnswbulkdelete\<close> removes heap TIDs, repairs the graph
  around the elements that lost all of them and marks these deleted, so that their place can be used again. All
  of them search layers with \<^verbatim>\<open>HnswSearchLayer\<close>, which keeps its candidates in pairing heaps.

  \<^bold>\<open>Conventions.\<close> A C function is a HOL function of the same name. \<^verbatim>\<open>ereport\<close>/\<^verbatim>\<open>elog\<close>, a failed assertion or
  allocation, and every access outside an array, page, tuple or allocated object are values \<open>Inl e\<close> of the result
  type \<open>pg_error + 'a\<close> (theory \<open>Prelude\<close>), so a theorem that a function returns \<open>Inr\<close> says that none of them
  happens. Loops over the page chain, which a cyclic chain would keep running, are \<open>partial_function (option)\<close>
  with \<open>None\<close> for not returning. All other loops are total functions with a termination proof; there is no fuel.
  Block and offset numbers, TIDs, levels, counts and floating-point values are words of their C width. The values
  (vectors), their distance and normalization functions and their size are parameters of the index
  (\<open>rd_distance_proc\<close> and others in \<open>Hnsw_Types\<close>), because the access method gets them from an operator class.
  Memory for elements comes from an allocator with arbitrary distinct addresses that may fail
  (\<open>out_of_memory\<close>). The clock and the buffer counters of a traced scan are arguments.

  \<^bold>\<open>Theories.\<close>
  \<^item> \<open>Prelude\<close>: the result type, loops that may raise, bounds-checked arrays.
  \<^item> \<open>Pairing_Heap\<close>: \<^verbatim>\<open>lib/pairingheap.c\<close>; the locale \<open>ph_comparator\<close> is the contract of a comparator, interpreted
    for both comparators of the search in \<open>Hnsw_Search_Correct\<close>.
  \<^item> \<open>Float_Format\<close>, \<open>Float_Arith\<close>: binary32 and binary64 as words, comparison, narrowing, arithmetic.
  \<^item> \<open>Pg_Base\<close>, \<open>Page\<close>: block numbers, TIDs, and \<^verbatim>\<open>bufpage.c\<close> with the invariant of a page.
  \<^item> \<open>Hnsw_Types\<close>, \<open>Hnsw_Trace\<close>, \<open>Hnsw_Storage\<close>: \<^verbatim>\<open>hnsw.h\<close>, the trace counters of \<^verbatim>\<open>hnsw.c\<close> (the locale \<open>page_log\<close>
    is interpreted for element and neighbor pages), metapage and tuples from \<^verbatim>\<open>hnswutils.c\<close>.
  \<^item> \<open>Hnsw_Search\<close>, \<open>Hnsw_Search_Correct\<close>: \<^verbatim>\<open>HnswSearchLayer\<close> and its invariant.
  \<^item> \<open>Hnsw_Neighbors\<close>, \<open>Hnsw_Select_Correct\<close>: \<^verbatim>\<open>SelectNeighbors\<close>, \<^verbatim>\<open>HnswUpdateConnection\<close>, \<^verbatim>\<open>HnswFindElementNeighbors\<close>;
    equivalence of the cached selection with the heuristic.
  \<^item> \<open>Hnsw_Scan\<close>, \<open>Hnsw_Scan_Correct\<close>: \<^verbatim>\<open>hnswscan.c\<close>; invariant of a scan over any sequence of calls.
  \<^item> \<open>Hnsw_Trace_Transparent\<close>: a traced search or scan compared step by step with the untraced one (\<open>agrees\<close>).
  \<^item> \<open>Page_Walk\<close>, \<open>Hnsw_Insert\<close>, \<open>Hnsw_Vacuum\<close>, \<open>Hnsw_Build\<close>: \<^verbatim>\<open>hnswinsert.c\<close>, \<^verbatim>\<open>hnswvacuum.c\<close>, and \<^verbatim>\<open>hnswbuild.c\<close>
    without the parallel part.
  \<^item> \<open>Index_Store\<close>, \<open>Hnsw_Graph\<close>: an index as a map from TIDs to tuples (\<open>stored\<close>), the invariant \<open>graph_ok\<close> of the
    stored graph, and its abstraction \<open>entries\<close>, the set of heap TIDs with their values.
  \<^item> \<open>Hnsw_Insert_Correct\<close>, \<open>Hnsw_Connect\<close>, \<open>Hnsw_Update_Correct\<close>, \<open>Hnsw_Insert_Refine\<close>: storing a new element, finding its
    neighbors (in each layer those the heuristic chooses), linking them back and moving the entry point keep \<open>graph_ok\<close>, so that \<^verbatim>\<open>hnswinsert\<close> adds one entry.
  \<^item> \<open>Hnsw_Build_Correct\<close>, \<open>Hnsw_Vacuum_Remove\<close>: the empty index is well-formed; the first pass of a vacuum filters the entries.
  \<^item> \<open>Example_Index\<close>, \<open>Example_Graph\<close>, \<open>Example_Scan\<close>: a two-element index, its stored graph and a scan of it, the
    concrete inputs of the witnesses.
  \<^item> \<open>Storage_Properties\<close>, \<open>Search_Properties\<close> and the sections below: the properties, each followed by an instance.

  \<^bold>\<open>Modelled without a theorem.\<close> The later passes of a vacuum (\<^verbatim>\<open>RepairGraph\<close>, \<^verbatim>\<open>ConfirmRepaired\<close>, \<^verbatim>\<open>MarkDeleted\<close>) and the
  in-memory phase of a build.

  \<^bold>\<open>Not modelled.\<close> Locks, WAL and concurrent sessions (each operation runs alone); the parallel build; the
  registration of the access method, its options and its cost estimate; the vector types and their distance
  functions; the IVFFlat index; the rest of the server.
\<close>

section \<open>Building and inserting\<close>

text \<open>
  C11. The index \<^verbatim>\<open>hnswbuildempty\<close> writes (the init fork of an unlogged table) is well-formed and has no entries: whenever the checks of
  \<^verbatim>\<open>InitBuildState\<close> pass and the parameter \<^verbatim>\<open>m\<close> lies within the bounds of the index option, the build returns.
\<close>

theorem hnswbuildempty_well_formed:
  assumes "rd_blocks index = []" "HNSW_MIN_M \<le> HnswGetM index" "HnswGetM index \<le> HNSW_MAX_M"
    and "InitBuildState index typmod isvarbit mwm mem = Inr bs"
  shows "\<exists>index'. hnswbuildempty index typmod isvarbit mwm mem = Some (Inr index') \<and> graph_ok index' \<and> entries index' = {}"
  using hnswbuildempty_ok [OF assms] by blast

definition ex_new :: "int relation" where
  "ex_new = ex_index\<lparr>rd_blocks := []\<rparr>"

lemma ex_new_init: "\<exists>bs. InitBuildState ex_new 3 False 1024 ex_memory = Inr bs"
  by (simp add: InitBuildState_def ex_new_def ex_index_def HnswGetTypeInfo_def HnswGetM_def HnswGetEfConstruction_def
      HNSW_DEFAULT_EF_CONSTRUCTION_def HNSW_DEFAULT_M_def HNSW_MAX_DIM_def)

lemma ex_new_m: "HNSW_MIN_M \<le> HnswGetM ex_new" "HnswGetM ex_new \<le> HNSW_MAX_M" "rd_blocks ex_new = []"
  by (simp_all add: ex_new_def ex_index_def HnswGetM_def HNSW_DEFAULT_M_def HNSW_MIN_M_def HNSW_MAX_M_def)

theorem hnswbuildempty_well_formed_witness:
  "\<exists>index'. hnswbuildempty ex_new 3 False 1024 ex_memory = Some (Inr index') \<and> graph_ok index' \<and> entries index' = {}"
  using hnswbuildempty_well_formed [OF ex_new_m(3,1,2)] ex_new_init by blast

text \<open>
  C2. Inserting a tuple (\<^verbatim>\<open>hnswinsert\<close>) into a well-formed index ends, and unless memory runs out or the relation has reached its
  maximal size it returns an index that is well-formed again and whose entries are the old ones and the new heap TID with its
  formed value. This holds for a duplicate added to an element with an equal value, for a reclaimed element, and for new
  tuples on old or new pages. The distance function is defined and not NaN on the stored values and the new one.
\<close>

theorem hnswinsert_adds_entry:
  assumes "graph_ok index" "mem_ok mem" "mem_values index mem" "0 \<le> lev" "ItemPointerIsValid heap_tid"
    and "HnswFormIndexValue v (HnswGetTypeInfo index) (HnswInitSupport index) = Inr (Some v')"
    and "num_dist (HnswInitSupport index) (insert v' (values_in index))" "0 < HnswGetEfConstruction index"
    and "fits_page index v'"
  shows "(\<exists>err. hnswinsert index (Some v) heap_tid lev mem = Some (Inl err) \<and> resource_error err) \<or>
    (\<exists>index'. hnswinsert index (Some v) heap_tid lev mem = Some (Inr (False, index')) \<and> graph_ok index' \<and>
       entries index' = insert (heap_tid, v') (entries index))"
  using hnswinsert_ok [OF assms] unfolding inserts_def by blast

lemma ex_num_dist: "num_dist (HnswInitSupport ex_index) V"
  by (auto simp: num_dist_def HnswGetDistance_def HnswInitSupport_def ex_index_def ex_distance_def float8_isnan_def fisnan_def
      fmag_def finf_def)

lemma mem_values_empty: "mem_elems mem = Map.empty \<Longrightarrow> mem_values index mem"
  by (simp add: mem_values_def)

theorem hnswinsert_adds_entry_witness:
  "\<exists>index index'. hnswbuildempty ex_new 3 False 1024 ex_memory = Some (Inr index) \<and>
     hnswinsert index (Some 30) (ItemPointerSet 0 5) 0 ex_memory = Some (Inr (False, index')) \<and>
     graph_ok index' \<and> entries index' = {(ItemPointerSet 0 5, 30)}"
proof -
  obtain bs where bs: "InitBuildState ex_new 3 False 1024 ex_memory = Inr bs" using ex_new_init ..
  obtain index where ix: "hnswbuildempty ex_new 3 False 1024 ex_memory = Some (Inr index)" "graph_ok index" "entries index = {}"
    "index = ex_new\<lparr>rd_meta := rd_meta index, rd_blocks := rd_blocks index\<rparr>"
    using hnswbuildempty_ok [OF ex_new_m(3,1,2) bs] by blast
  have same: "rd_options index = None" "HnswInitSupport index = HnswInitSupport ex_index" "rd_varsize index = (\<lambda>_. 8)"
    "HnswGetTypeInfo index = HnswGetTypeInfo ex_index"
    by (subst ix(4), simp add: ex_new_def ex_index_def HnswInitSupport_def HnswGetTypeInfo_def)+
  have "HnswFormIndexValue 30 (HnswGetTypeInfo index) (HnswInitSupport index) = Inr (Some 30)"
    unfolding same by (simp add: HnswFormIndexValue_def ex_index_def HnswInitSupport_def HnswGetTypeInfo_def)
  moreover have "mem_values index ex_memory" by (rule mem_values_empty) (simp add: ex_memory_def)
  moreover have "0 < HnswGetEfConstruction index" using same(1) by (simp add: HnswGetEfConstruction_def HNSW_DEFAULT_EF_CONSTRUCTION_def)
  moreover have "fits_page index 30" using same(3)
    by (simp add: fits_page_def HNSW_ELEMENT_TUPLE_SIZE_def HNSW_MAX_SIZE_eq hnsw_size_defs MAXALIGN_def)
  ultimately have "(\<exists>err. hnswinsert index (Some 30) (ItemPointerSet 0 5) 0 ex_memory = Some (Inl err) \<and> resource_error err) \<or>
      (\<exists>index'. hnswinsert index (Some 30) (ItemPointerSet 0 5) 0 ex_memory = Some (Inr (False, index')) \<and> graph_ok index' \<and>
         entries index' = insert (ItemPointerSet 0 5, 30) (entries index))"
    by (intro hnswinsert_adds_entry) (use ix(2) ex_memory_ok ex_num_dist same(2) in simp_all)
  moreover have "(case hnswbuildempty ex_new 3 False 1024 ex_memory of
      Some (Inr ix) \<Rightarrow> (case hnswinsert ix (Some 30) (ItemPointerSet 0 5) 0 ex_memory of Some (Inr x) \<Rightarrow> True | _ \<Rightarrow> False) | _ \<Rightarrow> False)"
    by code_simp
  ultimately show ?thesis using ix(1,3) by auto
qed

section \<open>Vacuum\<close>

text \<open>
  C3. The first pass of a vacuum (\<^verbatim>\<open>RemoveHeapTids\<close>) ends on every well-formed index without an error, keeps the index well-formed,
  removes exactly the entries whose heap TID the callback names, lists exactly the elements left without heap TIDs, and
  adds the numbers of removed and kept heap TIDs to the statistics. The two elements the state keeps are distinct and have no heap TIDs.
\<close>

theorem RemoveHeapTids_filters:
  assumes "graph_ok (vs_index vs)" "mem_ok (vs_mem vs)" "dom (mem_elems (vs_mem vs)) = {vs_highestPoint vs, vs_fallbackPoint vs}"
    and "vs_highestPoint vs \<noteq> vs_fallbackPoint vs" "\<forall>e \<in> ran (mem_elems (vs_mem vs)). he_heaptids e = []" "vs_deleted vs = {}"
  shows "\<exists>vs'. RemoveHeapTids vs = Some (Inr vs') \<and> graph_ok (vs_index vs') \<and>
    entries (vs_index vs') = {x \<in> entries (vs_index vs). \<not> vs_callback vs (fst x)} \<and>
    vs_deleted vs' = {t. \<exists>e l. stored (vs_index vs') t = Some (ETup e, l) \<and> dead e} \<and>
    bd_tuples_removed (vs_stats vs') = bd_tuples_removed (vs_stats vs) +
      (\<Sum>t | stored (vs_index vs) t \<noteq> None. length (filter (vs_callback vs) (heaps_at (stored (vs_index vs)) t))) \<and>
    bd_num_index_tuples (vs_stats vs') = bd_num_index_tuples (vs_stats vs) +
      (\<Sum>t | stored (vs_index vs) t \<noteq> None. length (heaps_at (stored (vs_index vs')) t))"
proof -
  note ok = graph_okD [OF assms(1)]
  obtain vs' hl fl where r: "RemoveHeapTids vs = Some (Inr vs')" "keeps_pages (vs_index vs) (vs_index vs')"
    "stored (vs_index vs') = vac_store (vs_callback vs) (stored (vs_index vs))"
    "rem_inv (stored (vs_index vs)) vs {t. stored (vs_index vs) t \<noteq> None} vs' hl fl"
    using RemoveHeapTids_ok [OF assms] by blast
  note i = rem_invD [OF r(4)]
  have "{t \<in> {t. stored (vs_index vs) t \<noteq> None}. \<exists>x l. stored (vs_index vs') t = Some (ETup x, l) \<and> dead x} =
      {t. \<exists>e l. stored (vs_index vs') t = Some (ETup e, l) \<and> dead e}"
    unfolding r(3) by (auto simp: vac_store_def)
  then have d: "vs_deleted vs' = {t. \<exists>e l. stored (vs_index vs') t = Some (ETup e, l) \<and> dead e}"
    using i(2) unfolding r(3) by (rule trans [rotated])
  have h: "heaps_at (stored (vs_index vs')) t = filter (\<lambda>h. \<not> vs_callback vs h) (heaps_at (stored (vs_index vs)) t)" for t
    unfolding r(3) by (rule vac_store_heaps [OF ok(3)])
  show ?thesis
    using r(1) RemoveHeapTids_graph [OF assms(1) r(2,3)] vac_entries [OF ok(3) r(3)] d i(3)
    by (intro exI [of _ vs'] conjI) (simp_all add: h)
qed

definition ex_vacuum_memory :: "int memory" where
  "ex_vacuum_memory = ex_memory\<lparr>mem_elems := [128 \<mapsto> blank_element, 256 \<mapsto> blank_element], mem_count := 2\<rparr>"

lemma ex_vacuum_memory_ok:
  "mem_ok ex_vacuum_memory" "dom (mem_elems ex_vacuum_memory) = {128, 256}"
  "\<forall>e \<in> ran (mem_elems ex_vacuum_memory). he_heaptids e = []"
proof -
  have "mem_addr ex_memory 0 = Some 128" "mem_addr ex_memory 1 = Some 256" by (simp_all add: ex_memory_def)
  then have "\<exists>i < 2. mem_addr ex_memory i = Some 128" "\<exists>i < 2. mem_addr ex_memory i = Some 256"
    by (auto intro: exI [of _ 0] exI [of _ 1])
  then show "mem_ok ex_vacuum_memory" using ex_memory_ok by (auto simp: mem_ok_def ex_vacuum_memory_def)
qed (auto simp: ex_vacuum_memory_def blank_element_def ran_def split: if_splits)

lemma ex_tids: "{t. stored ex_index t \<noteq> None} = {ex_tid 1, ex_tid 2, ex_tid 3, ex_tid 4}"
  by (auto simp: ex_stored split: if_splits)

theorem RemoveHeapTids_filters_witness:
  "\<exists>vs vs'. InitVacuumState ex_index None (\<lambda>h. h = ItemPointerSet 0 1) 128 256 ex_vacuum_memory = Inr vs \<and>
     RemoveHeapTids vs = Some (Inr vs') \<and> graph_ok (vs_index vs') \<and> entries (vs_index vs') = {(ItemPointerSet 0 2, 20)} \<and>
     bd_tuples_removed (vs_stats vs') = 1"
proof -
  obtain vs where vs: "InitVacuumState ex_index None (\<lambda>h. h = ItemPointerSet 0 1) 128 256 ex_vacuum_memory = Inr vs"
    "vs_index vs = ex_index" "vs_mem vs = ex_vacuum_memory" "vs_highestPoint vs = 128" "vs_fallbackPoint vs = 256"
    "vs_deleted vs = {}" "vs_callback vs = (\<lambda>h. h = ItemPointerSet 0 1)" "bd_tuples_removed (vs_stats vs) = 0"
    by (simp add: InitVacuumState_def HnswGetMetaPageInfo_def Let_def ex_index_def)
  have h: "heaps_at (stored ex_index) (ex_tid 1) = [ItemPointerSet 0 1]" "heaps_at (stored ex_index) (ex_tid 2) = []"
    "heaps_at (stored ex_index) (ex_tid 3) = [ItemPointerSet 0 2]" "heaps_at (stored ex_index) (ex_tid 4) = []"
    by (simp_all add: heaps_at_def ex_stored ex_etup_def ex_tid_def)
  have "(\<Sum>t | stored ex_index t \<noteq> None. length (filter (\<lambda>h. h = ItemPointerSet 0 1) (heaps_at (stored ex_index) t))) = 1"
    unfolding ex_tids using h by (simp add: ex_tid_def)
  then show ?thesis
    using RemoveHeapTids_filters [of vs] vs ex_graph_ok ex_vacuum_memory_ok by (auto simp: ex_entries)
qed

end
